(* ===== verification/Py_Prelude.thy ===== *)
theory Py_Prelude
  imports Complex_Main "HOL-Library.Word" "HOL-Library.AList"
begin

unbundle bit_operations_syntax

text \<open>
  The part of Python the ISG userspace is written in, as far as its sources use it: exceptions as
  values, byte strings, text, decimal and hexadecimal numerals, \<^verbatim>\<open>struct\<close> packing, slicing and
  insertion-ordered dictionaries, with the lemmas every component theory shares.

  \<^item> A byte string is a list of \<^typ>\<open>8 word\<close>. A Python \<^verbatim>\<open>str\<close> is the list of the bytes of its
    UTF-8 encoding, kept as a \<^typ>\<open>string\<close>: \<^verbatim>\<open>encode()\<close> is then a change of type, and
    \<^verbatim>\<open>decode('utf-8', errors='replace')\<close> is the replacement of malformed sequences. On ASCII text,
    which is all the protocol's keywords, names and numerals use, the bytes are the characters;
    the digits, blanks and line ends a regular expression or \<^verbatim>\<open>strip\<close> accepts outside ASCII are
    left out.
  \<^item> A raised exception is \<^term>\<open>Inl e\<close>, a returned value \<^term>\<open>Inr v\<close>.
  \<^item> The host is little-endian (\<^verbatim>\<open>struct\<close>'s native order \<^verbatim>\<open>=\<close> is \<^verbatim>\<open><\<close>), as the kernel module's users
    are.
  \<^item> A dictionary whose order is observable is an association list without duplicate keys, changed
    by \<^const>\<open>AList.update\<close> and \<^const>\<open>AList.delete\<close>: an assignment to a present key keeps its place.
\<close>

named_theorems pystruct \<open>equations that read a packed structure\<close>
named_theorems pytext \<open>facts on numerals and character classes\<close>


section \<open>Exceptions as values\<close>

datatype exn =
    OSError | SocketTimeout | ValueError | StructError | KeyError | TypeError | NameError
  | BackendUnavailable | KeyboardInterrupt | SystemExit | OtherError

type_synonym 'a res = "exn + 'a"

text \<open>\<^verbatim>\<open>except OSError\<close> also catches \<^verbatim>\<open>socket.timeout\<close>, and \<^verbatim>\<open>except Exception\<close> everything but
  \<^verbatim>\<open>KeyboardInterrupt\<close> and \<^verbatim>\<open>SystemExit\<close>.\<close>

definition is_oserror :: "exn \<Rightarrow> bool" where
  "is_oserror e \<longleftrightarrow> e = OSError \<or> e = SocketTimeout"

definition is_exception :: "exn \<Rightarrow> bool" where
  "is_exception e \<longleftrightarrow> e \<noteq> KeyboardInterrupt \<and> e \<noteq> SystemExit"

lemma is_oserror_simps [simp]:
  "is_oserror OSError" "is_oserror SocketTimeout" "\<not> is_oserror ValueError"
  "\<not> is_oserror StructError" "\<not> is_oserror KeyError" "\<not> is_oserror TypeError"
  "\<not> is_oserror NameError" "\<not> is_oserror BackendUnavailable" "\<not> is_oserror KeyboardInterrupt"
  "\<not> is_oserror OtherError"
  by (simp_all add: is_oserror_def)

fun bindE :: "'a res \<Rightarrow> ('a \<Rightarrow> 'b res) \<Rightarrow> 'b res" where
  "bindE (Inl e) f = Inl e"
| "bindE (Inr x) f = f x"

lemma bindE_eq_Inr: "bindE r f = Inr y \<longleftrightarrow> (\<exists>x. r = Inr x \<and> f x = Inr y)"
  by (cases r) auto

lemma bindE_eq_Inl: "bindE r f = Inl e \<longleftrightarrow> r = Inl e \<or> (\<exists>x. r = Inr x \<and> f x = Inl e)"
  by (cases r) auto

text \<open>The sequence \<^verbatim>\<open>a + b + c\<close> of packed parts: the first part that raises decides.\<close>

fun concatE :: "'a list res list \<Rightarrow> 'a list res" where
  "concatE [] = Inr []"
| "concatE (r # rs) = bindE r (\<lambda>b. bindE (concatE rs) (\<lambda>c. Inr (b @ c)))"

lemma concatE_Cons_eq_Inr:
  "concatE (r # rs) = Inr c \<longleftrightarrow> (\<exists>a b. r = Inr a \<and> concatE rs = Inr b \<and> c = a @ b)"
  by (auto simp: bindE_eq_Inr)

lemma concatE_Nil_eq_Inr: "concatE [] = Inr c \<longleftrightarrow> c = []"
  by auto

lemmas concatE_eq_Inr = concatE_Cons_eq_Inr concatE_Nil_eq_Inr

lemma concatE_map_Inr [simp]: "concatE (map Inr bs) = Inr (concat bs)"
  by (induction bs) auto

lemma concatE_ok: "(\<exists>b. concatE rs = Inr b) \<longleftrightarrow> list_all (\<lambda>r. \<exists>b. r = Inr b) rs"
  by (induction rs) (auto simp: bindE_eq_Inr)

lemma concatE_eq_Inl: "concatE rs = Inl e \<Longrightarrow> Inl e \<in> set rs"
  by (induction rs) (auto simp: bindE_eq_Inl)


section \<open>Bytes and integers\<close>

type_synonym byte = "8 word"
type_synonym bytes = "8 word list"

definition zeros :: "nat \<Rightarrow> bytes" where
  "zeros n = replicate n 0"

lemma length_zeros [simp]: "length (zeros n) = n"
  by (simp add: zeros_def)

lemma zeros_simps [simp]: "zeros 0 = []" "zeros (Suc n) = 0 # zeros n"
  by (simp_all add: zeros_def)

text \<open>Python's \<^verbatim>\<open>xs[a:b]\<close> for \<^verbatim>\<open>0 <= a <= b\<close>.\<close>

definition pyslice :: "nat \<Rightarrow> nat \<Rightarrow> 'a list \<Rightarrow> 'a list" where
  "pyslice a b xs = take (b - a) (drop a xs)"

lemma length_pyslice [simp]: "length (pyslice a b xs) = min (b - a) (length xs - a)"
  by (simp add: pyslice_def min.commute)

lemma pyslice_append_left: "b \<le> length xs \<Longrightarrow> pyslice a b (xs @ ys) = pyslice a b xs"
  by (simp add: pyslice_def)

lemma pyslice_append_right:
  "length xs \<le> a \<Longrightarrow> pyslice a b (xs @ ys) = pyslice (a - length xs) (b - length xs) ys"
  by (simp add: pyslice_def)

lemma pyslice_drop: "pyslice (k + a) (k + b) xs = pyslice a b (drop k xs)"
  by (simp add: pyslice_def add.commute)

lemma pyslice_here: "length a = w \<Longrightarrow> pyslice 0 w (a @ r) = a"
  by (simp add: pyslice_def)
lemma pyslice_skip: "length a = w \<Longrightarrow> w \<le> i \<Longrightarrow> pyslice i j (a @ r) = pyslice (i - w) (j - w) r"
  by (simp add: pyslice_def)


lemma concatE_layout:
  assumes "concatE rs = Inr p" and "list_all2 (\<lambda>r w. \<forall>b. r = Inr b \<longrightarrow> length b = w) rs ws"
    and "i < length rs"
  shows "rs ! i = Inr (pyslice (sum_list (take i ws)) (sum_list (take (Suc i) ws)) p)"
  using assms
proof (induction rs arbitrary: p ws i)
  case Nil
  then show ?case by simp
next
  case (Cons r rs)
  from Cons.prems(1) obtain a b where r: "r = Inr a" and b: "concatE rs = Inr b" and p: "p = a @ b"
    by (auto simp: bindE_eq_Inr)
  from Cons.prems(2) obtain w vs where ws: "ws = w # vs"
    and vs: "list_all2 (\<lambda>r w. \<forall>b. r = Inr b \<longrightarrow> length b = w) rs vs" and w: "length a = w"
    by (auto simp: list_all2_Cons1 r)
  show ?case
  proof (cases i)
    case 0
    with r p ws w show ?thesis by (simp add: pyslice_here)
  next
    case (Suc j)
    with Cons.prems(3) have "j < length rs" by simp
    from Cons.IH [OF b vs this] Suc p ws w show ?thesis
      by (simp add: pyslice_skip)
  qed
qed

lemma concatE_layout_length:
  "concatE rs = Inr p \<Longrightarrow> list_all2 (\<lambda>r w. \<forall>b. r = Inr b \<longrightarrow> length b = w) rs ws
    \<Longrightarrow> length p = sum_list ws"
  by (induction rs arbitrary: p ws) (auto simp: bindE_eq_Inr list_all2_Cons1)

lemma pyslice_join:
  assumes "i \<le> j" "j \<le> k" shows "pyslice i k p = pyslice i j p @ pyslice j k p"
proof -
  have "k - i = (j - i) + (k - j)" using assms by simp
  then have "take (k - i) (drop i p) = take (j - i) (drop i p) @ take (k - j) (drop (j - i) (drop i p))"
    by (simp only: take_add)
  then show ?thesis using assms by (simp add: pyslice_def)
qed

lemma concat_layout:
  fixes bs :: "'a list list"
  assumes "i < length bs"
  shows "pyslice (sum_list (take i (map length bs))) (sum_list (take (Suc i) (map length bs))) (concat bs) = bs ! i"
proof -
  have "list_all2 (\<lambda>r w. \<forall>b. r = Inr b \<longrightarrow> length b = w) (map Inr bs :: 'a list res list) (map length bs)"
    by (simp add: list_all2_conv_all_nth)
  from concatE_layout [OF concatE_map_Inr this, of i] assms show ?thesis by simp
qed

fun le_bytes :: "nat \<Rightarrow> int \<Rightarrow> bytes" where
  "le_bytes 0 n = []"
| "le_bytes (Suc k) n = word_of_int n # le_bytes k (n div 256)"

fun le_val :: "bytes \<Rightarrow> int" where
  "le_val [] = 0"
| "le_val (b # bs) = uint b + 256 * le_val bs"

definition be_bytes :: "nat \<Rightarrow> int \<Rightarrow> bytes" where
  "be_bytes k n = rev (le_bytes k n)"

definition be_val :: "bytes \<Rightarrow> int" where
  "be_val bs = le_val (rev bs)"

lemma length_le_bytes [simp]: "length (le_bytes k n) = k"
  by (induction k arbitrary: n) auto

lemma length_be_bytes [simp]: "length (be_bytes k n) = k"
  by (simp add: be_bytes_def)

lemma uint_byte_bounds: "0 \<le> uint (b :: byte)" "uint (b :: byte) < 256"
  using uint_lt2p [of b] by simp_all

lemma uint_byte_of_int: "uint (word_of_int n :: byte) = n mod 256"
  by (simp add: uint_word_of_int)

lemma le_val_le_bytes: "le_val (le_bytes k n) = n mod 256 ^ k"
proof (induction k arbitrary: n)
  case 0
  show ?case by simp
next
  case (Suc k)
  have "n mod (256 * 256 ^ k) = 256 * (n div 256 mod 256 ^ k) + n mod 256"
    by (rule zmod_zmult2_eq) simp
  with Suc show ?case by (simp add: uint_byte_of_int)
qed

lemma be_val_be_bytes: "be_val (be_bytes k n) = n mod 256 ^ k"
  by (simp add: be_val_def be_bytes_def le_val_le_bytes)

lemma le_val_bounds: "0 \<le> le_val bs \<and> le_val bs < 256 ^ length bs"
proof (induction bs)
  case Nil
  show ?case by simp
next
  case (Cons b bs)
  then show ?case
    using uint_byte_bounds [of b] by auto
qed

lemma be_val_bounds: "0 \<le> be_val bs \<and> be_val bs < 256 ^ length bs"
  using le_val_bounds [of "rev bs"] by (simp add: be_val_def)

lemma le_bytes_le_val: "le_bytes (length bs) (le_val bs) = bs"
proof (induction bs)
  case Nil
  show ?case by simp
next
  case (Cons b bs)
  have "(uint b + 256 * le_val bs) div 256 = le_val bs"
    using uint_byte_bounds [of b] by simp
  moreover have "word_of_int (uint b + 256 * le_val bs) = (b :: byte)"
  proof -
    have "uint (word_of_int (uint b + 256 * le_val bs) :: byte) = uint b"
      using uint_byte_bounds [of b] by (simp only: uint_byte_of_int) simp
    then show ?thesis by (simp only: word_uint_eq_iff)
  qed
  ultimately show ?case using Cons by simp
qed

lemma be_bytes_be_val: "be_bytes (length bs) (be_val bs) = bs"
  using le_bytes_le_val [of "rev bs"] by (simp add: be_bytes_def be_val_def)

lemma le_val_append: "le_val (xs @ ys) = le_val xs + 256 ^ length xs * le_val ys"
  by (induction xs) (auto simp: algebra_simps)

lemma le_bytes_add: "le_bytes (j + k) n = le_bytes j n @ le_bytes k (n div 256 ^ j)"
  by (induction j arbitrary: n) (auto simp: zdiv_zmult2_eq)

lemma and_not_mask_eq: "a AND NOT (mask n) = 2 ^ n * (a div 2 ^ n)" for a :: int
proof -
  have "a AND NOT (mask n) = push_bit n (drop_bit n a)"
    by (rule bit_eqI) (auto simp: bit_simps)
  then show ?thesis by (simp add: push_bit_eq_mult drop_bit_eq_div mult.commute)
qed

lemma and_mask32: "n AND 0xFFFFFFFF = n mod 2 ^ 32" for n :: int
  using take_bit_eq_mask [of 32 n] by (simp add: mask_eq_exp_minus_1 take_bit_eq_mod)

lemma le_val_zeros [simp]: "le_val (zeros n) = 0"
  by (induction n) auto

text \<open>\<^verbatim>\<open>struct.pack\<close> of one unsigned field of \<open>k\<close> bytes raises \<^verbatim>\<open>struct.error\<close> out of range.\<close>

definition pack_le :: "nat \<Rightarrow> int \<Rightarrow> bytes res" where
  "pack_le k n = (if 0 \<le> n \<and> n < 256 ^ k then Inr (le_bytes k n) else Inl StructError)"

definition pack_be :: "nat \<Rightarrow> int \<Rightarrow> bytes res" where
  "pack_be k n = (if 0 \<le> n \<and> n < 256 ^ k then Inr (be_bytes k n) else Inl StructError)"

lemma pack_le_eq_Inr [pystruct]:
  "pack_le k n = Inr b \<longleftrightarrow> 0 \<le> n \<and> n < 256 ^ k \<and> b = le_bytes k n"
  by (auto simp: pack_le_def)

lemma pack_be_eq_Inr [pystruct]:
  "pack_be k n = Inr b \<longleftrightarrow> 0 \<le> n \<and> n < 256 ^ k \<and> b = be_bytes k n"
  by (auto simp: pack_be_def)

lemma pack_le_eq_Inl: "pack_le k n = Inl e \<Longrightarrow> e = StructError"
  by (auto simp: pack_le_def split: if_splits)

lemma pack_be_eq_Inl: "pack_be k n = Inl e \<Longrightarrow> e = StructError"
  by (auto simp: pack_be_def split: if_splits)

text \<open>
  A reader of fixed-width records: \<open>dec\<close> gives, of the encoding of a value in \<open>ok\<close>, what the
  program sees of it. A stream of such records splits back at the multiples of the width.
\<close>

locale fixed_reader =
  fixes enc :: "'a \<Rightarrow> bytes" and dec :: "bytes \<Rightarrow> 'b" and view :: "'a \<Rightarrow> 'b"
    and width :: nat and ok :: "'a \<Rightarrow> bool"
  assumes length_enc: "ok x \<Longrightarrow> length (enc x) = width"
    and dec_enc: "ok x \<Longrightarrow> dec (enc x) = view x"
begin

lemma length_concat_enc:
  "list_all ok xs \<Longrightarrow> length (concat (map enc xs)) = width * length xs"
  by (induction xs) (auto simp: length_enc)

lemma pyslice_concat_enc:
  assumes "list_all ok xs" and "i < length xs"
  shows "pyslice (i * width) (Suc i * width) (concat (map enc xs)) = enc (xs ! i)"
  using assms
proof (induction xs arbitrary: i)
  case Nil
  then show ?case by simp
next
  case (Cons x xs)
  then have w: "length (enc x) = width" by (simp add: length_enc)
  show ?case
  proof (cases i)
    case 0
    with w show ?thesis by (simp add: pyslice_def)
  next
    case (Suc j)
    with Cons have "pyslice (j * width) (Suc j * width) (concat (map enc xs)) = enc (xs ! j)"
      by simp
    with Suc w show ?thesis by (simp add: pyslice_append_right)
  qed
qed

lemma chunks_concat_enc:
  assumes "list_all ok xs"
  shows "map (\<lambda>i. pyslice (i * width) (Suc i * width) (concat (map enc xs))) [0..<length xs] = map enc xs"
  by (rule nth_equalityI) (use assms pyslice_concat_enc in auto)

lemma map_dec_enc: "list_all ok xs \<Longrightarrow> map dec (map enc xs) = map view xs"
  by (induction xs) (auto simp: dec_enc)

end

text \<open>A codec sees the value itself, so its encoding is injective.\<close>

locale fixed_codec = fixed_reader enc dec "\<lambda>x. x" width ok
  for enc :: "'a \<Rightarrow> bytes" and dec width ok
begin

lemma enc_inject: "ok x \<Longrightarrow> ok y \<Longrightarrow> enc x = enc y \<longleftrightarrow> x = y"
  using dec_enc by metis

end

interpretation le_codec: fixed_codec "le_bytes k" le_val k "\<lambda>n. 0 \<le> n \<and> n < 256 ^ k" for k
  by unfold_locales (auto simp: le_val_le_bytes)

interpretation be_codec: fixed_codec "be_bytes k" be_val k "\<lambda>n. 0 \<le> n \<and> n < 256 ^ k" for k
  by unfold_locales (auto simp: be_val_be_bytes)


section \<open>Text\<close>

definition encode :: "string \<Rightarrow> bytes" where
  "encode s = map of_char s"

definition bytes_text :: "bytes \<Rightarrow> string" where
  "bytes_text bs = map (\<lambda>b. char_of (unat b)) bs"

lemma length_encode [simp]: "length (encode s) = length s"
  by (simp add: encode_def)

lemma length_bytes_text [simp]: "length (bytes_text bs) = length bs"
  by (simp add: bytes_text_def)

lemma encode_append [simp]: "encode (s @ t) = encode s @ encode t"
  by (simp add: encode_def)

lemma encode_simps [simp]: "encode [] = []" "encode (c # s) = of_char c # encode s"
  by (simp_all add: encode_def)

lemma unat_of_char: "unat (of_char c :: byte) = of_char c"
proof -
  have "(of_char c :: byte) = of_nat (of_char c)"
    by (simp add: of_char_def horner_sum_simps)
  moreover have "(of_char c :: nat) < 2 ^ LENGTH(8)"
    by simp
  ultimately show ?thesis by (simp add: unat_of_nat)
qed

lemma bytes_text_encode [simp]: "bytes_text (encode s) = s"
  by (induction s) (auto simp: bytes_text_def unat_of_char)

lemma of_char_char_of_byte: "of_char (char_of (unat b)) = (b :: byte)"
proof -
  have "unat (of_char (char_of (unat b)) :: byte) = unat b"
    using unsigned_less [of b, where 'a = nat] by (simp add: unat_of_char)
  then show ?thesis by (simp only: word_unat_eq_iff)
qed

lemma encode_bytes_text [simp]: "encode (bytes_text bs) = bs"
  by (induction bs) (auto simp: bytes_text_def of_char_char_of_byte)

lemma encode_inject [simp]: "encode s = encode t \<longleftrightarrow> s = t"
  by (metis bytes_text_encode)

text \<open>
  \<^verbatim>\<open>bytes.decode('utf-8', errors='replace')\<close>: every maximal malformed prefix of a sequence becomes
  U+FFFD, here the three bytes of its encoding; well-formed sequences are kept.
\<close>

definition utf8_fffd :: bytes where
  "utf8_fffd = [0xEF, 0xBF, 0xBD]"

definition utf8_cont :: "byte \<Rightarrow> bool" where
  "utf8_cont b \<longleftrightarrow> 0x80 \<le> b \<and> b \<le> 0xBF"

definition utf8_second :: "byte \<Rightarrow> byte \<Rightarrow> bool" where
  "utf8_second a b \<longleftrightarrow>
     (if a = 0xE0 then 0xA0 \<le> b \<and> b \<le> 0xBF
      else if a = 0xED then 0x80 \<le> b \<and> b \<le> 0x9F
      else if a = 0xF0 then 0x90 \<le> b \<and> b \<le> 0xBF
      else if a = 0xF4 then 0x80 \<le> b \<and> b \<le> 0x8F
      else utf8_cont b)"

fun utf8_replace :: "bytes \<Rightarrow> bytes" where
  "utf8_replace [] = []"
| "utf8_replace (a # r) =
     (if a < 0x80 then a # utf8_replace r
      else if 0xC2 \<le> a \<and> a \<le> 0xDF then
        (case r of [] \<Rightarrow> utf8_fffd
         | b # r1 \<Rightarrow> if utf8_cont b then a # b # utf8_replace r1 else utf8_fffd @ utf8_replace r)
      else if 0xE0 \<le> a \<and> a \<le> 0xEF then
        (case r of [] \<Rightarrow> utf8_fffd
         | b # r1 \<Rightarrow> if \<not> utf8_second a b then utf8_fffd @ utf8_replace r else
             (case r1 of [] \<Rightarrow> utf8_fffd
              | c # r2 \<Rightarrow> if utf8_cont c then a # b # c # utf8_replace r2
                         else utf8_fffd @ utf8_replace r1))
      else if 0xF0 \<le> a \<and> a \<le> 0xF4 then
        (case r of [] \<Rightarrow> utf8_fffd
         | b # r1 \<Rightarrow> if \<not> utf8_second a b then utf8_fffd @ utf8_replace r else
             (case r1 of [] \<Rightarrow> utf8_fffd
              | c # r2 \<Rightarrow> if \<not> utf8_cont c then utf8_fffd @ utf8_replace r1 else
                  (case r2 of [] \<Rightarrow> utf8_fffd
                   | d # r3 \<Rightarrow> if utf8_cont d then a # b # c # d # utf8_replace r3
                              else utf8_fffd @ utf8_replace r2)))
      else utf8_fffd @ utf8_replace r)"

definition decode_replace :: "bytes \<Rightarrow> string" where
  "decode_replace bs = bytes_text (utf8_replace bs)"

definition is_ascii :: "string \<Rightarrow> bool" where
  "is_ascii s \<longleftrightarrow> list_all (\<lambda>c. (of_char c :: nat) < 128) s"

lemma utf8_replace_ascii: "list_all (\<lambda>b. b < 0x80) bs \<Longrightarrow> utf8_replace bs = bs"
  by (induction bs) auto

lemma decode_replace_encode: "is_ascii s \<Longrightarrow> decode_replace (encode s) = s"
proof -
  assume "is_ascii s"
  then have "list_all (\<lambda>b. b < 0x80) (encode s)"
    by (auto simp: is_ascii_def encode_def list_all_iff word_less_nat_alt unat_of_char)
  then show ?thesis by (simp add: decode_replace_def utf8_replace_ascii)
qed

fun join :: "string \<Rightarrow> string list \<Rightarrow> string" where
  "join sep [] = []"
| "join sep [x] = x"
| "join sep (x # y # ys) = x @ sep @ join sep (y # ys)"

subsection \<open>Character classes and simple patterns\<close>

definition is_digit :: "char \<Rightarrow> bool" where
  "is_digit c \<longleftrightarrow> 48 \<le> (of_char c :: nat) \<and> (of_char c :: nat) \<le> 57"

definition is_space :: "char \<Rightarrow> bool" where
  "is_space c \<longleftrightarrow> (9 \<le> (of_char c :: nat) \<and> (of_char c :: nat) \<le> 13)
     \<or> (28 \<le> (of_char c :: nat) \<and> (of_char c :: nat) \<le> 32)"

definition is_hex :: "char \<Rightarrow> bool" where
  "is_hex c \<longleftrightarrow> is_digit c \<or> (65 \<le> (of_char c :: nat) \<and> (of_char c :: nat) \<le> 70)
     \<or> (97 \<le> (of_char c :: nat) \<and> (of_char c :: nat) \<le> 102)"

definition upper_char :: "char \<Rightarrow> char" where
  "upper_char c = (if 97 \<le> (of_char c :: nat) \<and> (of_char c :: nat) \<le> 122
                   then char_of ((of_char c :: nat) - 32) else c)"

definition lower_char :: "char \<Rightarrow> char" where
  "lower_char c = (if 65 \<le> (of_char c :: nat) \<and> (of_char c :: nat) \<le> 90
                   then char_of ((of_char c :: nat) + 32) else c)"

definition strip :: "string \<Rightarrow> string" where
  "strip s = rev (dropWhile is_space (rev (dropWhile is_space s)))"

text \<open>\<^verbatim>\<open>s.split(c)\<close> for a one-character separator.\<close>

fun split_on :: "char \<Rightarrow> string \<Rightarrow> string list" where
  "split_on c [] = [[]]"
| "split_on c (x # xs) =
     (if x = c then [] # split_on c xs
      else (x # hd (split_on c xs)) # tl (split_on c xs))"

lemma split_on_nonempty [simp]: "split_on c s \<noteq> []"
  by (induction s) auto

text \<open>\<^verbatim>\<open>s.split()\<close>: the maximal runs of non-blank characters.\<close>

function split_ws :: "string \<Rightarrow> string list" where
  "split_ws s =
     (let t = dropWhile is_space s in
      if t = [] then []
      else takeWhile (\<lambda>c. \<not> is_space c) t # split_ws (dropWhile (\<lambda>c. \<not> is_space c) t))"
  by pat_completeness auto
termination
proof (relation "measure length")
  show "wf (measure (length :: string \<Rightarrow> nat))" by simp
next
  fix s t :: string
  assume t: "t = dropWhile is_space s" and ne: "t \<noteq> []"
  then have "\<not> is_space (hd t)" using hd_dropWhile by blast
  with ne have "length (dropWhile (\<lambda>c. \<not> is_space c) t) < length t"
    by (cases t) (auto simp: less_Suc_eq_le length_dropWhile_le)
  with t show "(dropWhile (\<lambda>c. \<not> is_space c) t, s) \<in> measure length"
    using length_dropWhile_le [of is_space s] by simp
qed

declare split_ws.simps [simp del]

text \<open>A regular expression's final \<^verbatim>\<open>$\<close> also matches before one trailing line feed.\<close>

definition chomp :: "string \<Rightarrow> string" where
  "chomp s = (if s \<noteq> [] \<and> last s = CHR 0x0A then butlast s else s)"

lemma not_hex_newline: "\<not> is_hex CHR 0x0A"
  by (simp add: is_hex_def is_digit_def)

lemma chomp_hex: "list_all is_hex s \<Longrightarrow> chomp s = s"
  using not_hex_newline by (auto simp: chomp_def list_all_iff dest: last_in_set)

text \<open>\<^verbatim>\<open>^\d{1,3}(\.\d{1,3}){3}$\<close>, \<^verbatim>\<open>^[0-9A-Fa-f]{16}$\<close> and \<^verbatim>\<open>^Virtual(\d+)$\<close>.\<close>

definition re_quad :: "string \<Rightarrow> bool" where
  "re_quad s \<longleftrightarrow>
     (let ps = split_on CHR ''.'' (chomp s) in
      length ps = 4 \<and> list_all (\<lambda>p. 1 \<le> length p \<and> length p \<le> 3 \<and> list_all is_digit p) ps)"

definition re_hex16 :: "string \<Rightarrow> bool" where
  "re_hex16 s \<longleftrightarrow> length (chomp s) = 16 \<and> list_all is_hex (chomp s)"

definition re_virtual :: "string \<Rightarrow> string option" where
  "re_virtual s =
     (let t = chomp s; d = drop 7 t in
      if take 7 t = ''Virtual'' \<and> d \<noteq> [] \<and> list_all is_digit d then Some d else None)"

subsection \<open>Numerals\<close>

definition digit_char :: "nat \<Rightarrow> char" where
  "digit_char n = char_of (48 + n)"

fun show_nat :: "nat \<Rightarrow> string" where
  "show_nat n = (if n < 10 then [digit_char n] else show_nat (n div 10) @ [digit_char (n mod 10)])"

declare show_nat.simps [simp del]

definition show_int :: "int \<Rightarrow> string" where
  "show_int n = (if n < 0 then CHR ''-'' # show_nat (nat (- n)) else show_nat (nat n))"

definition digit_val :: "char \<Rightarrow> nat" where
  "digit_val c = of_char c - 48"

definition dec_val :: "string \<Rightarrow> nat" where
  "dec_val s = foldl (\<lambda>a c. 10 * a + digit_val c) 0 s"

lemma is_digit_digit_char [simp, pytext]: "n < 10 \<Longrightarrow> is_digit (digit_char n)"
  by (simp add: is_digit_def digit_char_def)

lemma digit_val_digit_char [simp, pytext]: "n < 10 \<Longrightarrow> digit_val (digit_char n) = n"
  by (simp add: digit_val_def digit_char_def)

lemma dec_val_snoc: "dec_val (s @ [c]) = 10 * dec_val s + digit_val c"
  by (simp add: dec_val_def)

lemma show_nat_nonempty [simp]: "show_nat n \<noteq> []"
  by (subst show_nat.simps) simp

lemma show_nat_digits: "list_all is_digit (show_nat n)"
proof (induction n rule: show_nat.induct)
  case (1 n)
  then show ?case by (subst show_nat.simps) auto
qed

lemma dec_val_show_nat [simp]: "dec_val (show_nat n) = n"
proof (induction n rule: show_nat.induct)
  case (1 n)
  show ?case
  proof (cases "n < 10")
    case True
    then show ?thesis by (subst show_nat.simps) (simp add: dec_val_def)
  next
    case False
    with 1 have "dec_val (show_nat (n div 10)) = n div 10" by simp
    with False show ?thesis
      by (subst show_nat.simps) (simp add: dec_val_snoc)
  qed
qed

lemma show_nat_hd: "0 < n \<Longrightarrow> hd (show_nat n) \<noteq> CHR ''0''"
proof (induction n rule: show_nat.induct)
  case (1 n)
  show ?case
  proof (cases "n < 10")
    case True
    have "digit_char n \<noteq> CHR ''0''"
    proof
      assume "digit_char n = CHR ''0''"
      then have "digit_val (digit_char n) = digit_val CHR ''0''" by simp
      moreover have "digit_val CHR ''0'' = 0" by (simp add: digit_val_def)
      ultimately show False using True 1 by simp
    qed
    with True show ?thesis by (subst show_nat.simps) simp
  next
    case False
    with 1 show ?thesis by (subst show_nat.simps) simp
  qed
qed

lemma takeWhile_show_nat:
  assumes "r = [] \<or> \<not> is_digit (hd r)"
  shows "takeWhile is_digit (show_nat n @ r) = show_nat n" "dropWhile is_digit (show_nat n @ r) = r"
proof -
  have "\<forall>c \<in> set (show_nat n). is_digit c" using show_nat_digits by (simp add: list_all_iff)
  moreover have "takeWhile is_digit r = []" "dropWhile is_digit r = r"
    using assms by (cases r; auto)+
  ultimately show "takeWhile is_digit (show_nat n @ r) = show_nat n" "dropWhile is_digit (show_nat n @ r) = r"
    by simp_all
qed

definition hex_digit_val :: "char \<Rightarrow> nat" where
  "hex_digit_val c = (let n = of_char c in if n \<le> 57 then n - 48 else if n \<le> 70 then n - 55 else n - 87)"

definition hex_val :: "string \<Rightarrow> nat" where
  "hex_val s = foldl (\<lambda>a c. 16 * a + hex_digit_val c) 0 s"

definition hex_char :: "bool \<Rightarrow> nat \<Rightarrow> char" where
  "hex_char up n = (if n < 10 then char_of (48 + n) else char_of ((if up then 55 else 87) + n))"

text \<open>The last \<open>k\<close> hexadecimal digits of a number; \<^verbatim>\<open>f'{n:08X}'\<close> for \<open>k = 8\<close> and \<open>n < 2 ^ 32\<close>.\<close>

fun hex_str :: "bool \<Rightarrow> nat \<Rightarrow> nat \<Rightarrow> string" where
  "hex_str up 0 n = []"
| "hex_str up (Suc k) n = hex_str up k (n div 16) @ [hex_char up (n mod 16)]"

lemma length_hex_str [simp]: "length (hex_str up k n) = k"
  by (induction k arbitrary: n) auto

lemma hex_str_add: "hex_str up (j + k) n = hex_str up j (n div 16 ^ k) @ hex_str up k n"
  by (induction k arbitrary: n) (auto simp: div_mult2_eq)

lemma is_hex_hex_char [pytext]: "n < 16 \<Longrightarrow> is_hex (hex_char up n)"
  by (auto simp: is_hex_def is_digit_def hex_char_def)

lemma hex_digit_val_hex_char [pytext]: "n < 16 \<Longrightarrow> hex_digit_val (hex_char up n) = n"
  by (auto simp: hex_digit_val_def hex_char_def)

lemma hex_val_append: "hex_val (s @ t) = foldl (\<lambda>a c. 16 * a + hex_digit_val c) (hex_val s) t"
  by (simp add: hex_val_def)

lemma hex_str_is_hex: "list_all is_hex (hex_str up k n)"
  by (induction k arbitrary: n) (auto simp: is_hex_hex_char)

lemma hex_val_hex_str: "hex_val (hex_str up k n) = n mod 16 ^ k"
proof (induction k arbitrary: n)
  case 0
  show ?case by (simp add: hex_val_def)
next
  case (Suc k)
  have "n mod (16 * 16 ^ k) = 16 * (n div 16 mod 16 ^ k) + n mod 16"
    by (rule mod_mult2_eq)
  with Suc show ?case
    by (simp add: hex_val_append hex_digit_val_hex_char)
qed

text \<open>
  \<^verbatim>\<open>int(s)\<close> on text: blanks around, one sign, and digits that single underscores may separate.
  (The interpreter's limit of 4300 digits is left out.)
\<close>

fun digits_us :: "string \<Rightarrow> bool" where
  "digits_us [] = False"
| "digits_us [c] = is_digit c"
| "digits_us (c # d # s) =
     (is_digit c \<and> (if d = CHR ''_'' then digits_us s else digits_us (d # s)))"

definition py_int :: "string \<Rightarrow> int res" where
  "py_int s0 =
     (let s = strip s0;
          neg = (s \<noteq> [] \<and> hd s = CHR ''-'');
          body = (if s \<noteq> [] \<and> (hd s = CHR ''-'' \<or> hd s = CHR ''+'') then tl s else s)
      in if digits_us body
         then let n = int (dec_val (filter is_digit body)) in Inr (if neg then - n else n)
         else Inl ValueError)"

lemma digits_us_digits: "s \<noteq> [] \<Longrightarrow> list_all is_digit s \<Longrightarrow> digits_us s"
proof (induction s rule: digits_us.induct)
  case (3 c d s)
  then show ?case by (auto simp: is_digit_def)
qed simp_all

lemma digits_not_space: "list_all is_digit s \<Longrightarrow> strip s = s"
proof -
  assume s: "list_all is_digit s"
  have "\<not> is_space c" if "is_digit c" for c
    using that by (auto simp: is_digit_def is_space_def)
  with s have a: "\<not> is_space (hd t)" if "t \<noteq> []" "set t \<subseteq> set s" for t
    using that by (cases t) (auto simp: list_all_iff)
  have "dropWhile is_space t = t" if "set t \<subseteq> set s" for t
    using a [of t] that by (cases t) auto
  from this [of s] this [of "rev s"] show ?thesis by (simp add: strip_def)
qed

lemma py_int_digits: "s \<noteq> [] \<Longrightarrow> list_all is_digit s \<Longrightarrow> py_int s = Inr (int (dec_val s))"
proof -
  assume s: "s \<noteq> []" "list_all is_digit s"
  then have "hd s \<noteq> CHR ''-''" "hd s \<noteq> CHR ''+''"
    by (cases s; auto simp: is_digit_def)+
  moreover have "filter is_digit s = s" using s(2) by (simp add: list_all_iff filter_id_conv)
  ultimately show ?thesis using s by (simp add: py_int_def digits_not_space digits_us_digits)
qed

lemma py_int_show_nat: "py_int (show_nat n) = Inr (int n)"
  by (simp add: py_int_digits show_nat_digits)

text \<open>\<^verbatim>\<open>s.rpartition(c)\<close>\<close>

definition rpartition :: "char \<Rightarrow> string \<Rightarrow> string \<times> string \<times> string" where
  "rpartition c s =
     (if c \<notin> set s then ([], [], s)
      else (rev (tl (dropWhile (\<lambda>x. x \<noteq> c) (rev s))), [c], rev (takeWhile (\<lambda>x. x \<noteq> c) (rev s))))"

lemma rpartition_append:
  assumes "c \<notin> set t"
  shows "rpartition c (s @ c # t) = (s, [c], t)"
proof -
  have p: "x \<noteq> c" if "x \<in> set (rev t)" for x using assms that by auto
  have "takeWhile (\<lambda>x. x \<noteq> c) (rev t @ c # rev s) = rev t"
    using takeWhile_append2 [of "rev t" "\<lambda>x. x \<noteq> c" "c # rev s"] p by simp
  moreover have "dropWhile (\<lambda>x. x \<noteq> c) (rev t @ c # rev s) = c # rev s"
    using dropWhile_append2 [of "rev t" "\<lambda>x. x \<noteq> c" "c # rev s"] p by simp
  ultimately show ?thesis by (simp add: rpartition_def)
qed


section \<open>Insertion-ordered dictionaries\<close>

type_synonym ('k, 'v) odict = "('k \<times> 'v) list"

text \<open>What the code relies on of a \<^verbatim>\<open>dict\<close>, as an interface.\<close>

locale pydict =
  fixes get :: "'d \<Rightarrow> 'k \<Rightarrow> 'v option" and put :: "'k \<Rightarrow> 'v \<Rightarrow> 'd \<Rightarrow> 'd"
    and del :: "'k \<Rightarrow> 'd \<Rightarrow> 'd" and items :: "'d \<Rightarrow> ('k \<times> 'v) list" and wf :: "'d \<Rightarrow> bool"
  assumes get_put: "get (put k v d) = (get d)(k \<mapsto> v)"
    and get_del: "get (del k d) = (get d)(k := None)"
    and get_items: "get d = map_of (items d)"
    and wf_items: "wf d \<longleftrightarrow> distinct (map fst (items d))"
    and wf_put: "wf d \<Longrightarrow> wf (put k v d)"
    and wf_del: "wf d \<Longrightarrow> wf (del k d)"
begin

lemma mem_items_iff: "wf d \<Longrightarrow> (k, v) \<in> set (items d) \<longleftrightarrow> get d k = Some v"
  by (simp add: get_items wf_items)

lemma mem_items_put:
  "wf d \<Longrightarrow> (k', v') \<in> set (items (put k v d)) \<longleftrightarrow>
     (if k' = k then v' = v else (k', v') \<in> set (items d))"
  by (auto simp: mem_items_iff wf_put get_put)

lemma keys_put: "set (map fst (items (put k v d))) = insert k (set (map fst (items d)))"
proof -
  have "dom (get (put k v d)) = insert k (dom (get d))" by (simp add: get_put)
  then show ?thesis by (simp add: get_items dom_map_of_conv_image_fst)
qed

end

interpretation od: pydict "map_of :: ('k, 'v) odict \<Rightarrow> 'k \<Rightarrow> 'v option" AList.update AList.delete
  "\<lambda>d. d" "\<lambda>d. distinct (map fst d)"
  by unfold_locales
    (auto simp: update_conv' delete_conv' distinct_update distinct_delete)

lemma map_of_snoc_new:
  "k \<notin> set (map fst d) \<Longrightarrow> map_of (d @ [(k, v)]) = (map_of d)(k \<mapsto> v)"
  by (induction d) (auto simp: fun_eq_iff)

lemma map_add_new: "k \<notin> set (map fst d) \<Longrightarrow> [k \<mapsto> v] ++ map_of d = (map_of d)(k \<mapsto> v)"
  using map_of_snoc_new [of k d v] by simp

lemma update_new: "k \<notin> set (map fst al) \<Longrightarrow> AList.update k v al = al @ [(k, v)]"
  by (induction al) auto

lemma update_value_mem: "x \<in> set (AList.update k v d) \<Longrightarrow> x = (k, v) \<or> x \<in> set d"
  by (induction d) (auto split: if_splits)

lemma map_fst_update: "map fst (AList.update k v al) = (if k \<in> set (map fst al) then map fst al else map fst al @ [k])"
  by (simp add: AList.update_keys)

lemma list_of_4: "length xs = 4 \<Longrightarrow> [xs ! 0, xs ! 1, xs ! 2, xs ! 3] = xs"
  by (auto simp: numeral_eq_Suc length_Suc_conv)

definition setdefault :: "'k \<Rightarrow> 'v \<Rightarrow> ('k, 'v) odict \<Rightarrow> ('k, 'v) odict" where
  "setdefault k v d = (case map_of d k of None \<Rightarrow> AList.update k v d | Some _ \<Rightarrow> d)"

lemma map_of_setdefault:
  "map_of (setdefault k v d) = (case map_of d k of None \<Rightarrow> (map_of d)(k \<mapsto> v) | Some _ \<Rightarrow> map_of d)"
  by (simp add: setdefault_def update_conv' split: option.split)

lemma distinct_setdefault: "distinct (map fst d) \<Longrightarrow> distinct (map fst (setdefault k v d))"
  by (simp add: setdefault_def distinct_update split: option.split)

end
