(* ===== verification/Netlink.thy ===== *)
theory Netlink
  imports Py_Prelude "HOL-Library.Sublist"
begin

text \<open>
  The netlink protocol of \<^verbatim>\<open>app/src/isg.py\<close>: event codes and flags, address conversion, netlink
  framing, packing of the events sent to the kernel and unpacking of the events it sends, and the
  socket operations built on them.

  The layouts the kernel reads and writes (\<^verbatim>\<open>struct isg_in_event\<close> and \<^verbatim>\<open>struct isg_out_event\<close> of
  \<^verbatim>\<open>kernel/isg_main.h\<close>) are modelled a second time, from the C side, so that the theorems compare
  the two ends of the socket and not the packer with itself.
\<close>

section \<open>Constants\<close>

definition NL_HDR_LEN :: nat where "NL_HDR_LEN = 16"
definition NLMSG_ALIGNTO :: int where "NLMSG_ALIGNTO = 4"
definition NLMSG_DONE :: int where "NLMSG_DONE = 0x3"
definition IN_EVENT_MSG_LEN :: nat where "IN_EVENT_MSG_LEN = 184"

definition EVENT_LISTENER_REG :: int where "EVENT_LISTENER_REG = 0x01"
definition EVENT_SESS_APPROVE :: int where "EVENT_SESS_APPROVE = 0x04"
definition EVENT_SESS_CHANGE :: int where "EVENT_SESS_CHANGE = 0x05"
definition EVENT_SESS_CLEAR :: int where "EVENT_SESS_CLEAR = 0x09"
definition EVENT_SESS_GETLIST :: int where "EVENT_SESS_GETLIST = 0x10"
definition EVENT_SESS_GETCOUNT :: int where "EVENT_SESS_GETCOUNT = 0x12"
definition EVENT_NE_ADD_QUEUE :: int where "EVENT_NE_ADD_QUEUE = 0x14"
definition EVENT_NE_SWEEP_QUEUE :: int where "EVENT_NE_SWEEP_QUEUE = 0x15"
definition EVENT_NE_COMMIT :: int where "EVENT_NE_COMMIT = 0x16"
definition EVENT_SERV_APPLY :: int where "EVENT_SERV_APPLY = 0x17"
definition EVENT_SDESC_ADD :: int where "EVENT_SDESC_ADD = 0x18"
definition EVENT_SDESC_SWEEP_TC :: int where "EVENT_SDESC_SWEEP_TC = 0x19"
definition EVENT_SERV_GETLIST :: int where "EVENT_SERV_GETLIST = 0x20"
definition EVENT_SESS_GETTOTALS :: int where "EVENT_SESS_GETTOTALS = 0x21"

definition EVENT_SESS_CREATE :: int where "EVENT_SESS_CREATE = 0x03"
definition EVENT_SESS_START :: int where "EVENT_SESS_START = 0x06"
definition EVENT_SESS_UPDATE :: int where "EVENT_SESS_UPDATE = 0x07"
definition EVENT_SESS_STOP :: int where "EVENT_SESS_STOP = 0x08"
definition EVENT_SESS_INFO :: int where "EVENT_SESS_INFO = 0x11"
definition EVENT_SESS_COUNT :: int where "EVENT_SESS_COUNT = 0x13"
definition EVENT_SESS_TOTALS :: int where "EVENT_SESS_TOTALS = 0x22"
definition EVENT_KERNEL_ACK :: int where "EVENT_KERNEL_ACK = 0x98"
definition EVENT_KERNEL_NACK :: int where "EVENT_KERNEL_NACK = 0x99"

definition IS_APPROVED_SESSION :: int where "IS_APPROVED_SESSION = 1"
definition IS_SERVICE :: int where "IS_SERVICE = 2"
definition SERVICE_STATUS_ON :: int where "SERVICE_STATUS_ON = 4"
definition SERVICE_ONLINE :: int where "SERVICE_ONLINE = 8"
definition NO_ACCT :: int where "NO_ACCT = 16"
definition IS_DYING :: int where "IS_DYING = 32"
definition SERVICE_TAGGER :: int where "SERVICE_TAGGER = 64"

definition FLAG_OP_SET :: int where "FLAG_OP_SET = 0x01"
definition FLAG_OP_UNSET :: int where "FLAG_OP_UNSET = 0x02"
definition SERVICE_DESC_IS_DYNAMIC :: int where "SERVICE_DESC_IS_DYNAMIC = 1"

lemmas nl_consts = NL_HDR_LEN_def NLMSG_ALIGNTO_def NLMSG_DONE_def IN_EVENT_MSG_LEN_def

lemmas event_codes =
  EVENT_LISTENER_REG_def EVENT_SESS_APPROVE_def EVENT_SESS_CHANGE_def EVENT_SESS_CLEAR_def
  EVENT_SESS_GETLIST_def EVENT_SESS_GETCOUNT_def EVENT_NE_ADD_QUEUE_def EVENT_NE_SWEEP_QUEUE_def
  EVENT_NE_COMMIT_def EVENT_SERV_APPLY_def EVENT_SDESC_ADD_def EVENT_SDESC_SWEEP_TC_def
  EVENT_SERV_GETLIST_def EVENT_SESS_GETTOTALS_def EVENT_SESS_CREATE_def EVENT_SESS_START_def
  EVENT_SESS_UPDATE_def EVENT_SESS_STOP_def EVENT_SESS_INFO_def EVENT_SESS_COUNT_def
  EVENT_SESS_TOTALS_def EVENT_KERNEL_ACK_def EVENT_KERNEL_NACK_def

lemmas flag_bits =
  IS_APPROVED_SESSION_def IS_SERVICE_def SERVICE_STATUS_ON_def SERVICE_ONLINE_def NO_ACCT_def
  IS_DYING_def SERVICE_TAGGER_def FLAG_OP_SET_def FLAG_OP_UNSET_def SERVICE_DESC_IS_DYNAMIC_def


section \<open>Address and identifier conversion\<close>

text \<open>
  \<^verbatim>\<open>socket.inet_aton\<close> is the C library's: one to four parts, each decimal, octal (leading 0) or
  hexadecimal (leading 0x), the last part filling the remaining bytes, and a blank ends the text.
\<close>

definition c_isspace :: "char \<Rightarrow> bool" where
  "c_isspace c \<longleftrightarrow> (9 \<le> (of_char c :: nat) \<and> (of_char c :: nat) \<le> 13) \<or> c = CHR '' ''"

definition is_octal :: "char \<Rightarrow> bool" where
  "is_octal c \<longleftrightarrow> 48 \<le> (of_char c :: nat) \<and> (of_char c :: nat) \<le> 55"

definition oct_val :: "string \<Rightarrow> nat" where
  "oct_val s = foldl (\<lambda>a c. 8 * a + digit_val c) 0 s"

definition strtoul0 :: "string \<Rightarrow> nat \<times> string" where
  "strtoul0 s =
     (if 3 \<le> length s \<and> s ! 0 = CHR ''0'' \<and> (s ! 1 = CHR ''x'' \<or> s ! 1 = CHR ''X'') \<and> is_hex (s ! 2)
      then (hex_val (takeWhile is_hex (drop 2 s)), dropWhile is_hex (drop 2 s))
      else if s \<noteq> [] \<and> hd s = CHR ''0''
      then (oct_val (takeWhile is_octal s), dropWhile is_octal s)
      else (dec_val (takeWhile is_digit s), dropWhile is_digit s))"

fun aton_go :: "nat \<Rightarrow> nat \<Rightarrow> string \<Rightarrow> nat option" where
  "aton_go n acc s =
     (if s = [] \<or> \<not> is_digit (hd s) then None
      else
        let v = fst (strtoul0 s); r = snd (strtoul0 s) in
        if 0xffffffff < v then None
        else if r \<noteq> [] \<and> hd r = CHR ''.'' then
          (case n of 0 \<Rightarrow> None
           | Suc m \<Rightarrow> if 0xff < v then None else aton_go m (256 * acc + v) (tl r))
        else if r \<noteq> [] \<and> \<not> c_isspace (hd r) then None
        else if 256 ^ Suc n \<le> v then None
        else Some (256 ^ Suc n * acc + v))"

declare aton_go.simps [simp del]

definition inet_aton :: "string \<Rightarrow> bytes res" where
  "inet_aton s =
     (if CHR 0x00 \<in> set s then Inl ValueError
      else case aton_go 3 0 s of None \<Rightarrow> Inl OSError | Some n \<Rightarrow> Inr (be_bytes 4 (int n)))"

definition inet_ntoa :: "bytes \<Rightarrow> string" where
  "inet_ntoa bs = join ''.'' (map (\<lambda>b. show_nat (unat b)) bs)"

definition ip2long :: "string \<Rightarrow> int res" where
  "ip2long ip = bindE (inet_aton ip) (\<lambda>b. Inr (be_val b))"

definition long2ip :: "int \<Rightarrow> string res" where
  "long2ip n = bindE (pack_be 4 n) (\<lambda>b. Inr (inet_ntoa b))"

definition ntohl :: "int \<Rightarrow> int" where
  "ntohl val = be_val (le_bytes 4 (val AND 0xFFFFFFFF))"

definition format_mac :: "string \<Rightarrow> nat \<Rightarrow> string" where
  "format_mac mac_hex step =
     join ''.'' (map (\<lambda>i. pyslice i (i + step) mac_hex) (filter (\<lambda>i. i mod step = 0) [0..<12]))"

definition session_id_to_bytes :: "string \<Rightarrow> bytes" where
  "session_id_to_bytes sid =
     (if \<not> re_hex16 sid then zeros 8
      else let high = hex_val (pyslice 0 8 sid); low = hex_val (pyslice 8 16 sid)
           in le_bytes 4 (int low) @ le_bytes 4 (int high))"


section \<open>Netlink framing\<close>

definition nl_align :: "int \<Rightarrow> int" where
  "nl_align n = (n + NLMSG_ALIGNTO - 1) AND NOT (NLMSG_ALIGNTO - 1)"

definition pack_nlmsg :: "bytes \<Rightarrow> int \<Rightarrow> bytes res" where
  "pack_nlmsg payload portid =
     (let total = nl_align (int (NL_HDR_LEN + length payload)) in
      concatE [pack_le 4 total, pack_le 2 0, pack_le 2 0, pack_le 4 0, pack_le 4 portid, Inr payload])"

record nlmsghdr =
  hdr_len :: int
  hdr_type :: int
  hdr_flags :: int
  hdr_seq :: int
  hdr_pid :: int

definition unpack_nlmsghdr :: "bytes \<Rightarrow> nlmsghdr res" where
  "unpack_nlmsghdr data0 =
     (let data = take NL_HDR_LEN data0 in
      if length data \<noteq> NL_HDR_LEN then Inl StructError
      else Inr \<lparr>hdr_len = le_val (pyslice 0 4 data), hdr_type = le_val (pyslice 4 6 data),
                hdr_flags = le_val (pyslice 6 8 data), hdr_seq = le_val (pyslice 8 12 data),
                hdr_pid = le_val (pyslice 12 16 data)\<rparr>)"


section \<open>Events sent to the kernel\<close>

text \<open>
  An outgoing event is a Python dictionary from string keys to values of several types; the keys
  the packer looks up are the constructors of \<open>key\<close>.
\<close>

datatype key =
    Ktype | Ksession_id | Kcookie | Kipaddr | Knat_ipaddr | Kport_number | Kflags | Kflags_op
  | Kalive_interval | Kidle_timeout | Kmax_duration | Kin_rate | Kin_burst | Kout_rate | Kout_burst
  | Kservice_name | Knehash_tc_name | Knehash_pfx | Knehash_mask | Kservice_flags

datatype pyval = VInt int | VStr string | VBytes bytes | VNone

type_synonym evdict = "key \<rightharpoonup> pyval"

instantiation key :: enum
begin

definition enum_key :: "key list" where
  "enum_key = [Ktype, Ksession_id, Kcookie, Kipaddr, Knat_ipaddr, Kport_number, Kflags, Kflags_op,
     Kalive_interval, Kidle_timeout, Kmax_duration, Kin_rate, Kin_burst, Kout_rate, Kout_burst,
     Kservice_name, Knehash_tc_name, Knehash_pfx, Knehash_mask, Kservice_flags]"

definition enum_all_key :: "(key \<Rightarrow> bool) \<Rightarrow> bool" where
  "enum_all_key P \<longleftrightarrow> list_all P enum_class.enum"

definition enum_ex_key :: "(key \<Rightarrow> bool) \<Rightarrow> bool" where
  "enum_ex_key P \<longleftrightarrow> list_ex P enum_class.enum"

instance
proof
  have all: "x \<in> set enum_class.enum" for x :: key
    by (cases x) (simp_all add: enum_key_def)
  show "(UNIV :: key set) = set enum_class.enum" using all by blast
  show "distinct (enum_class.enum :: key list)" by (simp add: enum_key_def)
  show "enum_class.enum_all P = Ball UNIV P" for P :: "key \<Rightarrow> bool"
    using all by (auto simp: enum_all_key_def list_all_iff)
  show "enum_class.enum_ex P = Bex UNIV P" for P :: "key \<Rightarrow> bool"
    using all by (auto simp: enum_ex_key_def list_ex_iff)
qed

end

definition blank :: evdict where
  "blank = Map.empty(Ktype \<mapsto> VInt 0, Ksession_id \<mapsto> VBytes (zeros 8), Kcookie \<mapsto> VBytes [],
     Kipaddr \<mapsto> VInt 0, Knat_ipaddr \<mapsto> VInt 0, Kport_number \<mapsto> VInt 0,
     Kflags \<mapsto> VInt 0, Kflags_op \<mapsto> VInt 0, Kalive_interval \<mapsto> VInt 0,
     Kidle_timeout \<mapsto> VInt 0, Kmax_duration \<mapsto> VInt 0, Kin_rate \<mapsto> VInt 0,
     Kin_burst \<mapsto> VInt 0, Kout_rate \<mapsto> VInt 0, Kout_burst \<mapsto> VInt 0,
     Kservice_name \<mapsto> VBytes [])"

definition ev_get :: "evdict \<Rightarrow> key \<Rightarrow> pyval \<Rightarrow> pyval" where
  "ev_get ev k d = (case ev k of None \<Rightarrow> d | Some v \<Rightarrow> v)"

fun pad :: "pyval \<Rightarrow> nat \<Rightarrow> bytes res" where
  "pad (VInt n) len = Inr (take len ((if n = 0 then zeros len else encode (show_int n)) @ zeros len))"
| "pad (VStr s) len = Inr (take len (encode s @ zeros len))"
| "pad (VBytes b) len = Inr (take len (b @ zeros len))"
| "pad VNone len = Inl TypeError"

fun pack_le_val :: "nat \<Rightarrow> pyval \<Rightarrow> bytes res" where
  "pack_le_val k (VInt n) = pack_le k n"
| "pack_le_val k _ = Inl StructError"

fun pack_be_val :: "nat \<Rightarrow> pyval \<Rightarrow> bytes res" where
  "pack_be_val k (VInt n) = pack_be k n"
| "pack_be_val k _ = Inl StructError"

definition pack_event :: "evdict \<Rightarrow> bytes res" where
  "pack_event ev =
     (let t = ev_get ev Ktype (VInt 0) in
      if t = VInt EVENT_SDESC_ADD then
        concatE [pack_le_val 4 t, Inr (zeros 4),
          pad (ev_get ev Knehash_tc_name (VBytes [])) 32,
          pad (ev_get ev Kservice_name (VBytes [])) 32,
          pack_le_val 1 (ev_get ev Kservice_flags (VInt 0)), Inr (zeros 7)]
      else if t = VInt EVENT_NE_ADD_QUEUE then
        concatE [pack_le_val 4 t, Inr (zeros 4),
          pack_be_val 4 (ev_get ev Knehash_pfx (VInt 0)), pack_be_val 4 (ev_get ev Knehash_mask (VInt 0)),
          pad (ev_get ev Knehash_tc_name (VBytes [])) 32]
      else
        concatE [pack_le_val 4 t, Inr (zeros 4),
          pad (ev_get ev Ksession_id (VBytes [])) 8,
          pad (ev_get ev Kcookie (VBytes [])) 32,
          pack_be_val 4 (ev_get ev Kipaddr (VInt 0)), pack_be_val 4 (ev_get ev Knat_ipaddr (VInt 0)),
          Inr (zeros 8),
          pack_le_val 4 (ev_get ev Kflags (VInt 0)), Inr (zeros 4),
          pack_le_val 4 (ev_get ev Kport_number (VInt 0)), pack_le_val 4 (ev_get ev Kalive_interval (VInt 0)),
          pack_le_val 4 (ev_get ev Kidle_timeout (VInt 0)), pack_le_val 4 (ev_get ev Kmax_duration (VInt 0)),
          pack_le_val 4 (ev_get ev Kin_rate (VInt 0)), pack_le_val 4 (ev_get ev Kin_burst (VInt 0)),
          pack_le_val 4 (ev_get ev Kout_rate (VInt 0)), pack_le_val 4 (ev_get ev Kout_burst (VInt 0)),
          pad (ev_get ev Kservice_name (VBytes [])) 32,
          pack_le_val 1 (ev_get ev Kflags_op (VInt 0)), Inr (zeros 7)])"


section \<open>Events received from the kernel\<close>

record isg_event =
  e_type :: int
  e_session_id :: string
  e_cookie :: "string option"
  e_ipaddr :: int
  e_nat_ipaddr :: int
  e_macaddr :: "string option"
  e_flags :: int
  e_port_number :: int
  e_alive_interval :: int
  e_idle_timeout :: int
  e_max_duration :: int
  e_in_rate :: int
  e_in_burst :: int
  e_out_rate :: int
  e_out_burst :: int
  e_duration :: int
  e_in_packets :: int
  e_in_bytes :: int
  e_out_packets :: int
  e_out_bytes :: int
  e_service_name :: "string option"
  e_parent_session_id :: "string option"

record nl_event = isg_event +
  nlhdr_len :: int
  nlhdr_type :: int
  nlhdr_flags :: int
  nlhdr_seq :: int
  nlhdr_pid :: int

definition u32_at :: "bytes \<Rightarrow> nat \<Rightarrow> int" where
  "u32_at data o' = le_val (pyslice o' (o' + 4) data)"

definition be32_at :: "bytes \<Rightarrow> nat \<Rightarrow> int" where
  "be32_at data o' = be_val (pyslice o' (o' + 4) data)"

definition hex8 :: "int \<Rightarrow> string" where
  "hex8 n = hex_str True 8 (nat n)"

definition bytes_hex :: "bytes \<Rightarrow> string" where
  "bytes_hex bs = concat (map (\<lambda>b. hex_str False 2 (unat b)) bs)"

definition rstrip0 :: "bytes \<Rightarrow> bytes" where
  "rstrip0 bs = rev (dropWhile (\<lambda>b. b = 0) (rev bs))"

definition or_none :: "string \<Rightarrow> string option" where
  "or_none s = (if s = [] then None else Some s)"

definition text_field :: "bytes \<Rightarrow> string option" where
  "text_field bs = or_none (decode_replace (rstrip0 bs))"

definition u64_of :: "int \<Rightarrow> int \<Rightarrow> int" where
  "u64_of lo hi = push_bit 32 hi OR lo"

definition unpack_event :: "bytes \<Rightarrow> isg_event res" where
  "unpack_event data =
     (if length data < IN_EVENT_MSG_LEN then Inl ValueError
      else
        let sid_w0 = u32_at data 8; sid_w1 = u32_at data 12;
            macaddr = bytes_hex (pyslice 56 62 data);
            psid_lo = u32_at data 144; psid_hi = u32_at data 148
        in Inr \<lparr>
          e_type = u32_at data 0,
          e_session_id = hex8 sid_w1 @ hex8 sid_w0,
          e_cookie = text_field (pyslice 16 48 data),
          e_ipaddr = be32_at data 48,
          e_nat_ipaddr = be32_at data 52,
          e_macaddr = (if macaddr \<noteq> ''000000000000'' then Some macaddr else None),
          e_flags = u32_at data 64,
          e_port_number = u32_at data 72,
          e_alive_interval = u32_at data 76,
          e_idle_timeout = u32_at data 80,
          e_max_duration = u32_at data 84,
          e_in_rate = u32_at data 88,
          e_in_burst = u32_at data 92,
          e_out_rate = u32_at data 96,
          e_out_burst = u32_at data 100,
          e_duration = u32_at data 104,
          e_in_packets = u64_of (u32_at data 112) (u32_at data 116),
          e_in_bytes = u64_of (u32_at data 120) (u32_at data 124),
          e_out_packets = u64_of (u32_at data 128) (u32_at data 132),
          e_out_bytes = u64_of (u32_at data 136) (u32_at data 140),
          e_service_name = text_field (pyslice 152 184 data),
          e_parent_session_id =
            (if psid_lo \<noteq> 0 \<or> psid_hi \<noteq> 0 then Some (hex8 psid_hi @ hex8 psid_lo) else None)\<rparr>)"

definition with_hdr :: "isg_event \<Rightarrow> nlmsghdr \<Rightarrow> nl_event" where
  "with_hdr ev h =
     isg_event.extend ev
       (nl_event.fields (hdr_len h) (hdr_type h) (hdr_flags h) (hdr_seq h) (hdr_pid h))"

definition parse_event :: "bytes \<Rightarrow> nl_event res" where
  "parse_event data =
     bindE (unpack_nlmsghdr data) (\<lambda>h.
     bindE (unpack_event (drop NL_HDR_LEN data)) (\<lambda>ev. Inr (with_hdr ev h)))"


section \<open>The socket\<close>

text \<open>
  A netlink socket is what has been sent on it, and what the kernel and the operating system will
  answer: the outcome of each \<^verbatim>\<open>sendto\<close> (once the list is used up, sends succeed) and of each
  \<^verbatim>\<open>recv\<close> (once it is used up, \<^verbatim>\<open>recv\<close> runs into the timeout). Every theorem is for all such
  scripts, so for every kernel. An operation is a state transformer that may raise.
\<close>

datatype recv_outcome = RData bytes | RTimeout | RInterrupt | ROSError

record nlsock =
  sk_cached :: int
  sk_pid :: int
  sk_sent :: "bytes list"
  sk_sends :: "bool list"
  sk_recvs :: "recv_outcome list"

type_synonym 'a nl = "nlsock \<Rightarrow> 'a res \<times> nlsock"

definition nl_return :: "'a \<Rightarrow> 'a nl" where
  "nl_return x = (\<lambda>s. (Inr x, s))"

definition nl_lift :: "'a res \<Rightarrow> 'a nl" where
  "nl_lift r = (\<lambda>s. (r, s))"

definition nl_bind :: "'a nl \<Rightarrow> ('a \<Rightarrow> 'b nl) \<Rightarrow> 'b nl" where
  "nl_bind m f = (\<lambda>s. case m s of (Inl e, s') \<Rightarrow> (Inl e, s') | (Inr x, s') \<Rightarrow> f x s')"

definition nl_catch :: "'a nl \<Rightarrow> (exn \<Rightarrow> 'a nl) \<Rightarrow> 'a nl" where
  "nl_catch m h = (\<lambda>s. case m s of (Inl e, s') \<Rightarrow> h e s' | (Inr x, s') \<Rightarrow> (Inr x, s'))"

fun nl_sendto :: "bytes \<Rightarrow> unit nl" where
  "nl_sendto msg s =
     (case sk_sends s of
        [] \<Rightarrow> (Inr (), s\<lparr>sk_sent := sk_sent s @ [msg]\<rparr>)
      | ok # oks \<Rightarrow> if ok then (Inr (), s\<lparr>sk_sent := sk_sent s @ [msg], sk_sends := oks\<rparr>)
                    else (Inl OSError, s\<lparr>sk_sends := oks\<rparr>))"

declare nl_sendto.simps [simp del]

fun nl_recv :: "nat \<Rightarrow> bytes nl" where
  "nl_recv n s =
     (case sk_recvs s of
        [] \<Rightarrow> (Inl SocketTimeout, s)
      | r # rs \<Rightarrow>
          ((case r of RData d \<Rightarrow> Inr (take n d) | RTimeout \<Rightarrow> Inl SocketTimeout
            | RInterrupt \<Rightarrow> Inl KeyboardInterrupt | ROSError \<Rightarrow> Inl OSError),
           s\<lparr>sk_recvs := rs\<rparr>))"

declare nl_recv.simps [simp del]

definition sk_portid :: "nlsock \<Rightarrow> int" where
  "sk_portid s = (if sk_cached s \<noteq> 0 then sk_cached s else sk_pid s)"

text \<open>The bytes one event becomes on a socket: the defaults of \<open>blank\<close>, overridden by the event.\<close>

definition frame :: "int \<Rightarrow> evdict \<Rightarrow> bytes res" where
  "frame portid ev = bindE (pack_event (blank ++ ev)) (\<lambda>p. pack_nlmsg p portid)"

definition send_only :: "evdict \<Rightarrow> unit nl" where
  "send_only ev = (\<lambda>s. nl_bind (nl_lift (frame (sk_portid s) ev)) nl_sendto s)"

definition send_event :: "evdict \<Rightarrow> nl_event nl" where
  "send_event ev =
     nl_bind (send_only ev) (\<lambda>_. nl_bind (nl_recv 16384) (\<lambda>data. nl_lift (parse_event data)))"

definition msg_sz :: nat where
  "msg_sz = NL_HDR_LEN + IN_EVENT_MSG_LEN"

definition msg_chunks :: "bytes \<Rightarrow> bytes list" where
  "msg_chunks data = map (\<lambda>i. pyslice (i * msg_sz) (Suc i * msg_sz) data) [0..<length data div msg_sz]"

text \<open>The inner loop of \<^verbatim>\<open>get_list\<close> over the messages of one datagram; \<^verbatim>\<open>True\<close> once it saw the end.\<close>

fun list_chunks :: "bytes list \<Rightarrow> nl_event list \<Rightarrow> (nl_event list \<times> bool) res" where
  "list_chunks [] results = Inr (results, False)"
| "list_chunks (c # cs) results =
     bindE (parse_event c) (\<lambda>ev.
       if e_type ev = EVENT_SESS_INFO then
         let results' = (if e_ipaddr ev \<noteq> 0 then results @ [ev] else results) in
         if nlhdr_type ev = NLMSG_DONE then Inr (results', True) else list_chunks cs results'
       else list_chunks cs results)"

fun list_loop :: "recv_outcome list \<Rightarrow> nl_event list
    \<Rightarrow> (nl_event list \<times> bool) res \<times> recv_outcome list" where
  "list_loop [] results = (Inr (results, False), [])"
| "list_loop (RTimeout # q) results = (Inr (results, False), q)"
| "list_loop (RInterrupt # q) results = (Inr (results, False), q)"
| "list_loop (ROSError # q) results = (Inl OSError, q)"
| "list_loop (RData d # q) results =
     (let data = take 16384 d; n = length data in
      if n = NL_HDR_LEN then
        (case unpack_nlmsghdr data of Inl e \<Rightarrow> (Inl e, q)
         | Inr h \<Rightarrow> if hdr_type h = NLMSG_DONE then (Inr (results, True), q) else list_loop q results)
      else if n < msg_sz \<or> n mod msg_sz \<noteq> 0 then list_loop q results
      else (case list_chunks (msg_chunks data) results of Inl e \<Rightarrow> (Inl e, q)
            | Inr (results', stop) \<Rightarrow>
                if stop then (Inr (results', True), q) else list_loop q results'))"

definition get_list :: "evdict \<Rightarrow> (nl_event list \<times> bool) nl" where
  "get_list ev =
     nl_bind (send_only ev)
       (\<lambda>_ s. let (r, q) = list_loop (sk_recvs s) [] in (r, s\<lparr>sk_recvs := q\<rparr>))"

text \<open>\<^verbatim>\<open>get_totals\<close>: the same datagrams, read for one totals event and the top sessions.\<close>

type_synonym totals = "nl_event option \<times> nl_event list"

fun totals_chunks :: "bytes list \<Rightarrow> totals \<Rightarrow> (totals \<times> bool) res" where
  "totals_chunks [] acc = Inr (acc, False)"
| "totals_chunks (c # cs) acc =
     bindE (parse_event c) (\<lambda>ev.
       let acc' = (if e_type ev = EVENT_SESS_TOTALS then (Some ev, snd acc)
                   else if e_type ev = EVENT_SESS_INFO \<and> e_ipaddr ev \<noteq> 0 then (fst acc, snd acc @ [ev])
                   else acc) in
       if nlhdr_type ev = NLMSG_DONE then Inr (acc', True) else totals_chunks cs acc')"

fun totals_loop :: "recv_outcome list \<Rightarrow> totals \<Rightarrow> totals res \<times> recv_outcome list" where
  "totals_loop [] acc = (Inr acc, [])"
| "totals_loop (RTimeout # q) acc = (Inr acc, q)"
| "totals_loop (RInterrupt # q) acc = (Inr acc, q)"
| "totals_loop (ROSError # q) acc = (Inl OSError, q)"
| "totals_loop (RData d # q) acc =
     (let data = take 16384 d; n = length data in
      if n = NL_HDR_LEN then
        (case unpack_nlmsghdr data of Inl e \<Rightarrow> (Inl e, q)
         | Inr h \<Rightarrow> if hdr_type h = NLMSG_DONE then (Inr acc, q) else totals_loop q acc)
      else if n < msg_sz \<or> n mod msg_sz \<noteq> 0 then totals_loop q acc
      else (case totals_chunks (msg_chunks data) acc of Inl e \<Rightarrow> (Inl e, q)
            | Inr (acc', stop) \<Rightarrow> if stop then (Inr acc', q) else totals_loop q acc'))"

definition get_totals :: "totals nl" where
  "get_totals =
     nl_bind (send_only [Ktype \<mapsto> VInt EVENT_SESS_GETTOTALS])
       (\<lambda>_ s. let (r, q) = totals_loop (sk_recvs s) (None, []) in (r, s\<lparr>sk_recvs := q\<rparr>))"

text \<open>
  \<^verbatim>\<open>open_socket\<close> and \<^verbatim>\<open>open_auth_socket\<close>: the port id is \<^verbatim>\<open>getsockname()[0] or os.getpid()\<close>. The
  scripts of the new socket, the name the kernel gave it and the process id are the environment's.
\<close>

definition open_socket :: "int \<Rightarrow> int \<Rightarrow> bool list \<Rightarrow> recv_outcome list \<Rightarrow> nlsock" where
  "open_socket sockname pid sends recvs =
     \<lparr>sk_cached = (if sockname \<noteq> 0 then sockname else pid), sk_pid = pid, sk_sent = [],
      sk_sends = sends, sk_recvs = recvs\<rparr>"


section \<open>The kernel's view of an incoming event\<close>

text \<open>
  \<^verbatim>\<open>struct isg_in_event\<close> with its union of \<^verbatim>\<open>isg_session_info_in\<close>, \<^verbatim>\<open>nehash_entry_in\<close> and
  \<^verbatim>\<open>service_desc_in\<close>, read at the offsets the C compiler gives the members on a 64-bit host.
  Addresses are big-endian, everything else little-endian.
\<close>

record kernel_in =
  ki_type :: int
  ki_id :: bytes
  ki_cookie :: bytes
  ki_ipaddr :: int
  ki_nat_ipaddr :: int
  ki_flags :: int
  ki_port_number :: int
  ki_export_interval :: int
  ki_idle_timeout :: int
  ki_max_duration :: int
  ki_rate0 :: int
  ki_burst0 :: int
  ki_rate1 :: int
  ki_burst1 :: int
  ki_service_name :: bytes
  ki_flags_op :: int

definition kernel_in_read :: "bytes \<Rightarrow> kernel_in" where
  "kernel_in_read p = \<lparr>
     ki_type = le_val (pyslice 0 4 p), ki_id = pyslice 8 16 p, ki_cookie = pyslice 16 48 p,
     ki_ipaddr = be_val (pyslice 48 52 p), ki_nat_ipaddr = be_val (pyslice 52 56 p),
     ki_flags = le_val (pyslice 64 72 p), ki_port_number = le_val (pyslice 72 76 p),
     ki_export_interval = le_val (pyslice 76 80 p), ki_idle_timeout = le_val (pyslice 80 84 p),
     ki_max_duration = le_val (pyslice 84 88 p),
     ki_rate0 = le_val (pyslice 88 92 p), ki_burst0 = le_val (pyslice 92 96 p),
     ki_rate1 = le_val (pyslice 96 100 p), ki_burst1 = le_val (pyslice 100 104 p),
     ki_service_name = pyslice 104 136 p, ki_flags_op = le_val (pyslice 136 137 p)\<rparr>"

record kernel_ne =
  kn_type :: int
  kn_pfx :: int
  kn_mask :: int
  kn_tc_name :: bytes

definition kernel_ne_read :: "bytes \<Rightarrow> kernel_ne" where
  "kernel_ne_read p = \<lparr>kn_type = le_val (pyslice 0 4 p), kn_pfx = be_val (pyslice 8 12 p),
     kn_mask = be_val (pyslice 12 16 p), kn_tc_name = pyslice 16 48 p\<rparr>"

record kernel_sdesc =
  kd_type :: int
  kd_tc_name :: bytes
  kd_service_name :: bytes
  kd_flags :: int

definition kernel_sdesc_read :: "bytes \<Rightarrow> kernel_sdesc" where
  "kernel_sdesc_read p = \<lparr>kd_type = le_val (pyslice 0 4 p), kd_tc_name = pyslice 8 40 p,
     kd_service_name = pyslice 40 72 p, kd_flags = le_val (pyslice 72 73 p)\<rparr>"

text \<open>What the sender means by a dictionary, in the same records.\<close>

fun ival :: "pyval \<Rightarrow> int" where
  "ival (VInt n) = n" | "ival _ = 0"

definition kernel_in_of :: "evdict \<Rightarrow> kernel_in" where
  "kernel_in_of ev = \<lparr>
     ki_type = ival (ev_get ev Ktype (VInt 0)),
     ki_id = projr (pad (ev_get ev Ksession_id (VBytes [])) 8),
     ki_cookie = projr (pad (ev_get ev Kcookie (VBytes [])) 32),
     ki_ipaddr = ival (ev_get ev Kipaddr (VInt 0)), ki_nat_ipaddr = ival (ev_get ev Knat_ipaddr (VInt 0)),
     ki_flags = ival (ev_get ev Kflags (VInt 0)), ki_port_number = ival (ev_get ev Kport_number (VInt 0)),
     ki_export_interval = ival (ev_get ev Kalive_interval (VInt 0)),
     ki_idle_timeout = ival (ev_get ev Kidle_timeout (VInt 0)),
     ki_max_duration = ival (ev_get ev Kmax_duration (VInt 0)),
     ki_rate0 = ival (ev_get ev Kin_rate (VInt 0)), ki_burst0 = ival (ev_get ev Kin_burst (VInt 0)),
     ki_rate1 = ival (ev_get ev Kout_rate (VInt 0)), ki_burst1 = ival (ev_get ev Kout_burst (VInt 0)),
     ki_service_name = projr (pad (ev_get ev Kservice_name (VBytes [])) 32),
     ki_flags_op = ival (ev_get ev Kflags_op (VInt 0))\<rparr>"

definition kernel_ne_of :: "evdict \<Rightarrow> kernel_ne" where
  "kernel_ne_of ev = \<lparr>kn_type = ival (ev_get ev Ktype (VInt 0)),
     kn_pfx = ival (ev_get ev Knehash_pfx (VInt 0)), kn_mask = ival (ev_get ev Knehash_mask (VInt 0)),
     kn_tc_name = projr (pad (ev_get ev Knehash_tc_name (VBytes [])) 32)\<rparr>"

definition kernel_sdesc_of :: "evdict \<Rightarrow> kernel_sdesc" where
  "kernel_sdesc_of ev = \<lparr>kd_type = ival (ev_get ev Ktype (VInt 0)),
     kd_tc_name = projr (pad (ev_get ev Knehash_tc_name (VBytes [])) 32),
     kd_service_name = projr (pad (ev_get ev Kservice_name (VBytes [])) 32),
     kd_flags = ival (ev_get ev Kservice_flags (VInt 0))\<rparr>"


section \<open>Packing is right\<close>

lemma pack_le_val_Inr: "pack_le_val k v = Inr b \<Longrightarrow> length b = k \<and> le_val b = ival v"
  by (cases v) (auto simp: pack_le_def le_val_le_bytes split: if_splits)
lemma pack_be_val_Inr: "pack_be_val k v = Inr b \<Longrightarrow> length b = k \<and> be_val b = ival v"
  by (cases v) (auto simp: pack_be_def be_val_be_bytes split: if_splits)
lemma pad_Inr: "pad v n = Inr b \<Longrightarrow> length b = n \<and> projr (pad v n) = b"
  by (cases v) auto

lemmas part_Inr = pack_le_val_Inr pack_be_val_Inr pad_Inr

definition session_parts :: "evdict \<Rightarrow> bytes res list" where
  "session_parts ev = [pack_le_val 4 (ev_get ev Ktype (VInt 0)), Inr (zeros 4),
          pad (ev_get ev Ksession_id (VBytes [])) 8,
          pad (ev_get ev Kcookie (VBytes [])) 32,
          pack_be_val 4 (ev_get ev Kipaddr (VInt 0)), pack_be_val 4 (ev_get ev Knat_ipaddr (VInt 0)),
          Inr (zeros 8),
          pack_le_val 4 (ev_get ev Kflags (VInt 0)), Inr (zeros 4),
          pack_le_val 4 (ev_get ev Kport_number (VInt 0)), pack_le_val 4 (ev_get ev Kalive_interval (VInt 0)),
          pack_le_val 4 (ev_get ev Kidle_timeout (VInt 0)), pack_le_val 4 (ev_get ev Kmax_duration (VInt 0)),
          pack_le_val 4 (ev_get ev Kin_rate (VInt 0)), pack_le_val 4 (ev_get ev Kin_burst (VInt 0)),
          pack_le_val 4 (ev_get ev Kout_rate (VInt 0)), pack_le_val 4 (ev_get ev Kout_burst (VInt 0)),
          pad (ev_get ev Kservice_name (VBytes [])) 32,
          pack_le_val 1 (ev_get ev Kflags_op (VInt 0)), Inr (zeros 7)]"

lemma session_widths:
  "list_all2 (\<lambda>r w. \<forall>b. r = Inr b \<longrightarrow> length b = w) (session_parts ev)
     [4, 4, 8, 32, 4, 4, 8, 4, 4, 4, 4, 4, 4, 4, 4, 4, 4, 32, 1, 7]"
  by (simp add: session_parts_def part_Inr)

lemma pack_event_session:
  assumes "concatE (session_parts ev) = Inr p"
  shows "length p = 144 \<and> kernel_in_read p = kernel_in_of ev"
proof -
  note at = concatE_layout [OF assms session_widths, unfolded session_parts_def]
  have le: "le_val (pyslice 0 4 p) = ival (ev_get ev Ktype (VInt 0))"
      "le_val (pyslice 64 68 p) = ival (ev_get ev Kflags (VInt 0))"
      "le_val (pyslice 72 76 p) = ival (ev_get ev Kport_number (VInt 0))"
      "le_val (pyslice 76 80 p) = ival (ev_get ev Kalive_interval (VInt 0))"
      "le_val (pyslice 80 84 p) = ival (ev_get ev Kidle_timeout (VInt 0))"
      "le_val (pyslice 84 88 p) = ival (ev_get ev Kmax_duration (VInt 0))"
      "le_val (pyslice 88 92 p) = ival (ev_get ev Kin_rate (VInt 0))"
      "le_val (pyslice 92 96 p) = ival (ev_get ev Kin_burst (VInt 0))"
      "le_val (pyslice 96 100 p) = ival (ev_get ev Kout_rate (VInt 0))"
      "le_val (pyslice 100 104 p) = ival (ev_get ev Kout_burst (VInt 0))"
      "le_val (pyslice 136 137 p) = ival (ev_get ev Kflags_op (VInt 0))"
    using at [of 0] at [of 7] at [of 9] at [of 10] at [of 11] at [of 12] at [of 13] at [of 14]
      at [of 15] at [of 16] at [of 18]
    by (simp_all add: pack_le_val_Inr)
  have be: "be_val (pyslice 48 52 p) = ival (ev_get ev Kipaddr (VInt 0))"
      "be_val (pyslice 52 56 p) = ival (ev_get ev Knat_ipaddr (VInt 0))"
    using at [of 4] at [of 5] by (simp_all add: pack_be_val_Inr)
  have tx: "projr (pad (ev_get ev Ksession_id (VBytes [])) 8) = pyslice 8 16 p"
      "projr (pad (ev_get ev Kcookie (VBytes [])) 32) = pyslice 16 48 p"
      "projr (pad (ev_get ev Kservice_name (VBytes [])) 32) = pyslice 104 136 p"
    using at [of 2] at [of 3] at [of 17] by simp_all
  have "pyslice 68 72 p = zeros 4" using at [of 8] by simp
  then have "le_val (pyslice 64 72 p) = ival (ev_get ev Kflags (VInt 0))"
    using le(2) pyslice_join [of 64 68 72 p] by (simp add: le_val_append)
  with le be tx show ?thesis
    using concatE_layout_length [OF assms session_widths]
    by (simp add: kernel_in_read_def kernel_in_of_def)
qed

lemma pack_event_default:
  "ev_get ev Ktype (VInt 0) \<noteq> VInt EVENT_SDESC_ADD \<Longrightarrow> ev_get ev Ktype (VInt 0) \<noteq> VInt EVENT_NE_ADD_QUEUE
    \<Longrightarrow> pack_event ev = concatE (session_parts ev)"
  by (simp only: pack_event_def session_parts_def Let_def if_False)

definition ne_parts :: "evdict \<Rightarrow> bytes res list" where
  "ne_parts ev = [pack_le_val 4 (ev_get ev Ktype (VInt 0)), Inr (zeros 4),
     pack_be_val 4 (ev_get ev Knehash_pfx (VInt 0)), pack_be_val 4 (ev_get ev Knehash_mask (VInt 0)),
     pad (ev_get ev Knehash_tc_name (VBytes [])) 32]"

definition sdesc_parts :: "evdict \<Rightarrow> bytes res list" where
  "sdesc_parts ev = [pack_le_val 4 (ev_get ev Ktype (VInt 0)), Inr (zeros 4),
     pad (ev_get ev Knehash_tc_name (VBytes [])) 32, pad (ev_get ev Kservice_name (VBytes [])) 32,
     pack_le_val 1 (ev_get ev Kservice_flags (VInt 0)), Inr (zeros 7)]"

lemma pack_event_ne_parts:
  "ev_get ev Ktype (VInt 0) = VInt EVENT_NE_ADD_QUEUE \<Longrightarrow> pack_event ev = concatE (ne_parts ev)"
  by (simp add: pack_event_def ne_parts_def event_codes)

lemma pack_event_sdesc_parts:
  "ev_get ev Ktype (VInt 0) = VInt EVENT_SDESC_ADD \<Longrightarrow> pack_event ev = concatE (sdesc_parts ev)"
  by (simp add: pack_event_def sdesc_parts_def event_codes)

lemma ne_widths:
  "list_all2 (\<lambda>r w. \<forall>b. r = Inr b \<longrightarrow> length b = w) (ne_parts ev) [4, 4, 4, 4, 32]"
  by (simp add: ne_parts_def part_Inr)

lemma sdesc_widths:
  "list_all2 (\<lambda>r w. \<forall>b. r = Inr b \<longrightarrow> length b = w) (sdesc_parts ev) [4, 4, 32, 32, 1, 7]"
  by (simp add: sdesc_parts_def part_Inr)

lemma pack_event_ne:
  assumes "concatE (ne_parts ev) = Inr p"
  shows "length p = 48 \<and> kernel_ne_read p = kernel_ne_of ev"
proof -
  note at = concatE_layout [OF assms ne_widths, unfolded ne_parts_def]
  have "le_val (pyslice 0 4 p) = ival (ev_get ev Ktype (VInt 0))"
    using at [of 0] by (simp add: pack_le_val_Inr)
  moreover have "be_val (pyslice 8 12 p) = ival (ev_get ev Knehash_pfx (VInt 0))"
      "be_val (pyslice 12 16 p) = ival (ev_get ev Knehash_mask (VInt 0))"
    using at [of 2] at [of 3] by (simp_all add: pack_be_val_Inr)
  moreover have "projr (pad (ev_get ev Knehash_tc_name (VBytes [])) 32) = pyslice 16 48 p"
    using at [of 4] by simp
  ultimately show ?thesis
    using concatE_layout_length [OF assms ne_widths] by (simp add: kernel_ne_read_def kernel_ne_of_def)
qed

lemma pack_event_sdesc:
  assumes "concatE (sdesc_parts ev) = Inr p"
  shows "length p = 80 \<and> kernel_sdesc_read p = kernel_sdesc_of ev"
proof -
  note at = concatE_layout [OF assms sdesc_widths, unfolded sdesc_parts_def]
  have "le_val (pyslice 0 4 p) = ival (ev_get ev Ktype (VInt 0))"
      "le_val (pyslice 72 73 p) = ival (ev_get ev Kservice_flags (VInt 0))"
    using at [of 0] at [of 4] by (simp_all add: pack_le_val_Inr)
  moreover have "projr (pad (ev_get ev Knehash_tc_name (VBytes [])) 32) = pyslice 8 40 p"
      "projr (pad (ev_get ev Kservice_name (VBytes [])) 32) = pyslice 40 72 p"
    using at [of 2] at [of 3] by simp_all
  ultimately show ?thesis
    using concatE_layout_length [OF assms sdesc_widths]
    by (simp add: kernel_sdesc_read_def kernel_sdesc_of_def)
qed

text \<open>The netlink header in front of a payload.\<close>


lemma nl_align_eq: "nl_align n = 4 * ((n + 3) div 4)"
  using and_not_mask_eq [of "n + 3" 2] by (simp add: nl_align_def nl_consts mask_eq_exp_minus_1 add.commute)

lemma nl_align_mult4: "4 dvd n \<Longrightarrow> nl_align n = n"
  by (auto simp: nl_align_eq)

lemma pack_nlmsg_Inr:
  assumes "pack_nlmsg p port = Inr m"
  shows "drop 16 m = p \<and> length m = 16 + length p
    \<and> le_val (pyslice 0 4 m) = nl_align (int (16 + length p)) \<and> le_val (pyslice 12 16 m) = port
    \<and> 0 \<le> port \<and> port < 2 ^ 32"
proof -
  let ?t = "nl_align (int (16 + length p))"
  from assms have m: "m = le_bytes 4 ?t @ le_bytes 2 0 @ le_bytes 2 0 @ le_bytes 4 0 @ le_bytes 4 port @ p"
    and t: "0 \<le> ?t" "?t < 256 ^ 4" and port: "0 \<le> port" "port < 256 ^ 4"
    by (auto simp: pack_nlmsg_def Let_def nl_consts bindE_eq_Inr pack_le_def split: if_splits)
  have "le_val (pyslice 0 4 m) = ?t" "le_val (pyslice 12 16 m) = port"
    using t port unfolding m by (simp_all add: pyslice_here pyslice_skip le_val_le_bytes)
  with port show ?thesis by (simp add: m)
qed

lemma pack_nlmsg_ok:
  assumes "0 \<le> port" "port < 2 ^ 32" "length p < 2 ^ 31"
  shows "\<exists>m. pack_nlmsg p port = Inr m"
  using assms by (auto simp: pack_nlmsg_def Let_def nl_consts pack_le_def nl_align_eq)

text \<open>When packing succeeds, and what a framed event is to the kernel.\<close>

fun uint_fits :: "nat \<Rightarrow> pyval \<Rightarrow> bool" where
  "uint_fits k (VInt n) = (0 \<le> n \<and> n < 256 ^ k)"
| "uint_fits k _ = False"

definition session_fits :: "evdict \<Rightarrow> bool" where
  "session_fits ev \<longleftrightarrow>
     list_all (\<lambda>k. uint_fits 4 (ev_get ev k (VInt 0)))
       [Ktype, Kipaddr, Knat_ipaddr, Kflags, Kport_number, Kalive_interval, Kidle_timeout,
        Kmax_duration, Kin_rate, Kin_burst, Kout_rate, Kout_burst]
     \<and> uint_fits 1 (ev_get ev Kflags_op (VInt 0))
     \<and> list_all (\<lambda>k. ev_get ev k (VBytes []) \<noteq> VNone) [Ksession_id, Kcookie, Kservice_name]"

lemma pack_le_val_ok: "(\<exists>b. pack_le_val k v = Inr b) \<longleftrightarrow> uint_fits k v"
  by (cases v) (auto simp: pack_le_def)

lemma pack_be_val_ok: "(\<exists>b. pack_be_val k v = Inr b) \<longleftrightarrow> uint_fits k v"
  by (cases v) (auto simp: pack_be_def)

lemma pad_ok: "(\<exists>b. pad v k = Inr b) \<longleftrightarrow> v \<noteq> VNone"
  by (cases v) auto

lemma pack_session_total: "(\<exists>p. concatE (session_parts ev) = Inr p) \<longleftrightarrow> session_fits ev"
  by (simp only: concatE_ok session_parts_def list.pred_inject pack_le_val_ok pack_be_val_ok pad_ok session_fits_def)
    auto

lemma pack_event_error: "pack_event ev = Inl e \<Longrightarrow> e = StructError \<or> e = TypeError"
proof -
  assume "pack_event ev = Inl e"
  then have "Inl e \<in> set (sdesc_parts ev) \<union> set (ne_parts ev) \<union> set (session_parts ev)"
    using pack_event_default pack_event_ne_parts pack_event_sdesc_parts
    by (metis UnI1 UnI2 concatE_eq_Inl)
  moreover have "pad v k = Inl e \<Longrightarrow> e = TypeError" for v k by (cases v) auto
  moreover have "pack_le_val k v = Inl e \<Longrightarrow> e = StructError" for v k
    by (cases v) (auto dest: pack_le_eq_Inl)
  moreover have "pack_be_val k v = Inl e \<Longrightarrow> e = StructError" for v k
    by (cases v) (auto dest: pack_be_eq_Inl)
  ultimately show ?thesis
    by (fastforce simp: sdesc_parts_def ne_parts_def session_parts_def dest: sym)
qed

definition ev_type :: "evdict \<Rightarrow> pyval" where
  "ev_type ev = ev_get ev Ktype (VInt 0)"

definition msg_type :: "bytes \<Rightarrow> int" where
  "msg_type m = le_val (pyslice 16 20 m)"

lemma pack_event_type: "pack_event ev = Inr p \<Longrightarrow> le_val (pyslice 0 4 p) = ival (ev_type ev)"
proof -
  assume p: "pack_event ev = Inr p"
  consider "ev_type ev = VInt EVENT_SDESC_ADD" | "ev_type ev = VInt EVENT_NE_ADD_QUEUE"
    | "ev_type ev \<noteq> VInt EVENT_SDESC_ADD" "ev_type ev \<noteq> VInt EVENT_NE_ADD_QUEUE" by blast
  then show ?thesis
  proof cases
    case 1
    then show ?thesis using p pack_event_sdesc [of ev p]
      by (simp add: ev_type_def pack_event_sdesc_parts kernel_sdesc_read_def kernel_sdesc_of_def)
  next
    case 2
    then show ?thesis using p pack_event_ne [of ev p]
      by (simp add: ev_type_def pack_event_ne_parts kernel_ne_read_def kernel_ne_of_def)
  next
    case 3
    then show ?thesis using p pack_event_session [of ev p]
      by (simp add: ev_type_def pack_event_default kernel_in_read_def kernel_in_of_def)
  qed
qed

lemma frame_Inr:
  assumes "frame port ev = Inr m"
  obtains p where "pack_event (blank ++ ev) = Inr p" and "drop 16 m = p" and "length m = 16 + length p"
    and "le_val (pyslice 0 4 m) = nl_align (int (16 + length p))" and "le_val (pyslice 12 16 m) = port"
  using assms pack_nlmsg_Inr by (auto simp: frame_def bindE_eq_Inr)

lemma frame_msg_type: "frame port ev = Inr m \<Longrightarrow> msg_type m = ival (ev_type (blank ++ ev))"
proof (erule frame_Inr)
  fix p assume p: "pack_event (blank ++ ev) = Inr p" "drop 16 m = p"
  have "pyslice 16 20 m = pyslice 0 4 p" using pyslice_drop [of 16 0 4 m] p(2) by simp
  with pack_event_type [OF p(1)] show ?thesis by (simp add: msg_type_def)
qed

lemma frame_session:
  assumes m: "frame port ev = Inr m"
    and "ev_type (blank ++ ev) \<noteq> VInt EVENT_SDESC_ADD" "ev_type (blank ++ ev) \<noteq> VInt EVENT_NE_ADD_QUEUE"
  shows "length m = 160 \<and> le_val (pyslice 0 4 m) = 160 \<and> le_val (pyslice 12 16 m) = port
    \<and> kernel_in_read (drop 16 m) = kernel_in_of (blank ++ ev)"
proof -
  from m obtain p where p: "pack_event (blank ++ ev) = Inr p" "drop 16 m = p" "length m = 16 + length p"
    "le_val (pyslice 0 4 m) = nl_align (int (16 + length p))" "le_val (pyslice 12 16 m) = port"
    by (rule frame_Inr)
  have "length p = 144 \<and> kernel_in_read p = kernel_in_of (blank ++ ev)"
    using p(1) assms(2,3) by (intro pack_event_session) (simp add: pack_event_default ev_type_def)
  with p show ?thesis by (simp add: nl_align_mult4)
qed

lemma frame_ok:
  assumes "0 \<le> port" "port < 2 ^ 32" "session_fits (blank ++ ev)"
    "ev_type (blank ++ ev) \<noteq> VInt EVENT_SDESC_ADD" "ev_type (blank ++ ev) \<noteq> VInt EVENT_NE_ADD_QUEUE"
  shows "\<exists>m. frame port ev = Inr m"
proof -
  from assms(3-5) obtain p where p: "pack_event (blank ++ ev) = Inr p"
    using pack_session_total [of "blank ++ ev"] by (auto simp: pack_event_default ev_type_def)
  then have "length p = 144"
    using assms(4,5) pack_event_session [of "blank ++ ev" p] by (simp add: pack_event_default ev_type_def)
  then show ?thesis using p pack_nlmsg_ok [OF assms(1,2), of p] by (simp add: frame_def)
qed


section \<open>What an operation sends\<close>

text \<open>
  \<open>sends P m\<close>: whatever the socket's script, all that operation \<open>m\<close> puts on the socket are frames of
  events that satisfy \<open>P\<close>. The rules in \<open>nl_rules\<close> follow the structure of an operation.
\<close>

definition sent_ok :: "(evdict \<Rightarrow> bool) \<Rightarrow> nlsock \<Rightarrow> nlsock \<Rightarrow> bool" where
  "sent_ok P s s' \<longleftrightarrow> sk_portid s' = sk_portid s \<and>
     (\<exists>ms. sk_sent s' = sk_sent s @ ms \<and> (\<forall>x \<in> set ms. \<exists>ev. P ev \<and> frame (sk_portid s) ev = Inr x))"

definition sends :: "(evdict \<Rightarrow> bool) \<Rightarrow> 'a nl \<Rightarrow> bool" where
  "sends P m \<longleftrightarrow> (\<forall>s. sent_ok P s (snd (m s)))"

named_theorems nl_rules

lemma sent_ok_refl: "sent_ok P s s"
  by (simp add: sent_ok_def)

lemma sent_ok_trans: "sent_ok P s t \<Longrightarrow> sent_ok P t u \<Longrightarrow> sent_ok P s u"
  by (fastforce simp: sent_ok_def)

lemma sent_ok_mono: "sent_ok P s t \<Longrightarrow> (\<And>ev. P ev \<Longrightarrow> Q ev) \<Longrightarrow> sent_ok Q s t"
  by (fastforce simp: sent_ok_def)

lemma sends_return [nl_rules]: "sends P (nl_return x)"
  by (simp add: sends_def nl_return_def sent_ok_refl)

lemma sends_lift [nl_rules]: "sends P (nl_lift r)"
  by (simp add: sends_def nl_lift_def sent_ok_refl)

lemma sends_bind [nl_rules]:
  assumes "sends P m" "\<And>x. sends P (f x)"
  shows "sends P (nl_bind m f)"
  unfolding sends_def
proof
  fix s
  from assms(1) have m: "sent_ok P s (snd (m s))" by (simp add: sends_def)
  have f: "sent_ok P t (snd (f x t))" for x t using assms(2) by (simp add: sends_def)
  show "sent_ok P s (snd (nl_bind m f s))"
    using m f sent_ok_trans [OF m f] by (auto simp: nl_bind_def split: prod.splits sum.splits)
qed

lemma sends_catch [nl_rules]:
  assumes "sends P m" "\<And>e. sends P (h e)"
  shows "sends P (nl_catch m h)"
  unfolding sends_def
proof
  fix s
  from assms(1) have m: "sent_ok P s (snd (m s))" by (simp add: sends_def)
  have f: "sent_ok P t (snd (h x t))" for x t using assms(2) by (simp add: sends_def)
  show "sent_ok P s (snd (nl_catch m h s))"
    using m f sent_ok_trans [OF m f] by (auto simp: nl_catch_def split: prod.splits sum.splits)
qed

lemma sends_recv [nl_rules]: "sends P (nl_recv n)"
  by (auto simp: sends_def sent_ok_def nl_recv.simps sk_portid_def split: list.splits)

lemma sends_send_only [nl_rules]: "P ev \<Longrightarrow> sends P (send_only ev)"
  by (auto simp: sends_def sent_ok_def send_only_def nl_bind_def nl_lift_def nl_sendto.simps sk_portid_def
      split: sum.splits list.splits prod.splits)

lemma sends_send_event [nl_rules]: "P ev \<Longrightarrow> sends P (send_event ev)"
  unfolding send_event_def by (intro nl_rules)

lemma sends_get_list [nl_rules]: "P ev \<Longrightarrow> sends P (get_list ev)"
  unfolding get_list_def
  by (intro nl_rules) (auto simp: sends_def sent_ok_def sk_portid_def split: prod.splits)

lemma sends_get_totals [nl_rules]: "P [Ktype \<mapsto> VInt EVENT_SESS_GETTOTALS] \<Longrightarrow> sends P get_totals"
  unfolding get_totals_def
  by (intro nl_rules) (auto simp: sends_def sent_ok_def sk_portid_def split: prod.splits)

lemma sends_mono: "sends P m \<Longrightarrow> (\<And>ev. P ev \<Longrightarrow> Q ev) \<Longrightarrow> sends Q m"
  by (auto simp: sends_def intro: sent_ok_mono [where P = P])

lemma sends_if [nl_rules]: "(b \<Longrightarrow> sends P m) \<Longrightarrow> (\<not> b \<Longrightarrow> sends P n) \<Longrightarrow> sends P (if b then m else n)"
  by simp

text \<open>A successful send appends exactly the frame.\<close>

lemma send_only_Inr:
  assumes "send_only ev s = (Inr (), s')"
  obtains m where "frame (sk_portid s) ev = Inr m" "sk_sent s' = sk_sent s @ [m]" "sk_portid s' = sk_portid s"
    "sk_recvs s' = sk_recvs s"
  using assms
  by (auto simp: send_only_def nl_bind_def nl_lift_def nl_sendto.simps sk_portid_def
      split: sum.splits list.splits if_splits)

lemma send_only_ok:
  assumes "sk_sends s = []" "frame (sk_portid s) ev = Inr m"
  shows "send_only ev s = (Inr (), s\<lparr>sk_sent := sk_sent s @ [m]\<rparr>)"
  using assms by (simp add: send_only_def nl_bind_def nl_lift_def nl_sendto.simps)

lemma send_only_error:
  "send_only ev s = (Inl e, s') \<Longrightarrow> sk_sent s' = sk_sent s \<and> (e = OSError \<or> e = StructError \<or> e = TypeError)"
  using pack_event_error
  by (auto simp: send_only_def nl_bind_def nl_lift_def nl_sendto.simps frame_def bindE_eq_Inl pack_nlmsg_def Let_def
      split: sum.splits list.splits if_splits dest!: concatE_eq_Inl dest: pack_le_eq_Inl pack_be_eq_Inl)


section \<open>The kernel's events, as it writes them\<close>

text \<open>\<^verbatim>\<open>struct isg_out_event\<close>, member by member, with C's widths.\<close>

record kernel_out =
  ko_type :: "32 word"
  ko_id :: "64 word"
  ko_cookie :: bytes
  ko_ipaddr :: "32 word"
  ko_nat_ipaddr :: "32 word"
  ko_macaddr :: bytes
  ko_flags :: "64 word"
  ko_port_number :: "32 word"
  ko_export_interval :: "32 word"
  ko_idle_timeout :: "32 word"
  ko_max_duration :: "32 word"
  ko_rate0 :: "32 word"
  ko_burst0 :: "32 word"
  ko_rate1 :: "32 word"
  ko_burst1 :: "32 word"
  ko_duration :: "32 word"
  ko_in_packets :: "64 word"
  ko_in_bytes :: "64 word"
  ko_out_packets :: "64 word"
  ko_out_bytes :: "64 word"
  ko_parent_session_id :: "64 word"
  ko_service_name :: bytes

definition kernel_out_ok :: "kernel_out \<Rightarrow> bool" where
  "kernel_out_ok k \<longleftrightarrow> length (ko_cookie k) = 32 \<and> length (ko_macaddr k) = 6 \<and> length (ko_service_name k) = 32"

definition kernel_out_parts :: "kernel_out \<Rightarrow> bytes list" where
  "kernel_out_parts k = [
     le_bytes 4 (uint (ko_type k)), zeros 4, le_bytes 8 (uint (ko_id k)), ko_cookie k,
     be_bytes 4 (uint (ko_ipaddr k)), be_bytes 4 (uint (ko_nat_ipaddr k)), ko_macaddr k, zeros 2,
     le_bytes 8 (uint (ko_flags k)),
     le_bytes 4 (uint (ko_port_number k)), le_bytes 4 (uint (ko_export_interval k)),
     le_bytes 4 (uint (ko_idle_timeout k)), le_bytes 4 (uint (ko_max_duration k)),
     le_bytes 4 (uint (ko_rate0 k)), le_bytes 4 (uint (ko_burst0 k)),
     le_bytes 4 (uint (ko_rate1 k)), le_bytes 4 (uint (ko_burst1 k)),
     le_bytes 4 (uint (ko_duration k)), zeros 4,
     le_bytes 8 (uint (ko_in_packets k)), le_bytes 8 (uint (ko_in_bytes k)),
     le_bytes 8 (uint (ko_out_packets k)), le_bytes 8 (uint (ko_out_bytes k)),
     le_bytes 8 (uint (ko_parent_session_id k)), ko_service_name k]"

definition kernel_out_bytes :: "kernel_out \<Rightarrow> bytes" where
  "kernel_out_bytes k = concat (kernel_out_parts k)"

text \<open>The dictionary the program should read off such a structure.\<close>

definition event_of :: "kernel_out \<Rightarrow> isg_event" where
  "event_of k = \<lparr>
     e_type = uint (ko_type k),
     e_session_id = hex_str True 16 (unat (ko_id k)),
     e_cookie = text_field (ko_cookie k),
     e_ipaddr = uint (ko_ipaddr k), e_nat_ipaddr = uint (ko_nat_ipaddr k),
     e_macaddr = (if ko_macaddr k = zeros 6 then None else Some (bytes_hex (ko_macaddr k))),
     e_flags = uint (ko_flags k) mod 2 ^ 32,
     e_port_number = uint (ko_port_number k), e_alive_interval = uint (ko_export_interval k),
     e_idle_timeout = uint (ko_idle_timeout k), e_max_duration = uint (ko_max_duration k),
     e_in_rate = uint (ko_rate0 k), e_in_burst = uint (ko_burst0 k),
     e_out_rate = uint (ko_rate1 k), e_out_burst = uint (ko_burst1 k),
     e_duration = uint (ko_duration k),
     e_in_packets = uint (ko_in_packets k), e_in_bytes = uint (ko_in_bytes k),
     e_out_packets = uint (ko_out_packets k), e_out_bytes = uint (ko_out_bytes k),
     e_service_name = text_field (ko_service_name k),
     e_parent_session_id =
       (if ko_parent_session_id k = 0 then None
        else Some (hex_str True 16 (unat (ko_parent_session_id k))))\<rparr>"

lemma u64_of_eq: "0 \<le> lo \<Longrightarrow> lo < 2 ^ 32 \<Longrightarrow> u64_of lo hi = lo + 2 ^ 32 * hi"
proof -
  assume "0 \<le> lo" "lo < 2 ^ 32"
  then have "take_bit 32 lo = lo" by (simp add: take_bit_int_eq_self)
  then have "u64_of lo hi = concat_bit 32 lo hi"
    by (simp add: u64_of_def concat_bit_def or.commute)
  also have "\<dots> = lo + 2 ^ 32 * hi"
    using \<open>take_bit 32 lo = lo\<close> by (simp add: concat_bit_eq push_bit_eq_mult)
  finally show ?thesis .
qed

lemma hex8_join: "hex8 (int n div 2 ^ 32) @ hex8 (int n mod 2 ^ 32) = hex_str True 16 n"
proof -
  have m: "hex_str up k (n mod 16 ^ k) = hex_str up k n" for up k n
  proof (induction k arbitrary: n)
    case (Suc k)
    have "n mod (16 * 16 ^ k) div 16 = n div 16 mod 16 ^ k"
      by (simp add: mod_mult2_eq)
    moreover have "n mod (16 * 16 ^ k) mod 16 = n mod 16"
      by (simp add: mod_mult2_eq)
    ultimately show ?case using Suc by simp
  qed simp
  have "nat (int n div 2 ^ 32) = n div 16 ^ 8" "nat (int n mod 2 ^ 32) = n mod 16 ^ 8"
    by (simp_all add: nat_div_distrib nat_mod_distrib)
  then show ?thesis
    using hex_str_add [of True 8 8 n] m [of True 8 n] by (simp add: hex8_def)
qed


lemma u32_halves:
  assumes "pyslice a (a + 8) d = le_bytes 8 n"
  shows "u32_at d a = n mod 2 ^ 32" "u32_at d (a + 4) = n div 2 ^ 32 mod 2 ^ 32"
proof -
  have "pyslice a (a + 4) d = take 4 (pyslice a (a + 8) d)"
    by (simp add: pyslice_def)
  moreover have "pyslice (a + 4) (a + 8) d = drop 4 (pyslice a (a + 8) d)"
    by (simp add: pyslice_def drop_take add.commute)
  moreover have "le_bytes 8 n = le_bytes 4 n @ le_bytes 4 (n div 2 ^ 32)"
    using le_bytes_add [of 4 4 n] by simp
  ultimately have "pyslice a (a + 4) d = le_bytes 4 n" "pyslice (a + 4) (a + 8) d = le_bytes 4 (n div 2 ^ 32)"
    using assms by simp_all
  then show "u32_at d a = n mod 2 ^ 32" "u32_at d (a + 4) = n div 2 ^ 32 mod 2 ^ 32"
    by (simp_all add: u32_at_def le_val_le_bytes add.commute)
qed

lemma u32_word: "pyslice a (a + 4) d = le_bytes 4 (uint w) \<Longrightarrow> u32_at d a = uint (w :: 32 word)"
  using uint_lt2p [of w] by (simp add: u32_at_def le_val_le_bytes)

lemma be32_word: "pyslice a (a + 4) d = be_bytes 4 (uint w) \<Longrightarrow> be32_at d a = uint (w :: 32 word)"
  using uint_lt2p [of w] by (simp add: be32_at_def be_val_be_bytes)

lemma high_word: "uint (w :: 64 word) div 2 ^ 32 mod 2 ^ 32 = uint w div 2 ^ 32"
proof -
  have "uint w < 2 ^ 32 * 2 ^ 32" using uint_lt2p [of w] by simp
  then have "uint w div 2 ^ 32 < 2 ^ 32" by (simp add: int_div_less_self)
  then show ?thesis by (simp add: pos_imp_zdiv_nonneg_iff)
qed

lemma u64_word:
  assumes "pyslice a (a + 8) d = le_bytes 8 (uint w)"
  shows "u64_of (u32_at d a) (u32_at d (a + 4)) = uint (w :: 64 word)"
proof -
  show ?thesis
    using u32_halves [OF assms] high_word [of w] by (simp add: u64_of_eq)
qed

lemma id_word:
  assumes "pyslice a (a + 8) d = le_bytes 8 (uint w)"
  shows "hex8 (u32_at d (a + 4)) @ hex8 (u32_at d a) = hex_str True 16 (unat (w :: 64 word))"
    and "u32_at d a \<noteq> 0 \<or> u32_at d (a + 4) \<noteq> 0 \<longleftrightarrow> w \<noteq> 0"
proof -
  note d = high_word [of w]
  have "int (unat w) = uint w" by simp
  then show "hex8 (u32_at d (a + 4)) @ hex8 (u32_at d a) = hex_str True 16 (unat w)"
    using u32_halves [OF assms] hex8_join [of "unat w"] d by simp
  have "uint w mod 2 ^ 32 = 0 \<and> uint w div 2 ^ 32 = 0 \<longleftrightarrow> uint w = 0"
    using div_mult_mod_eq [of "uint w" "2 ^ 32"] by auto
  then show "u32_at d a \<noteq> 0 \<or> u32_at d (a + 4) \<noteq> 0 \<longleftrightarrow> w \<noteq> 0"
    using u32_halves [OF assms] d by (auto simp: uint_0_iff)
qed

lemma hex_str_2_inject:
  assumes "hex_str up 2 m = hex_str up 2 n" "m < 256" "n < 256"
  shows "m = n"
proof -
  have "m mod 16 ^ 2 = n mod 16 ^ 2"
    using assms(1) by (simp only: hex_val_hex_str [of up 2, symmetric])
  then show ?thesis using assms(2,3) by simp
qed

lemma bytes_hex_inject: "bytes_hex a = bytes_hex b \<longleftrightarrow> a = b"
proof
  show "bytes_hex a = bytes_hex b \<Longrightarrow> a = b"
  proof (induction a arbitrary: b)
    case Nil
    then show ?case by (cases b) (auto simp: bytes_hex_def numeral_2_eq_2)
  next
    case (Cons x a)
    then obtain y c where b: "b = y # c" 
      by (cases b) (auto simp: bytes_hex_def numeral_2_eq_2)
    with Cons.prems have "hex_str False 2 (unat x) = hex_str False 2 (unat y)" "bytes_hex a = bytes_hex c"
      by (simp_all add: bytes_hex_def)
    moreover have "unat x < 256" "unat y < 256"
      using unsigned_less [of x, where 'a = nat] unsigned_less [of y, where 'a = nat] by simp_all
    ultimately have "unat x = unat y" "a = c" using Cons.IH hex_str_2_inject by blast+
    then show ?case using b by (simp add: word_unat_eq_iff)
  qed
qed simp

lemma bytes_hex_zeros: "bytes_hex (zeros 6) = ''000000000000''"
  by code_simp

lemma unpack_kernel_out:
  assumes "kernel_out_ok k"
  shows "length (kernel_out_bytes k) = 184" and "unpack_event (kernel_out_bytes k) = Inr (event_of k)"
proof -
  let ?d = "kernel_out_bytes k"
  have ws: "map length (kernel_out_parts k) = [4, 4, 8, 32, 4, 4, 6, 2, 8, 4, 4, 4, 4, 4, 4, 4, 4, 4, 4, 8, 8, 8, 8, 8, 32]"
    using assms by (simp add: kernel_out_parts_def kernel_out_ok_def)
  show len: "length ?d = 184"
    using ws by (simp add: kernel_out_bytes_def length_concat)
  have n: "length (kernel_out_parts k) = 25" by (simp add: kernel_out_parts_def)
  note at = concat_layout [of _ "kernel_out_parts k", unfolded ws n, folded kernel_out_bytes_def,
      unfolded kernel_out_parts_def]
  have w: "u32_at ?d 0 = uint (ko_type k)" "u32_at ?d 72 = uint (ko_port_number k)"
    "u32_at ?d 76 = uint (ko_export_interval k)" "u32_at ?d 80 = uint (ko_idle_timeout k)"
    "u32_at ?d 84 = uint (ko_max_duration k)" "u32_at ?d 88 = uint (ko_rate0 k)"
    "u32_at ?d 92 = uint (ko_burst0 k)" "u32_at ?d 96 = uint (ko_rate1 k)"
    "u32_at ?d 100 = uint (ko_burst1 k)" "u32_at ?d 104 = uint (ko_duration k)"
    using at [of 0] at [of 9] at [of 10] at [of 11] at [of 12] at [of 13] at [of 14] at [of 15]
      at [of 16] at [of 17] by (simp_all add: u32_word)
  have l: "u64_of (u32_at ?d 112) (u32_at ?d 116) = uint (ko_in_packets k)"
    "u64_of (u32_at ?d 120) (u32_at ?d 124) = uint (ko_in_bytes k)"
    "u64_of (u32_at ?d 128) (u32_at ?d 132) = uint (ko_out_packets k)"
    "u64_of (u32_at ?d 136) (u32_at ?d 140) = uint (ko_out_bytes k)"
    using at [of 19] at [of 20] at [of 21] at [of 22]
      u64_word [of 112 ?d "ko_in_packets k"] u64_word [of 120 ?d "ko_in_bytes k"]
      u64_word [of 128 ?d "ko_out_packets k"] u64_word [of 136 ?d "ko_out_bytes k"] by simp_all
  have i: "hex8 (u32_at ?d 12) @ hex8 (u32_at ?d 8) = hex_str True 16 (unat (ko_id k))"
    "hex8 (u32_at ?d 148) @ hex8 (u32_at ?d 144) = hex_str True 16 (unat (ko_parent_session_id k))"
    "u32_at ?d 144 \<noteq> 0 \<or> u32_at ?d 148 \<noteq> 0 \<longleftrightarrow> ko_parent_session_id k \<noteq> 0"
    using at [of 2] at [of 23] id_word [of 8 ?d "ko_id k"] id_word [of 144 ?d "ko_parent_session_id k"]
    by simp_all
  have f: "u32_at ?d 64 = uint (ko_flags k) mod 2 ^ 32" "be32_at ?d 48 = uint (ko_ipaddr k)"
    "be32_at ?d 52 = uint (ko_nat_ipaddr k)"
    using at [of 8] at [of 4] at [of 5] u32_halves [of 64 ?d "uint (ko_flags k)"]
    by (simp_all add: be32_word)
  have t: "pyslice 16 48 ?d = ko_cookie k" "pyslice 56 62 ?d = ko_macaddr k"
    "pyslice 152 184 ?d = ko_service_name k"
    using at [of 3] at [of 6] at [of 24] by simp_all
  have m: "bytes_hex (ko_macaddr k) = ''000000000000'' \<longleftrightarrow> ko_macaddr k = zeros 6"
    by (simp only: bytes_hex_zeros [symmetric] bytes_hex_inject)
  show "unpack_event ?d = Inr (event_of k)"
    unfolding unpack_event_def Let_def w l i f t m event_of_def using len by (simp add: nl_consts)
qed

section \<open>Lists of events\<close>

text \<open>
  A message of the kernel is a netlink header and an event. \<open>kmsg\<close> is the reader interface of such
  messages: whatever the kernel concatenates in one datagram is split back at multiples of 200 bytes.
\<close>

definition hdr_ok :: "nlmsghdr \<Rightarrow> bool" where
  "hdr_ok h \<longleftrightarrow> 0 \<le> hdr_len h \<and> hdr_len h < 2 ^ 32 \<and> 0 \<le> hdr_type h \<and> hdr_type h < 2 ^ 16
     \<and> 0 \<le> hdr_flags h \<and> hdr_flags h < 2 ^ 16 \<and> 0 \<le> hdr_seq h \<and> hdr_seq h < 2 ^ 32
     \<and> 0 \<le> hdr_pid h \<and> hdr_pid h < 2 ^ 32"

record kernel_msg =
  km_hdr :: nlmsghdr
  km_event :: kernel_out

definition kernel_msg_ok :: "kernel_msg \<Rightarrow> bool" where
  "kernel_msg_ok m \<longleftrightarrow> hdr_ok (km_hdr m) \<and> kernel_out_ok (km_event m)"

definition nlhdr_bytes :: "nlmsghdr \<Rightarrow> bytes" where
  "nlhdr_bytes h = le_bytes 4 (hdr_len h) @ le_bytes 2 (hdr_type h) @ le_bytes 2 (hdr_flags h)
     @ le_bytes 4 (hdr_seq h) @ le_bytes 4 (hdr_pid h)"

definition kernel_msg_bytes :: "kernel_msg \<Rightarrow> bytes" where
  "kernel_msg_bytes m = nlhdr_bytes (km_hdr m) @ kernel_out_bytes (km_event m)"

definition kernel_msg_event :: "kernel_msg \<Rightarrow> nl_event" where
  "kernel_msg_event m = with_hdr (event_of (km_event m)) (km_hdr m)"

lemma length_nlhdr_bytes [simp]: "length (nlhdr_bytes h) = 16"
  by (simp add: nlhdr_bytes_def)

lemma unpack_nlhdr_bytes:
  assumes "hdr_ok h"
  shows "unpack_nlmsghdr (nlhdr_bytes h @ r) = Inr h"
proof -
  have "take 16 (nlhdr_bytes h @ r) = nlhdr_bytes h" by simp
  moreover have "le_val (pyslice 0 4 (nlhdr_bytes h)) = hdr_len h"
      "le_val (pyslice 4 6 (nlhdr_bytes h)) = hdr_type h"
      "le_val (pyslice 6 8 (nlhdr_bytes h)) = hdr_flags h"
      "le_val (pyslice 8 12 (nlhdr_bytes h)) = hdr_seq h"
      "le_val (pyslice 12 16 (nlhdr_bytes h)) = hdr_pid h"
    using assms by (simp_all add: hdr_ok_def nlhdr_bytes_def pyslice_here pyslice_skip le_val_le_bytes pyslice_def)
  ultimately show ?thesis
    by (simp add: unpack_nlmsghdr_def nl_consts)
qed

lemma parse_kernel_msg:
  assumes "kernel_msg_ok m"
  shows "length (kernel_msg_bytes m) = msg_sz"
    and "parse_event (kernel_msg_bytes m) = Inr (kernel_msg_event m)"
proof -
  from assms have k: "kernel_out_ok (km_event m)" by (simp add: kernel_msg_ok_def)
  show "length (kernel_msg_bytes m) = msg_sz"
    by (simp add: kernel_msg_bytes_def msg_sz_def nl_consts unpack_kernel_out(1) [OF k])
  have "unpack_nlmsghdr (kernel_msg_bytes m) = Inr (km_hdr m)"
    unfolding kernel_msg_bytes_def using assms by (intro unpack_nlhdr_bytes) (simp_all add: kernel_msg_ok_def)
  moreover have "drop NL_HDR_LEN (kernel_msg_bytes m) = kernel_out_bytes (km_event m)"
    by (simp add: kernel_msg_bytes_def nl_consts)
  ultimately show "parse_event (kernel_msg_bytes m) = Inr (kernel_msg_event m)"
    using unpack_kernel_out(2) [OF k] by (simp add: parse_event_def kernel_msg_event_def)
qed

interpretation kmsg: fixed_reader kernel_msg_bytes parse_event "\<lambda>m. Inr (kernel_msg_event m)" msg_sz kernel_msg_ok
  by unfold_locales (simp_all add: parse_kernel_msg)

lemma msg_chunks_kernel:
  assumes "list_all kernel_msg_ok ms"
  shows "msg_chunks (concat (map kernel_msg_bytes ms)) = map kernel_msg_bytes ms"
  using kmsg.chunks_concat_enc [OF assms] kmsg.length_concat_enc [OF assms]
  by (simp add: msg_chunks_def msg_sz_def nl_consts)

definition list_keep :: "nl_event \<Rightarrow> bool" where
  "list_keep ev \<longleftrightarrow> e_type ev = EVENT_SESS_INFO \<and> e_ipaddr ev \<noteq> 0"

definition list_end :: "nl_event \<Rightarrow> bool" where
  "list_end ev \<longleftrightarrow> e_type ev = EVENT_SESS_INFO \<and> nlhdr_type ev = NLMSG_DONE"


definition up_to_end :: "nl_event list \<Rightarrow> nl_event list" where
  "up_to_end evs = takeWhile (\<lambda>e. \<not> list_end e) evs @ take 1 (dropWhile (\<lambda>e. \<not> list_end e) evs)"

lemma up_to_end_simps [simp]:
  "up_to_end [] = []"
  "up_to_end (e # es) = (if list_end e then [e] else e # up_to_end es)"
  by (simp_all add: up_to_end_def)

lemma list_chunks_step:
  "parse_event c = Inr e \<Longrightarrow> list_chunks (c # cs) results =
    (let results' = (if list_keep e then results @ [e] else results) in
     if list_end e then Inr (results', True) else list_chunks cs results')"
  by (auto simp: Let_def list_keep_def list_end_def)

lemma list_chunks_parsed:
  "map parse_event cs = map Inr evs \<Longrightarrow>
   list_chunks cs results = Inr (results @ filter list_keep (up_to_end evs), list_ex list_end evs)"
proof (induction cs arbitrary: evs results)
  case Nil
  then show ?case by simp
next
  case (Cons c cs)
  then obtain e es where evs: "evs = e # es" and e: "parse_event c = Inr e"
    and es: "map parse_event cs = map Inr es"
    by (cases evs) auto
  show ?case
    by (simp add: evs list_chunks_step [OF e] Let_def Cons.IH [OF es] del: list_chunks.simps)
qed

definition datagram :: "kernel_msg list \<Rightarrow> recv_outcome" where
  "datagram ms = RData (concat (map kernel_msg_bytes ms))"

definition done_datagram :: "nlmsghdr \<Rightarrow> recv_outcome" where
  "done_datagram h = RData (nlhdr_bytes h)"

text \<open>Datagrams of whole messages that fit the receive buffer.\<close>
definition group_ok :: "kernel_msg list \<Rightarrow> bool" where
  "group_ok ms \<longleftrightarrow> ms \<noteq> [] \<and> length ms \<le> 81 \<and> list_all kernel_msg_ok ms"

lemma list_loop_datagram:
  assumes "group_ok ms"
  shows "list_loop (datagram ms # q) results =
    (let evs = map kernel_msg_event ms; results' = results @ filter list_keep (up_to_end evs) in
     if list_ex list_end evs then (Inr (results', True), q) else list_loop q results')"
proof -
  let ?d = "concat (map kernel_msg_bytes ms)"
  from assms have ok: "list_all kernel_msg_ok ms" and n: "0 < length ms" "length ms \<le> 81"
    by (auto simp: group_ok_def)
  have len: "length ?d = 200 * length ms"
    using kmsg.length_concat_enc [OF ok] by (simp add: msg_sz_def nl_consts)
  have p: "map parse_event (map kernel_msg_bytes ms) = map Inr (map kernel_msg_event ms)"
    using kmsg.map_dec_enc [OF ok] by simp
  have "take 16384 ?d = ?d" using len n by simp
  moreover have "length ?d \<noteq> NL_HDR_LEN"
    using len n unfolding nl_consts by presburger
  moreover have "\<not> (length ?d < msg_sz \<or> length ?d mod msg_sz \<noteq> 0)"
    using len n by (simp add: msg_sz_def nl_consts)
  ultimately show ?thesis
    by (simp add: datagram_def Let_def msg_chunks_kernel [OF ok] list_chunks_parsed [OF p])
qed

lemma list_loop_done:
  assumes "hdr_ok h" "hdr_type h = NLMSG_DONE"
  shows "list_loop (done_datagram h # q) results = (Inr (results, True), q)"
  using assms unpack_nlhdr_bytes [of h "[]"]
  by (simp add: done_datagram_def nl_consts)

theorem list_loop_stream:
  assumes "list_all group_ok gs" and "\<not> list_ex list_end (map kernel_msg_event (concat gs))"
    and "hdr_ok h" "hdr_type h = NLMSG_DONE"
  shows "list_loop (map datagram gs @ done_datagram h # q) results =
    (Inr (results @ filter list_keep (map kernel_msg_event (concat gs)), True), q)"
  using assms(1,2)
proof (induction gs arbitrary: results)
  case Nil
  then show ?case using list_loop_done [OF assms(3,4)] by simp
next
  case (Cons g gs)
  then have g: "group_ok g" and ne: "\<not> list_ex list_end (map kernel_msg_event g)"
    by auto
  from ne have "up_to_end (map kernel_msg_event g) = map kernel_msg_event g"
    by (induction g) auto
  with Cons ne show ?case
    by (simp add: list_loop_datagram [OF g] Let_def del: list_loop.simps)
qed

theorem list_loop_stream_marked:
  assumes "list_all group_ok gs" and "\<not> list_ex list_end (map kernel_msg_event (concat gs))"
    and "group_ok (ms @ [m])" "\<not> list_ex list_end (map kernel_msg_event ms)" "list_end (kernel_msg_event m)"
  shows "list_loop (map datagram gs @ datagram (ms @ [m]) # q) results =
    (Inr (results @ filter list_keep (map kernel_msg_event (concat gs @ ms @ [m])), True), q)"
  using assms(1,2)
proof (induction gs arbitrary: results)
  case Nil
  from assms(4) have "up_to_end (map kernel_msg_event (ms @ [m])) = map kernel_msg_event (ms @ [m])"
    using assms(5) by (induction ms) auto
  with assms(5) show ?case
    by (simp add: list_loop_datagram [OF assms(3)] Let_def del: list_loop.simps)
next
  case (Cons g gs)
  then have g: "group_ok g" and ne: "\<not> list_ex list_end (map kernel_msg_event g)"
    by auto
  from ne have "up_to_end (map kernel_msg_event g) = map kernel_msg_event g"
    by (induction g) auto
  with Cons ne show ?case
    by (simp add: list_loop_datagram [OF g] Let_def del: list_loop.simps)
qed

lemma parse_event_total: "msg_sz \<le> length d \<Longrightarrow> \<exists>ev. parse_event d = Inr ev"
  by (auto simp: parse_event_def unpack_nlmsghdr_def unpack_event_def msg_sz_def nl_consts Let_def bindE_eq_Inr)

lemma list_chunks_total: "list_all (\<lambda>c. msg_sz \<le> length c) cs \<Longrightarrow> \<exists>r. list_chunks cs results = Inr r"
  by (induction cs arbitrary: results) (auto simp: Let_def dest!: parse_event_total)

lemma length_msg_chunks: "list_all (\<lambda>c. length c = msg_sz) (msg_chunks d)"
proof -
  have "length (pyslice (i * msg_sz) (Suc i * msg_sz) d) = msg_sz" if "i < length d div msg_sz" for i
  proof -
    from that have "Suc i * msg_sz \<le> length d"
      by (metis Suc_leI div_times_less_eq_dividend mult_le_mono1 order_trans)
    then show ?thesis by simp
  qed
  then show ?thesis by (simp add: msg_chunks_def list_all_iff)
qed

theorem list_loop_errors: "fst (list_loop q results) = Inl e \<Longrightarrow> e = OSError"
proof (induction q results rule: list_loop.induct)
  case (5 d q results)
  have c: "\<exists>r. list_chunks (msg_chunks x) y = Inr r" for x y
    by (rule list_chunks_total) (use length_msg_chunks [of x] in \<open>simp add: list_all_iff\<close>)
  have h: "length x = NL_HDR_LEN \<Longrightarrow> \<exists>r. unpack_nlmsghdr x = Inr r" for x
    by (simp add: unpack_nlmsghdr_def)
  show ?case
    using 5 c [of "take 16384 d" results] h [of "take 16384 d"] 
    by (auto simp: Let_def split: if_splits sum.splits)
qed auto


section \<open>Identifiers and addresses survive the conversion\<close>

lemma session_id_roundtrip:
  "session_id_to_bytes (hex_str True 16 (unat w)) = le_bytes 8 (uint (w :: 64 word))"
proof -
  let ?s = "hex_str True 16 (unat w)"
  have s: "?s = hex_str True 8 (unat w div 16 ^ 8) @ hex_str True 8 (unat w)"
    using hex_str_add [of True 8 8 "unat w"] by simp
  have "re_hex16 ?s" by (simp add: re_hex16_def chomp_hex hex_str_is_hex)
  moreover have "hex_val (pyslice 0 8 ?s) = unat w div 16 ^ 8 mod 16 ^ 8"
    unfolding s by (simp add: pyslice_here hex_val_hex_str)
  moreover have "hex_val (pyslice 8 16 ?s) = unat w mod 16 ^ 8"
    unfolding s by (simp add: pyslice_skip hex_val_hex_str pyslice_def)
  moreover have "le_bytes 4 (n mod 2 ^ 32) = le_bytes 4 n" for n :: int
  proof -
    have "le_bytes 4 (le_val (le_bytes 4 n)) = le_bytes 4 n"
      using le_bytes_le_val [of "le_bytes 4 n"] by simp
    then show ?thesis by (simp add: le_val_le_bytes)
  qed
  ultimately show ?thesis
    using le_bytes_add [of 4 4 "uint w"]
    by (simp add: session_id_to_bytes_def Let_def of_nat_mod of_nat_div)
qed

lemma strtoul0_show_nat:
  assumes "r = [] \<or> hd r = CHR ''.''"
  shows "strtoul0 (show_nat n @ r) = (n, r)"
proof (cases "n = 0")
  case True
  have "show_nat 0 = ''0''" by code_simp
  moreover have "is_octal CHR ''0''" "\<not> is_octal CHR ''.''" by (simp_all add: is_octal_def)
  moreover have "\<not> is_hex CHR ''.''" by (simp add: is_hex_def is_digit_def)
  ultimately show ?thesis
    using True assms by (cases r) (auto simp: strtoul0_def oct_val_def digit_val_def)
next
  case False
  have d: "r = [] \<or> \<not> is_digit (hd r)" using assms by (auto simp: is_digit_def)
  have "show_nat n @ r \<noteq> []" "hd (show_nat n @ r) \<noteq> CHR ''0''" "(show_nat n @ r) ! 0 \<noteq> CHR ''0''"
    using show_nat_hd [of n] False by (simp_all add: hd_append flip: hd_conv_nth)
  then show ?thesis
    using takeWhile_show_nat [OF d, of n] by (simp add: strtoul0_def)
qed

lemma aton_go_show:
  assumes "n < 256"
  shows "aton_go (Suc m) acc (show_nat n @ CHR ''.'' # r) = aton_go m (256 * acc + n) r"
    and "aton_go 0 acc (show_nat n) = Some (256 * acc + n)"
proof -
  have "is_digit (hd (show_nat n))"
    using show_nat_digits [of n] show_nat_nonempty [of n] by (cases "show_nat n") auto
  then have "\<not> (show_nat n @ r' = [] \<or> \<not> is_digit (hd (show_nat n @ r')))" for r' by simp
  with assms strtoul0_show_nat [of "CHR ''.'' # r" n] strtoul0_show_nat [of "[]" n]
  show "aton_go (Suc m) acc (show_nat n @ CHR ''.'' # r) = aton_go m (256 * acc + n) r"
    and "aton_go 0 acc (show_nat n) = Some (256 * acc + n)"
    by (simp_all add: aton_go.simps [of "Suc m" acc "show_nat n @ CHR ''.'' # r"] aton_go.simps [of 0 acc "show_nat n"])
qed

lemma inet_aton_ntoa:
  assumes "length bs = 4"
  shows "inet_aton (inet_ntoa bs) = Inr bs"
proof -
  from assms obtain a b c d where bs: "bs = [a, b, c, d]"
    by (auto simp: numeral_eq_Suc length_Suc_conv)
  have u: "unat w < 256" for w :: byte
    using unsigned_less [of w, where 'a = nat] by simp
  let ?n = "256 * (256 * (256 * unat a + unat b) + unat c) + unat d"
  have "aton_go 3 0 (inet_ntoa bs) = Some ?n"
    by (simp add: bs inet_ntoa_def aton_go_show [OF u] numeral_3_eq_3)
  moreover have "CHR 0x00 \<notin> set (inet_ntoa bs)"
  proof -
    have "CHR 0x00 \<notin> set (show_nat n)" for n
      using show_nat_digits [of n] by (auto simp: list_all_iff is_digit_def)
    then show ?thesis by (simp add: bs inet_ntoa_def)
  qed
  moreover have "be_bytes 4 (int ?n) = bs"
  proof -
    have "be_val bs = int ?n" by (simp add: bs be_val_def)
    with be_bytes_be_val [of bs] assms show ?thesis by simp
  qed
  ultimately show ?thesis by (simp add: inet_aton_def)
qed

theorem ip2long_long2ip:
  assumes "0 \<le> n" "n < 2 ^ 32"
  shows "bindE (long2ip n) ip2long = Inr n"
  using assms be_val_be_bytes [of 4 n]
  by (simp add: long2ip_def pack_be_def ip2long_def inet_aton_ntoa)

theorem ntohl_involution: "0 \<le> n \<Longrightarrow> n < 2 ^ 32 \<Longrightarrow> ntohl (ntohl n) = n"
proof -
  assume n: "0 \<le> n" "n < 2 ^ 32"
  have m: "x AND 0xFFFFFFFF = x" if "0 \<le> x" "x < 2 ^ 32" for x :: int
    using that by (simp add: and_mask32)
  have "be_val (le_bytes 4 n) < 2 ^ 32" "0 \<le> be_val (le_bytes 4 n)"
    using be_val_bounds [of "le_bytes 4 n"] by simp_all
  moreover have "le_bytes 4 (be_val (le_bytes 4 n)) = rev (le_bytes 4 n)"
    using le_bytes_le_val [of "rev (le_bytes 4 n)"] by (simp add: be_val_def)
  ultimately show ?thesis
    using n by (simp add: ntohl_def m be_val_def le_val_le_bytes)
qed


section \<open>Properties of the netlink layer\<close>

definition is_session_event :: "evdict \<Rightarrow> bool" where
  "is_session_event ev \<longleftrightarrow> ev_type (blank ++ ev) \<noteq> VInt EVENT_SDESC_ADD
     \<and> ev_type (blank ++ ev) \<noteq> VInt EVENT_NE_ADD_QUEUE"

text \<open>
  An event on a session can be sent exactly when its numbers fit the fields of the kernel's
  structure and its text fields are not None; otherwise packing raises.
\<close>
theorem session_event_sendable:
  assumes "0 \<le> port" "port < 2 ^ 32" "is_session_event ev"
  shows "(\<exists>m. frame port ev = Inr m) \<longleftrightarrow> session_fits (blank ++ ev)"
proof
  assume "\<exists>m. frame port ev = Inr m"
  then obtain p where "pack_event (blank ++ ev) = Inr p" by (auto elim: frame_Inr)
  with assms(3) have "concatE (session_parts (blank ++ ev)) = Inr p"
    by (simp add: is_session_event_def ev_type_def pack_event_default)
  then show "session_fits (blank ++ ev)" using pack_session_total by blast
qed (use assms frame_ok in \<open>auto simp: is_session_event_def\<close>)

theorem session_event_sendable_witness:
  "(\<exists>m. frame 77 [Ktype \<mapsto> VInt EVENT_SESS_CHANGE, Kin_rate \<mapsto> VInt 4294967296] = Inr m)
   \<longleftrightarrow> session_fits (blank ++ [Ktype \<mapsto> VInt EVENT_SESS_CHANGE, Kin_rate \<mapsto> VInt 4294967296])"
  by (rule session_event_sendable) (simp_all add: is_session_event_def ev_type_def ev_get_def event_codes)

text \<open>
  C33: the bytes of such an event are one aligned netlink message of 160 bytes from the socket's port,
  in which the kernel reads, at the offsets of its C structure, exactly the values of the event, with
  the defaults for the keys it leaves out.
\<close>
theorem session_event_wire:
  assumes "frame port ev = Inr m" "is_session_event ev"
  shows "length m = 160 \<and> le_val (pyslice 0 4 m) = 160 \<and> le_val (pyslice 12 16 m) = port
    \<and> kernel_in_read (drop 16 m) = kernel_in_of (blank ++ ev)"
  using frame_session [OF assms(1)] assms(2) by (simp add: is_session_event_def)

lemma sess_change_frame:
  "frame 77 [Ktype \<mapsto> VInt EVENT_SESS_CHANGE, Kport_number \<mapsto> VInt 5] =
     Inr (projr (frame 77 [Ktype \<mapsto> VInt EVENT_SESS_CHANGE, Kport_number \<mapsto> VInt 5]))"
proof -
  have "\<exists>m. frame 77 [Ktype \<mapsto> VInt EVENT_SESS_CHANGE, Kport_number \<mapsto> VInt 5] = Inr m"
    by (rule frame_ok) (simp_all add: ev_type_def ev_get_def event_codes session_fits_def blank_def)
  then show ?thesis by auto
qed

theorem session_event_wire_witness:
  "kernel_in_read (drop 16 (projr (frame 77 [Ktype \<mapsto> VInt EVENT_SESS_CHANGE, Kport_number \<mapsto> VInt 5])))
   = kernel_in_of (blank ++ [Ktype \<mapsto> VInt EVENT_SESS_CHANGE, Kport_number \<mapsto> VInt 5])"
  using session_event_wire [OF sess_change_frame]
  by (simp add: is_session_event_def ev_type_def ev_get_def event_codes)

text \<open>
  C34: a message the kernel writes, with any values in its fields, is parsed to those values: 32-bit
  and 64-bit counters, addresses, the session identifier, and the text fields up to their padding.
\<close>
theorem kernel_message_parsed:
  assumes "kernel_msg_ok m"
  shows "parse_event (kernel_msg_bytes m) = Inr (with_hdr (event_of (km_event m)) (km_hdr m))"
  using parse_kernel_msg(2) [OF assms] by (simp add: kernel_msg_event_def)

definition sample_out :: "int \<Rightarrow> kernel_out" where
  "sample_out addr = \<lparr>ko_type = word_of_int EVENT_SESS_INFO, ko_id = 0xF00000001, ko_cookie = zeros 32,
     ko_ipaddr = word_of_int addr, ko_nat_ipaddr = 0, ko_macaddr = zeros 6, ko_flags = 1, ko_port_number = 3,
     ko_export_interval = 60, ko_idle_timeout = 0, ko_max_duration = 0, ko_rate0 = 0, ko_burst0 = 0,
     ko_rate1 = 0, ko_burst1 = 0, ko_duration = 9, ko_in_packets = 1, ko_in_bytes = 0x100000002,
     ko_out_packets = 0, ko_out_bytes = 0, ko_parent_session_id = 0, ko_service_name = zeros 32\<rparr>"

definition sample_hdr :: "int \<Rightarrow> nlmsghdr" where
  "sample_hdr t = \<lparr>hdr_len = 200, hdr_type = t, hdr_flags = 0, hdr_seq = 0, hdr_pid = 0\<rparr>"

definition sample_msg :: "int \<Rightarrow> int \<Rightarrow> kernel_msg" where
  "sample_msg t addr = \<lparr>km_hdr = sample_hdr t, km_event = sample_out addr\<rparr>"

lemma sample_msg_ok: "0 \<le> t \<Longrightarrow> t < 2 ^ 16 \<Longrightarrow> kernel_msg_ok (sample_msg t addr)"
  by (simp add: kernel_msg_ok_def sample_msg_def hdr_ok_def sample_hdr_def kernel_out_ok_def sample_out_def)

lemma sample_msg_event:
  "list_end (kernel_msg_event (sample_msg t addr)) \<longleftrightarrow> t = 3"
  "list_keep (kernel_msg_event (sample_msg t addr)) \<longleftrightarrow> addr mod 2 ^ 32 \<noteq> 0"
  by (simp_all add: list_end_def list_keep_def kernel_msg_event_def with_hdr_def isg_event.defs nl_event.defs
      event_of_def sample_msg_def sample_hdr_def sample_out_def NLMSG_DONE_def event_codes uint_word_of_int)

theorem kernel_message_parsed_witness:
  "parse_event (kernel_msg_bytes (sample_msg 0 0x0A000001)) = Inr (with_hdr (event_of (sample_out 0x0A000001)) (sample_hdr 0))"
  using kernel_message_parsed [OF sample_msg_ok [of 0]] by (simp add: sample_msg_def)

text \<open>
  C35: a session listing is complete: for every way the kernel splits its messages into datagrams that
  fit the receive buffer, a final header-only DONE message makes \<^verbatim>\<open>get_list\<close> return all sessions with
  a non-zero address, in order, marked complete, and it reads no datagram after the end.
\<close>
theorem get_list_complete:
  assumes "sk_sends s = []" "frame (sk_portid s) ev = Inr m"
    and "list_all group_ok gs" "\<not> list_ex list_end (map kernel_msg_event (concat gs))"
    and "hdr_ok h" "hdr_type h = NLMSG_DONE"
    and "sk_recvs s = map datagram gs @ done_datagram h # q"
  shows "get_list ev s = (Inr (filter list_keep (map kernel_msg_event (concat gs)), True),
    s\<lparr>sk_sent := sk_sent s @ [m], sk_recvs := q\<rparr>)"
  using list_loop_stream [OF assms(3-6), of q "[]"] send_only_ok [OF assms(1,2)] assms(7)
  by (simp add: get_list_def nl_bind_def)

definition list_request :: evdict where
  "list_request = [Ktype \<mapsto> VInt EVENT_SESS_GETLIST]"

lemma list_request_frame: "\<exists>m. frame 77 list_request = Inr m"
  by (rule frame_ok)
    (simp_all add: list_request_def ev_type_def ev_get_def event_codes session_fits_def blank_def)

theorem get_list_complete_witness:
  "fst (get_list list_request (open_socket 77 1 [] (map datagram [[sample_msg 0 1, sample_msg 0 0], [sample_msg 0 2]]
     @ [done_datagram (sample_hdr NLMSG_DONE)])))
   = Inr ([kernel_msg_event (sample_msg 0 1), kernel_msg_event (sample_msg 0 2)], True)"
proof -
  obtain m where "frame 77 list_request = Inr m" using list_request_frame by blast
  then have m: "frame (sk_portid (open_socket 77 1 [] r)) list_request = Inr m" for r
    by (simp add: open_socket_def sk_portid_def)
  show ?thesis
    using get_list_complete [OF _ m, of "map datagram [[sample_msg 0 1, sample_msg 0 0], [sample_msg 0 2]]
        @ [done_datagram (sample_hdr NLMSG_DONE)]" "[[sample_msg 0 1, sample_msg 0 0], [sample_msg 0 2]]"
        "sample_hdr NLMSG_DONE" "[]"]
    by (simp add: open_socket_def group_ok_def sample_msg_ok sample_msg_event hdr_ok_def sample_hdr_def NLMSG_DONE_def)
qed

text \<open>
  A session listing that ends with a data message marked DONE is complete as well, the marked
  message included.
\<close>
theorem get_list_complete_marked:
  assumes "sk_sends s = []" "frame (sk_portid s) ev = Inr f"
    and "list_all group_ok gs" "\<not> list_ex list_end (map kernel_msg_event (concat gs))"
    and "group_ok (ms @ [m])" "\<not> list_ex list_end (map kernel_msg_event ms)" "list_end (kernel_msg_event m)"
    and "sk_recvs s = map datagram gs @ datagram (ms @ [m]) # q"
  shows "get_list ev s = (Inr (filter list_keep (map kernel_msg_event (concat gs @ ms @ [m])), True),
    s\<lparr>sk_sent := sk_sent s @ [f], sk_recvs := q\<rparr>)"
  using list_loop_stream_marked [OF assms(3-7), of q "[]"] send_only_ok [OF assms(1,2)] assms(8)
  by (simp add: get_list_def nl_bind_def)

theorem get_list_complete_marked_witness:
  "fst (get_list list_request (open_socket 77 1 [] [datagram [sample_msg 0 1], datagram [sample_msg 0 2, sample_msg 3 4]]))
   = Inr ([kernel_msg_event (sample_msg 0 1), kernel_msg_event (sample_msg 0 2), kernel_msg_event (sample_msg 3 4)], True)"
proof -
  obtain m where "frame 77 list_request = Inr m" using list_request_frame by blast
  then have m: "frame (sk_portid (open_socket 77 1 [] r)) list_request = Inr m" for r
    by (simp add: open_socket_def sk_portid_def)
  show ?thesis
    using get_list_complete_marked [OF _ m, of "[datagram [sample_msg 0 1], datagram [sample_msg 0 2, sample_msg 3 4]]"
        "[[sample_msg 0 1]]" "[sample_msg 0 2]" "sample_msg 3 4" "[]"]
    by (simp add: open_socket_def group_ok_def sample_msg_ok sample_msg_event)
qed

text \<open>
  Whatever arrives on the socket, reading a listing returns, and the only exception it can raise
  while receiving is the operating system's: a datagram that is short, misaligned or foreign is
  skipped and never an error.
\<close>
theorem get_list_receive_errors:
  assumes "fst (get_list ev s) = Inl e"
  shows "e = OSError \<or> (\<exists>s'. send_only ev s = (Inl e, s'))"
  using assms list_loop_errors
  by (auto simp: get_list_def nl_bind_def split: sum.splits prod.splits) (metis fst_conv)

theorem get_list_receive_errors_witness:
  "\<exists>e. fst (get_list list_request (open_socket 77 1 [] [RData [1, 2, 3], ROSError])) = Inl e
    \<and> (e = OSError \<or> (\<exists>s'. send_only list_request (open_socket 77 1 [] [RData [1, 2, 3], ROSError]) = (Inl e, s')))"
proof -
  obtain m where m: "frame 77 list_request = Inr m" using list_request_frame by blast
  have "fst (get_list list_request (open_socket 77 1 [] [RData [1, 2, 3], ROSError])) = Inl OSError"
    by (simp add: get_list_def nl_bind_def open_socket_def
        send_only_ok [where m = m] sk_portid_def m nl_consts msg_sz_def)
  with get_list_receive_errors [OF this] show ?thesis by blast
qed

text \<open>
  The session identifier the program shows converts back to the eight bytes the kernel knows the
  session by, so a command on a listed session reaches that session.
\<close>
theorem session_id_reaches_session:
  assumes "kernel_msg_ok m"
  shows "\<exists>ev. parse_event (kernel_msg_bytes m) = Inr ev
    \<and> session_id_to_bytes (e_session_id ev) = le_bytes 8 (uint (ko_id (km_event m)))"
  using parse_kernel_msg(2) [OF assms] session_id_roundtrip
  by (simp add: kernel_msg_event_def with_hdr_def isg_event.defs nl_event.defs event_of_def)

theorem session_id_reaches_session_witness:
  "\<exists>ev. parse_event (kernel_msg_bytes (sample_msg 0 1)) = Inr ev
    \<and> session_id_to_bytes (e_session_id ev) = le_bytes 8 0xF00000001"
  using session_id_reaches_session [OF sample_msg_ok [of 0 1]]
  by (simp add: sample_msg_def sample_out_def)

text \<open>
  The printed form of an IPv4 address parses back to the address.
\<close>
theorem address_roundtrip:
  assumes "0 \<le> n" "n < 2 ^ 32"
  shows "\<exists>s. long2ip n = Inr s \<and> ip2long s = Inr n"
  using assms ip2long_long2ip [OF assms] by (auto simp: bindE_eq_Inr)

theorem address_roundtrip_witness: "\<exists>s. long2ip 0x0A010203 = Inr s \<and> ip2long s = Inr 0x0A010203"
  by (rule address_roundtrip) simp_all

end
