(* ===== verification/Config.thy ===== *)
theory Config
  imports Netlink
begin

text \<open>
  The configuration of \<^verbatim>\<open>app/src/config.py\<close>: the dataclasses as records with the defaults of the
  source, and \<^verbatim>\<open>ServerEntry.host_port\<close>. Dictionaries keep their insertion order.
\<close>

text \<open>The built-in SQL statements.\<close>

definition DEFAULT_AUTH_QUERY :: string where
  "DEFAULT_AUTH_QUERY = ''SELECT 1 AS accepted, `cisco-avpair` '' @
     ''FROM radius_clients WHERE ip = %(ip)s LIMIT 1''"

definition DEFAULT_ACCT_START :: string where
  "DEFAULT_ACCT_START = ''INSERT INTO radacct '' @
     ''(acctsessionid, username, nasipaddress, nasportid, acctstarttime, framedipaddress) '' @
     ''VALUES (%(session_id)s, %(ip)s, %(nas_ip)s, %(port_number)s, NOW(), %(nat_ip)s) '' @
     ''ON DUPLICATE KEY UPDATE acctstarttime = NOW()''"

definition DEFAULT_ACCT_UPDATE :: string where
  "DEFAULT_ACCT_UPDATE = ''UPDATE radacct SET acctsessiontime = %(duration)s, '' @
     ''acctinputoctets = %(in_bytes)s, acctoutputoctets = %(out_bytes)s '' @
     ''WHERE acctsessionid = %(session_id)s''"

definition DEFAULT_ACCT_STOP :: string where
  "DEFAULT_ACCT_STOP = ''UPDATE radacct SET acctstoptime = NOW(), '' @
     ''acctsessiontime = %(duration)s, '' @
     ''acctinputoctets = %(in_bytes)s, acctoutputoctets = %(out_bytes)s '' @
     ''WHERE acctsessionid = %(session_id)s''"

record server_entry =
  se_type :: string
  se_server :: string
  se_secret :: bytes
  se_timeout :: int
  se_host :: string
  se_port :: int
  se_unix_socket :: string
  se_user :: string
  se_password :: string
  se_database :: string

definition default_entry :: server_entry where
  "default_entry = \<lparr>se_type = ''radius'', se_server = [], se_secret = [], se_timeout = 5,
     se_host = [], se_port = 3306, se_unix_socket = [], se_user = [], se_password = [],
     se_database = []\<rparr>"

definition host_port :: "server_entry \<Rightarrow> (string \<times> int) res" where
  "host_port e =
     (let (host, sep, port) = rpartition CHR '':'' (se_server e) in
      bindE (if port \<noteq> [] then py_int port else Inr 1812)
        (\<lambda>p. Inr (if host \<noteq> [] then host else se_server e, p)))"

record api_config =
  api_enabled :: bool
  api_host :: string
  api_port :: int
  api_token :: string
  api_access_list :: "string list"

record mysql_config =
  my_auth_query :: string
  my_acct_start_query :: string
  my_acct_update_query :: string
  my_acct_stop_query :: string
  my_conn_max_age :: int

record service =
  s_traffic_classes :: "string list"
  s_rate_info :: string
  s_type :: string
  s_no_accounting :: bool
  s_alive_interval :: "int option"
  s_idle_timeout :: "int option"
  s_max_duration :: "int option"
  s_u_rate :: int
  s_u_burst :: int
  s_d_rate :: int
  s_d_burst :: int

definition new_service :: "string list \<Rightarrow> string \<Rightarrow> service" where
  "new_service classes rate_info = \<lparr>s_traffic_classes = classes, s_rate_info = rate_info,
     s_type = ''policer'', s_no_accounting = False, s_alive_interval = None, s_idle_timeout = None,
     s_max_duration = None, s_u_rate = 0, s_u_burst = 0, s_d_rate = 0, s_d_burst = 0\<rparr>"

record config =
  c_radius_dictionary :: string
  c_tc_file :: string
  c_daemonize :: bool
  c_debug :: bool
  c_log_facility :: string
  c_pid_file :: string
  c_nas_ip :: "string option"
  c_nas_identifier :: "string option"
  c_auth :: "(int, server_entry) odict"
  c_accounting :: "(int, server_entry) odict"
  c_mysql :: "mysql_config option"
  c_api :: "api_config option"
  c_coa_secret :: bytes
  c_coa_port :: int
  c_coa_server :: "string option"
  c_session_alive_interval :: int
  c_session_idle_timeout :: int
  c_session_max_duration :: int
  c_unauth_session_max_duration :: int
  c_unauth_service_name_list :: "string list"
  c_no_accounting :: bool
  c_no_color_output :: bool
  c_tc_check_interval :: int
  c_auth_workers :: int
  c_acct_workers :: int
  c_services :: "(string, service) odict"

definition default_config :: "string \<Rightarrow> string \<Rightarrow> config" where
  "default_config radius_dictionary tc_file = \<lparr>
     c_radius_dictionary = radius_dictionary, c_tc_file = tc_file, c_daemonize = True, c_debug = False,
     c_log_facility = ''local7'', c_pid_file = ''/var/run/ISGd.pid'', c_nas_ip = None,
     c_nas_identifier = None, c_auth = [], c_accounting = [], c_mysql = None, c_api = None,
     c_coa_secret = [], c_coa_port = 3799, c_coa_server = None,
     c_session_alive_interval = 60, c_session_idle_timeout = 1800, c_session_max_duration = 86400,
     c_unauth_session_max_duration = 60, c_unauth_service_name_list = [], c_no_accounting = False,
     c_no_color_output = False, c_tc_check_interval = 300, c_auth_workers = 16, c_acct_workers = 32,
     c_services = []\<rparr>"

lemma host_port_with_port:
  "CHR '':'' \<notin> set (show_nat p) \<Longrightarrow> h \<noteq> [] \<Longrightarrow>
   host_port (e\<lparr>se_server := h @ '':'' @ show_nat p\<rparr>) = Inr (h, int p)"
  by (simp add: host_port_def rpartition_append py_int_show_nat)

lemma digits_no_colon: "list_all is_digit s \<Longrightarrow> CHR '':'' \<notin> set s"
  by (auto simp: list_all_iff is_digit_def)

end
