(* ===== verification/Services.thy ===== *)
theory Services
  imports Config
begin

unbundle bit_operations_syntax

text \<open>
  The service lifecycle of \<^verbatim>\<open>app/src/services.py\<close>: parsing a Cisco QoS string, validating a
  configured service, building the event that applies it, and resolving traffic-class conflicts
  between services that are active together.
\<close>

section \<open>QoS strings\<close>

text \<open>
  \<^verbatim>\<open>re.search(r'U;(\d+);(\d+)', s)\<close>: at the leftmost place where the letter, a semicolon, digits, a
  semicolon and digits follow each other. Both groups are maximal runs of digits.
\<close>

definition match_qos :: "char \<Rightarrow> string \<Rightarrow> (nat \<times> nat) option" where
  "match_qos c s =
     (case s of x # y # r \<Rightarrow>
        if x = c \<and> y = CHR '';'' then
          let a = takeWhile is_digit r; r' = dropWhile is_digit r in
          if a \<noteq> [] \<and> r' \<noteq> [] \<and> hd r' = CHR '';'' then
            let b = takeWhile is_digit (tl r') in
            if b \<noteq> [] then Some (dec_val a, dec_val b) else None
          else None
        else None
      | _ \<Rightarrow> None)"

fun search_qos :: "char \<Rightarrow> string \<Rightarrow> (nat \<times> nat) option" where
  "search_qos c [] = None"
| "search_qos c (x # s) = (case match_qos c (x # s) of Some r \<Rightarrow> Some r | None \<Rightarrow> search_qos c s)"

definition qos_part :: "char \<Rightarrow> string \<Rightarrow> int list" where
  "qos_part c s = (case search_qos c s of None \<Rightarrow> [] | Some (r, b) \<Rightarrow> [int r, int b * 8])"

definition parse_qos :: "string \<Rightarrow> int list" where
  "parse_qos s = qos_part CHR ''U'' s @ qos_part CHR ''D'' s"


section \<open>Preparing a service\<close>

definition or_default :: "int option \<Rightarrow> int \<Rightarrow> int option" where
  "or_default v d = (case v of None \<Rightarrow> Some d | Some x \<Rightarrow> Some x)"

text \<open>The in-place update of the service, \<^term>\<open>None\<close> where the service is discarded.\<close>

definition prepare_service :: "config \<Rightarrow> service \<Rightarrow> service option" where
  "prepare_service cfg svc =
     (if s_traffic_classes svc = [] then None
      else
        let rates = parse_qos (s_rate_info svc) in
        if s_rate_info svc \<noteq> [] \<and> length rates \<noteq> 4 then None
        else
          let svc1 = (if s_rate_info svc \<noteq> [] then
                        svc\<lparr>s_u_rate := rates ! 0, s_u_burst := rates ! 1,
                            s_d_rate := rates ! 2, s_d_burst := rates ! 3\<rparr>
                      else svc)
          in Some (svc1\<lparr>s_alive_interval := or_default (s_alive_interval svc1) (c_session_alive_interval cfg),
                        s_idle_timeout := or_default (s_idle_timeout svc1) (c_session_idle_timeout cfg),
                        s_max_duration := or_default (s_max_duration svc1) (c_session_max_duration cfg)\<rparr>))"

definition prepare :: "config \<Rightarrow> string \<Rightarrow> bool \<times> config" where
  "prepare cfg name =
     (case map_of (c_services cfg) name of
        None \<Rightarrow> (False, cfg)
      | Some svc \<Rightarrow>
          (case prepare_service cfg svc of
             None \<Rightarrow> (False, cfg\<lparr>c_services := AList.delete name (c_services cfg)\<rparr>)
           | Some svc' \<Rightarrow> (True, cfg\<lparr>c_services := AList.update name svc' (c_services cfg)\<rparr>)))"

text \<open>The start-up loop of the daemon over all configured services.\<close>

definition prepare_all :: "config \<Rightarrow> config" where
  "prepare_all cfg = foldl (\<lambda>c name. snd (prepare c name)) cfg (map fst (c_services cfg))"


section \<open>The event that applies a service\<close>

definition opt_int :: "int option \<Rightarrow> pyval" where
  "opt_int v = (case v of None \<Rightarrow> VNone | Some n \<Rightarrow> VInt n)"

definition service_flags :: "service \<Rightarrow> int" where
  "service_flags svc =
     (let flags = (if s_no_accounting svc then 0 OR NO_ACCT else 0) in
      if s_type svc = ''tagger'' then flags OR (SERVICE_TAGGER OR NO_ACCT) else flags)"

definition build_event :: "config \<Rightarrow> string \<Rightarrow> evdict res" where
  "build_event cfg name =
     (case map_of (c_services cfg) name of
        None \<Rightarrow> Inl KeyError
      | Some svc \<Rightarrow> Inr [Kservice_name \<mapsto> VStr name,
          Kout_rate \<mapsto> VInt (s_d_rate svc), Kout_burst \<mapsto> VInt (s_d_burst svc),
          Kin_rate \<mapsto> VInt (s_u_rate svc), Kin_burst \<mapsto> VInt (s_u_burst svc),
          Kalive_interval \<mapsto> opt_int (s_alive_interval svc),
          Kidle_timeout \<mapsto> opt_int (s_idle_timeout svc),
          Kmax_duration \<mapsto> opt_int (s_max_duration svc),
          Kflags \<mapsto> VInt (service_flags svc)])"


section \<open>Conflict resolution\<close>

text \<open>
  \<open>on_cls\<close> is the nested dictionary \<^verbatim>\<open>{svc_type: {class: first_owner}}\<close>; \<open>ret\<close> the result so far.
  An owner that is the empty string counts as no owner, as in \<^verbatim>\<open>if owner:\<close>.
\<close>

type_synonym owners = "string \<times> string \<rightharpoonup> string"

fun find_owner :: "owners \<Rightarrow> string \<Rightarrow> string list \<Rightarrow> string option" where
  "find_owner on_cls t [] = None"
| "find_owner on_cls t (c # cs) =
     (case on_cls (t, c) of
        None \<Rightarrow> find_owner on_cls t cs
      | Some w \<Rightarrow> if w \<noteq> [] then Some w else find_owner on_cls t cs)"

fun claim :: "owners \<Rightarrow> string \<Rightarrow> string \<Rightarrow> string list \<Rightarrow> owners" where
  "claim on_cls t name [] = on_cls"
| "claim on_cls t name (c # cs) = claim (on_cls((t, c) \<mapsto> name)) t name cs"

definition sanitize_step :: "(string, service) odict \<Rightarrow> owners \<times> (string, string) odict
    \<Rightarrow> string \<times> string \<Rightarrow> owners \<times> (string, string) odict" where
  "sanitize_step svcs st entry =
     (let (on_cls, ret) = st; (name, status) = entry in
      case map_of svcs name of
        None \<Rightarrow> (on_cls, ret)
      | Some svc \<Rightarrow>
          let ret1 = AList.update name ''N'' ret in
          if status \<noteq> ''A'' then (on_cls, ret1)
          else (case find_owner on_cls (s_type svc) (s_traffic_classes svc) of
                  Some owner \<Rightarrow> (on_cls, AList.update name ''N'' (AList.update owner ''N'' ret1))
                | None \<Rightarrow> (claim on_cls (s_type svc) name (s_traffic_classes svc),
                           AList.update name ''A'' ret1)))"

definition sanitize :: "config \<Rightarrow> (string, string) odict \<Rightarrow> (string, string) odict" where
  "sanitize cfg srv_list =
     snd (foldl (sanitize_step (c_services cfg)) (Map.empty, []) srv_list)"


section \<open>Prepared services\<close>

text \<open>
  \<open>prepared\<close> is what the rest of the daemon relies on of a service that survived start-up;
  \<open>valid_service\<close> is what the configuration file has to satisfy for it.
\<close>

definition prepared :: "service \<Rightarrow> bool" where
  "prepared svc \<longleftrightarrow> s_traffic_classes svc \<noteq> [] \<and> s_alive_interval svc \<noteq> None
     \<and> s_idle_timeout svc \<noteq> None \<and> s_max_duration svc \<noteq> None
     \<and> (s_rate_info svc \<noteq> [] \<longrightarrow>
          parse_qos (s_rate_info svc) = [s_u_rate svc, s_u_burst svc, s_d_rate svc, s_d_burst svc])"

definition valid_service :: "service \<Rightarrow> bool" where
  "valid_service svc \<longleftrightarrow> s_traffic_classes svc \<noteq> []
     \<and> (s_rate_info svc = [] \<or> length (parse_qos (s_rate_info svc)) = 4)"

lemma prepare_service_None: "prepare_service cfg svc = None \<longleftrightarrow> \<not> valid_service svc"
  by (auto simp: prepare_service_def valid_service_def Let_def)

lemma prepare_service_Some:
  assumes "prepare_service cfg svc = Some svc'"
  shows "prepared svc'" and "s_type svc' = s_type svc"
    and "s_traffic_classes svc' = s_traffic_classes svc" and "s_rate_info svc' = s_rate_info svc"
    and "s_no_accounting svc' = s_no_accounting svc"
proof -
  have v: "valid_service svc" using assms prepare_service_None [of cfg svc] by auto
  note four = list_of_4 [of "parse_qos (s_rate_info svc)"]
  from assms v four show "prepared svc'"
    by (auto simp: prepare_service_def valid_service_def prepared_def or_default_def Let_def
        split: if_splits option.splits)
  from assms show "s_type svc' = s_type svc"
    "s_traffic_classes svc' = s_traffic_classes svc" "s_rate_info svc' = s_rate_info svc"
    "s_no_accounting svc' = s_no_accounting svc"
    by (auto simp: prepare_service_def Let_def split: if_splits)
qed

lemma map_of_prepare:
  "map_of (c_services (snd (prepare cfg name))) n =
     (if n = name then Option.bind (map_of (c_services cfg) name) (prepare_service cfg)
      else map_of (c_services cfg) n)"
  by (auto simp: prepare_def update_conv' delete_conv' split: option.splits)

lemma distinct_prepare:
  "distinct (map fst (c_services cfg)) \<Longrightarrow> distinct (map fst (c_services (snd (prepare cfg name))))"
  by (auto simp: prepare_def distinct_update distinct_delete split: option.splits)

lemma prepare_service_cong:
  "c_session_alive_interval c = c_session_alive_interval cfg \<Longrightarrow>
   c_session_idle_timeout c = c_session_idle_timeout cfg \<Longrightarrow>
   c_session_max_duration c = c_session_max_duration cfg \<Longrightarrow> prepare_service c = prepare_service cfg"
  by (rule ext) (simp only: prepare_service_def)

lemma prepare_other:
  "c_session_alive_interval (snd (prepare cfg n)) = c_session_alive_interval cfg"
  "c_session_idle_timeout (snd (prepare cfg n)) = c_session_idle_timeout cfg"
  "c_session_max_duration (snd (prepare cfg n)) = c_session_max_duration cfg"
  by (auto simp: prepare_def split: option.splits)

lemma foldl_prepare:
  assumes "distinct ns"
  shows "map_of (c_services (foldl (\<lambda>c n. snd (prepare c n)) cfg ns)) n =
     (if n \<in> set ns then Option.bind (map_of (c_services cfg) n) (prepare_service cfg)
      else map_of (c_services cfg) n)"
  using assms
proof (induction ns arbitrary: cfg)
  case Nil
  show ?case by simp
next
  case (Cons a ns)
  have "prepare_service (snd (prepare cfg a)) = prepare_service cfg"
    by (rule prepare_service_cong) (simp_all add: prepare_other)
  with Cons show ?case by (auto simp: map_of_prepare)
qed

theorem prepare_all_services:
  assumes "distinct (map fst (c_services cfg))"
  shows "map_of (c_services (prepare_all cfg)) n = Option.bind (map_of (c_services cfg) n) (prepare_service cfg)"
proof -
  have "map_of (c_services cfg) n = None" if "n \<notin> set (map fst (c_services cfg))"
    using that by (simp add: map_of_eq_None_iff)
  then show ?thesis using foldl_prepare [OF assms, of cfg n] by (auto simp: prepare_all_def)
qed

theorem prepare_all_prepared:
  assumes "distinct (map fst (c_services cfg))" "map_of (c_services (prepare_all cfg)) n = Some svc'"
  shows "prepared svc' \<and> (\<exists>svc. map_of (c_services cfg) n = Some svc \<and> valid_service svc
    \<and> s_type svc' = s_type svc \<and> s_traffic_classes svc' = s_traffic_classes svc)"
proof -
  from assms obtain svc where svc: "map_of (c_services cfg) n = Some svc" "prepare_service cfg svc = Some svc'"
    by (auto simp: prepare_all_services bind_eq_Some_conv)
  then have "valid_service svc" using prepare_service_None [of cfg svc] by simp
  with svc prepare_service_Some [OF svc(2)] show ?thesis by blast
qed

subsection \<open>QoS strings\<close>

lemma match_qos_show:
  assumes "r = [] \<or> \<not> is_digit (hd r)"
  shows "match_qos c ([c, CHR '';''] @ show_nat a @ CHR '';'' # show_nat b @ r) = Some (a, b)"
proof -
  have "\<not> is_digit CHR '';''" by (simp add: is_digit_def)
  then show ?thesis
    using takeWhile_show_nat [of "CHR '';'' # show_nat b @ r" a] takeWhile_show_nat [OF assms, of b]
    by (simp add: match_qos_def Let_def)
qed

lemma search_qos_skip:
  "c \<notin> set s \<Longrightarrow> search_qos c (s @ t) = search_qos c t"
proof (induction s)
  case (Cons x s)
  have "x \<noteq> c \<Longrightarrow> match_qos c (x # u) = None" for u
    by (cases u) (simp_all add: match_qos_def)
  with Cons show ?case by auto
qed simp

lemma search_qos_here: "match_qos c s = Some r \<Longrightarrow> search_qos c s = Some r"
  by (cases s) (simp_all add: match_qos_def [of c "[]"])

theorem parse_qos_show:
  "parse_qos (''QU;'' @ show_nat ur @ '';'' @ show_nat ub @ '';D;'' @ show_nat dr @ '';'' @ show_nat db)
     = [int ur, int ub * 8, int dr, int db * 8]"
proof -
  have dig: "c \<notin> set (show_nat n)" if "\<not> is_digit c" for c n
    using that show_nat_digits [of n] by (auto simp: list_all_iff)
  have nd: "\<not> is_digit CHR ''U''" "\<not> is_digit CHR ''D''" "\<not> is_digit CHR '';''" by (simp_all add: is_digit_def)
  have "search_qos CHR ''U'' (''Q'' @ ([CHR ''U'', CHR '';''] @ show_nat ur @ CHR '';'' # show_nat ub
      @ '';D;'' @ show_nat dr @ '';'' @ show_nat db)) = Some (ur, ub)"
    by (rule trans [OF search_qos_skip search_qos_here [OF match_qos_show]]) (auto simp: nd)
  moreover have "search_qos CHR ''D'' ((''QU;'' @ show_nat ur @ '';'' @ show_nat ub @ '';'')
      @ ([CHR ''D'', CHR '';''] @ show_nat dr @ CHR '';'' # show_nat db @ [])) = Some (dr, db)"
    by (rule trans [OF search_qos_skip search_qos_here [OF match_qos_show]]) (auto simp: nd dig)
  ultimately show ?thesis by (simp add: parse_qos_def qos_part_def)
qed

lemma parse_qos_length: "length (parse_qos s) \<in> {0, 2, 4}"
  by (auto simp: parse_qos_def qos_part_def split: option.splits)

lemma parse_qos_nonneg: "list_all (\<lambda>n. 0 \<le> n) (parse_qos s)"
  by (auto simp: parse_qos_def qos_part_def split: option.splits)


section \<open>Conflict resolution is right\<close>

lemma find_owner_None:
  "find_owner oc t cs = None \<longleftrightarrow> (\<forall>c \<in> set cs. oc (t, c) = None \<or> oc (t, c) = Some [])"
  by (induction cs) (auto split: option.splits)

lemma find_owner_Some:
  "find_owner oc t cs = Some w \<Longrightarrow> w \<noteq> [] \<and> (\<exists>c \<in> set cs. oc (t, c) = Some w)"
  by (induction cs) (auto split: option.splits if_splits)

lemma claim_apply: "claim oc t n cs k = (if fst k = t \<and> snd k \<in> set cs then Some n else oc k)"
  by (induction cs arbitrary: oc) (auto split: if_splits)

text \<open>
  The loop invariant over the entries seen so far: an active service owns all its classes, every
  owner is a service that was requested active and lists the class, and the result's keys are the
  known services in the order they were requested.
\<close>

definition active :: "(string, string) odict \<Rightarrow> string \<Rightarrow> bool" where
  "active ret n \<longleftrightarrow> map_of ret n = Some ''A''"

definition sanitize_inv :: "(string, service) odict \<Rightarrow> (string, string) odict
    \<Rightarrow> owners \<times> (string, string) odict \<Rightarrow> bool" where
  "sanitize_inv svcs seen st \<longleftrightarrow>
     (\<forall>n. active (snd st) n \<longrightarrow> map_of seen n = Some ''A'' \<and>
        (\<exists>svc. map_of svcs n = Some svc \<and> (\<forall>c \<in> set (s_traffic_classes svc). fst st (s_type svc, c) = Some n)))
     \<and> (\<forall>t c w. fst st (t, c) = Some w \<longrightarrow> map_of seen w = Some ''A'' \<and>
        (\<exists>svc. map_of svcs w = Some svc \<and> s_type svc = t \<and> c \<in> set (s_traffic_classes svc)))
     \<and> map fst (snd st) = filter (\<lambda>n. n \<in> dom (map_of svcs)) (map fst seen)
     \<and> (\<forall>n v. map_of (snd st) n = Some v \<longrightarrow> v = ''A'' \<or> v = ''N'')"

lemma active_update [simp]:
  "active (AList.update n v ret) m \<longleftrightarrow> (if m = n then v = ''A'' else active ret m)"
  by (simp add: active_def update_conv')


lemma sanitize_step_cases:
  obtains (unknown) "map_of svcs name = None" "sanitize_step svcs (oc, ret) (name, status) = (oc, ret)"
  | (off) svc where "map_of svcs name = Some svc" "status \<noteq> ''A''"
      "sanitize_step svcs (oc, ret) (name, status) = (oc, AList.update name ''N'' ret)"
  | (clash) svc w c where "map_of svcs name = Some svc" "status = ''A''" "w \<noteq> []"
      "c \<in> set (s_traffic_classes svc)" "oc (s_type svc, c) = Some w"
      "sanitize_step svcs (oc, ret) (name, status) =
         (oc, AList.update name ''N'' (AList.update w ''N'' (AList.update name ''N'' ret)))"
  | (claimed) svc where "map_of svcs name = Some svc" "status = ''A''"
      "\<forall>c \<in> set (s_traffic_classes svc). oc (s_type svc, c) = None \<or> oc (s_type svc, c) = Some []"
      "sanitize_step svcs (oc, ret) (name, status) =
         (claim oc (s_type svc) name (s_traffic_classes svc),
          AList.update name ''A'' (AList.update name ''N'' ret))"
proof (cases "map_of svcs name")
  case None
  then show ?thesis by (intro unknown) (simp_all add: sanitize_step_def)
next
  case (Some svc)
  show ?thesis
  proof (cases "status = ''A''")
    case False
    with Some show ?thesis by (intro off) (simp_all add: sanitize_step_def)
  next
    case True
    show ?thesis
    proof (cases "find_owner oc (s_type svc) (s_traffic_classes svc)")
      case None
      with Some True show ?thesis
        using find_owner_None [of oc "s_type svc" "s_traffic_classes svc"]
        by (intro claimed) (simp_all add: sanitize_step_def)
    next
      case (Some w)
      with \<open>map_of svcs name = Some svc\<close> True find_owner_Some [OF Some] show ?thesis
        by (auto intro: clash simp: sanitize_step_def)
    qed
  qed
qed

lemma sanitize_step_inv:
  assumes inv: "sanitize_inv svcs seen (oc, ret)" and new: "name \<notin> set (map fst seen)"
    and ne: "[] \<notin> set (map fst seen)"
  shows "sanitize_inv svcs (seen @ [(name, status)]) (sanitize_step svcs (oc, ret) (name, status))"
proof -
  note sn = map_of_snoc_new [OF new] map_add_new [OF new]
  have act: "map_of seen n = Some ''A'' \<and> (\<exists>svc. map_of svcs n = Some svc
      \<and> (\<forall>c \<in> set (s_traffic_classes svc). oc (s_type svc, c) = Some n))" if "active ret n" for n
    using inv that by (simp add: sanitize_inv_def)
  have own: "map_of seen w = Some ''A'' \<and> (\<exists>svc. map_of svcs w = Some svc \<and> s_type svc = t
      \<and> c \<in> set (s_traffic_classes svc))" if "oc (t, c) = Some w" for t c w
    using inv that by (simp add: sanitize_inv_def)
  have keys: "map fst ret = filter (\<lambda>n. n \<in> dom (map_of svcs)) (map fst seen)"
    and vals: "\<And>n v. map_of ret n = Some v \<Longrightarrow> v = ''A'' \<or> v = ''N''"
    using inv by (simp_all add: sanitize_inv_def)
  have seen: "n \<in> set (map fst seen)" if "map_of seen n = Some v" for n v
    using that by (force dest: map_of_SomeD)
  have nm: "name \<notin> set (map fst ret)" using keys new by simp
  have notact: "\<not> active ret name" using act [of name] seen new by blast
  have owner_seen: "w \<in> set (map fst ret) \<and> w \<noteq> name \<and> w \<noteq> []" if "oc (t, c) = Some w" for t c w
  proof -
    from own [OF that] have a: "map_of seen w = Some ''A''" and b: "w \<in> dom (map_of svcs)" by auto
    have w: "w \<in> set (map fst seen)" by (rule seen [OF a])
    with new ne have "w \<noteq> name" "w \<noteq> []" by metis+
    with w b keys show ?thesis by simp
  qed
  show ?thesis
  proof (cases rule: sanitize_step_cases [of svcs name oc ret status])
    case unknown
    then show ?thesis using act own keys vals seen new
      by (auto simp: sanitize_inv_def sn)
  next
    case (off svc)
    then show ?thesis using act own keys vals seen new nm
      by (auto simp: sanitize_inv_def sn map_fst_update update_conv' split: if_splits)
  next
    case (clash svc w c)
    then show ?thesis using act own keys vals seen new nm owner_seen [OF clash(5)]
      by (auto simp: sanitize_inv_def sn map_fst_update update_conv' split: if_splits)
  next
    case (claimed svc)
    have free: "oc (s_type svc, c) = None" if "c \<in> set (s_traffic_classes svc)" for c
      using claimed(3) that owner_seen by fastforce
    let ?oc = "claim oc (s_type svc) name (s_traffic_classes svc)"
    let ?ret = "AList.update name ''A'' (AList.update name ''N'' ret)"
    let ?seen = "seen @ [(name, status)]"
    have A: "map_of ?seen n = Some ''A'' \<and> (\<exists>svc. map_of svcs n = Some svc
        \<and> (\<forall>c \<in> set (s_traffic_classes svc). ?oc (s_type svc, c) = Some n))" if "active ?ret n" for n
    proof (cases "n = name")
      case True
      with claimed(1,2) show ?thesis by (auto simp: sn claim_apply)
    next
      case False
      with that act [of n] obtain svc' where n: "map_of seen n = Some ''A''" "map_of svcs n = Some svc'"
        "\<forall>c \<in> set (s_traffic_classes svc'). oc (s_type svc', c) = Some n" by auto
      then have "?oc (s_type svc', c) = Some n" if "c \<in> set (s_traffic_classes svc')" for c
        using that free [of c] by (auto simp: claim_apply)
      with n False show ?thesis by (auto simp: sn)
    qed
    have B: "map_of ?seen w = Some ''A'' \<and> (\<exists>svc. map_of svcs w = Some svc \<and> s_type svc = t
        \<and> c \<in> set (s_traffic_classes svc))" if "?oc (t, c) = Some w" for t c w
      using that own [of t c w] claimed(1,2) owner_seen [of t c w]
      by (auto simp: claim_apply sn split: if_splits)
    have C: "map fst ?ret = filter (\<lambda>n. n \<in> dom (map_of svcs)) (map fst ?seen)"
      using keys nm claimed(1) by (auto simp: map_fst_update)
    have D: "v = ''A'' \<or> v = ''N''" if "map_of ?ret n = Some v" for n v
      using that vals [of n v] by (auto simp: update_conv' split: if_splits)
    show ?thesis using A B C D claimed(4) by (simp add: sanitize_inv_def)
  qed
qed

lemma foldl_sanitize_inv:
  assumes "distinct (map fst srv)" "[] \<notin> set (map fst srv)"
  shows "sanitize_inv svcs srv (foldl (sanitize_step svcs) (Map.empty, []) srv)"
  using assms
proof (induction srv rule: rev_induct)
  case Nil
  show ?case by (simp add: sanitize_inv_def active_def)
next
  case (snoc e srv)
  obtain name status where e: "e = (name, status)" by (cases e)
  obtain oc ret where r: "foldl (sanitize_step svcs) (Map.empty, []) srv = (oc, ret)" by fastforce
  from snoc have "sanitize_inv svcs srv (oc, ret)" by (simp add: r)
  from sanitize_step_inv [OF this, of name status] snoc.prems show ?case by (simp add: e r)
qed

lemma foldl_sanitize_complete:
  assumes d: "distinct (map fst srv)" "[] \<notin> set (map fst srv)"
    and n: "map_of srv n = Some ''A''" "map_of svcs n = Some svc"
    and free: "\<And>m svc' c. m \<noteq> n \<Longrightarrow> map_of srv m = Some ''A'' \<Longrightarrow> map_of svcs m = Some svc'
       \<Longrightarrow> s_type svc' = s_type svc \<Longrightarrow> c \<in> set (s_traffic_classes svc) \<Longrightarrow> c \<notin> set (s_traffic_classes svc')"
  shows "active (snd (foldl (sanitize_step svcs) (Map.empty, []) srv)) n"
  using assms
proof (induction srv rule: rev_induct)
  case Nil
  then show ?case by simp
next
  case (snoc e srv)
  obtain name status where e: "e = (name, status)" by (cases e)
  obtain oc ret where r: "foldl (sanitize_step svcs) (Map.empty, []) srv = (oc, ret)" by fastforce
  from snoc.prems have new: "name \<notin> set (map fst srv)" and d: "distinct (map fst srv)" "[] \<notin> set (map fst srv)"
    by (auto simp: e)
  have inv: "sanitize_inv svcs srv (oc, ret)" using foldl_sanitize_inv [OF d, of svcs] r by simp
  have own: "map_of srv w = Some ''A'' \<and> (\<exists>svc. map_of svcs w = Some svc \<and> s_type svc = t
      \<and> c \<in> set (s_traffic_classes svc))" if "oc (t, c) = Some w" for t c w
    using inv that by (simp add: sanitize_inv_def)
  note sn = map_of_snoc_new [OF new] map_add_new [OF new]
  show ?case
  proof (cases "n = name")
    case True
    with snoc.prems(3) have "status = ''A''" using sn by (simp add: e)
    show ?thesis
    proof (cases rule: sanitize_step_cases [of svcs name oc ret status])
      case (clash svc0 w c)
      with own [OF clash(5)] new have "w \<noteq> name" by (force dest: map_of_SomeD)
      with clash own [OF clash(5)] snoc.prems True sn show ?thesis by (fastforce simp: e)
    qed (use True \<open>status = ''A''\<close> snoc.prems(4) in \<open>auto simp: e r\<close>)
  next
    case False
    with snoc.prems(3) sn have nA: "map_of srv n = Some ''A''" by (simp add: e)
    moreover have "c \<notin> set (s_traffic_classes svc')"
      if "m \<noteq> n" "map_of srv m = Some ''A''" "map_of svcs m = Some svc'" "s_type svc' = s_type svc"
        "c \<in> set (s_traffic_classes svc)" for m svc' c
    proof -
      have "m \<noteq> name" using that(2) new by (force dest: map_of_SomeD)
      with that snoc.prems(5) [of m svc' c] sn show ?thesis by (simp add: e)
    qed
    ultimately have act: "active ret n" using snoc.IH [OF d _ snoc.prems(4)] r by auto
    show ?thesis
    proof (cases rule: sanitize_step_cases [of svcs name oc ret status])
      case (clash svc0 w c)
      have "w \<noteq> n"
      proof
        assume "w = n"
        with own [OF clash(5)] snoc.prems(4) have "s_type svc = s_type svc0" "c \<in> set (s_traffic_classes svc)"
          by auto
        moreover have "map_of (srv @ [e]) name = Some ''A''" using sn clash(2) by (simp add: e)
        ultimately show False using snoc.prems(5) [of name svc0 c] False clash(1,4) by simp
      qed
      with clash act False show ?thesis by (simp add: e r)
    qed (use act False in \<open>auto simp: e r\<close>)
  qed
qed

text \<open>
  What the session server and the CoA server rely on of the resolution, as an interface: the
  request is a dictionary of non-empty names.
\<close>

definition wf_request :: "(string, string) odict \<Rightarrow> bool" where
  "wf_request srv \<longleftrightarrow> distinct (map fst srv) \<and> [] \<notin> set (map fst srv)"

locale service_resolver =
  fixes resolve :: "config \<Rightarrow> (string, string) odict \<Rightarrow> (string, string) odict"
  assumes keys: "wf_request srv \<Longrightarrow>
      map fst (resolve cfg srv) = filter (\<lambda>n. n \<in> dom (map_of (c_services cfg))) (map fst srv)"
    and statuses: "wf_request srv \<Longrightarrow> map_of (resolve cfg srv) n = Some v \<Longrightarrow> v = ''A'' \<or> v = ''N''"
    and sound: "wf_request srv \<Longrightarrow> active (resolve cfg srv) n \<Longrightarrow> map_of srv n = Some ''A''"
    and exclusive: "wf_request srv \<Longrightarrow> active (resolve cfg srv) n \<Longrightarrow> active (resolve cfg srv) m \<Longrightarrow>
      n \<noteq> m \<Longrightarrow> map_of (c_services cfg) n = Some a \<Longrightarrow> map_of (c_services cfg) m = Some b \<Longrightarrow>
      s_type a = s_type b \<Longrightarrow> set (s_traffic_classes a) \<inter> set (s_traffic_classes b) = {}"
    and complete: "wf_request srv \<Longrightarrow> map_of srv n = Some ''A'' \<Longrightarrow> map_of (c_services cfg) n = Some a \<Longrightarrow>
      (\<And>m b. m \<noteq> n \<Longrightarrow> map_of srv m = Some ''A'' \<Longrightarrow> map_of (c_services cfg) m = Some b \<Longrightarrow>
         s_type b = s_type a \<Longrightarrow> set (s_traffic_classes a) \<inter> set (s_traffic_classes b) = {}) \<Longrightarrow>
      active (resolve cfg srv) n"
begin

lemma known: "wf_request srv \<Longrightarrow> active (resolve cfg srv) n \<Longrightarrow> n \<in> dom (map_of (c_services cfg))"
proof -
  assume w: "wf_request srv" and "active (resolve cfg srv) n"
  then have "n \<in> set (map fst (resolve cfg srv))" by (force simp: active_def dest: map_of_SomeD)
  then show ?thesis using keys [OF w, of cfg] by simp
qed

lemma distinct_keys: "wf_request srv \<Longrightarrow> distinct (map fst (resolve cfg srv))"
  by (simp add: keys wf_request_def)

lemma mem_known: "wf_request srv \<Longrightarrow> (n, v) \<in> set (resolve cfg srv) \<Longrightarrow> n \<in> dom (map_of (c_services cfg))"
proof -
  assume w: "wf_request srv" and "(n, v) \<in> set (resolve cfg srv)"
  then have "n \<in> set (map fst (resolve cfg srv))" by force
  then show ?thesis using keys [OF w, of cfg] by simp
qed

lemma one_owner:
  assumes "wf_request srv" and "active (resolve cfg srv) n" and "active (resolve cfg srv) m"
    and "map_of (c_services cfg) n = Some a" and "map_of (c_services cfg) m = Some b"
    and "s_type a = s_type b" and "c \<in> set (s_traffic_classes a)" and "c \<in> set (s_traffic_classes b)"
  shows "n = m"
  using exclusive [OF assms(1-3)] assms(4-8) by blast

end

lemma sanitize_sound_inv:
  assumes "wf_request srv"
  obtains oc where "sanitize_inv (c_services cfg) srv (oc, sanitize cfg srv)"
  using foldl_sanitize_inv [of srv "c_services cfg"] assms
  by (cases "foldl (sanitize_step (c_services cfg)) (Map.empty, []) srv")
    (auto simp: sanitize_def wf_request_def)

lemma sanitize_exclusive_inv:
  assumes "sanitize_inv svcs srv (oc, ret)" "active ret n" "active ret m" "n \<noteq> m"
    "map_of svcs n = Some a" "map_of svcs m = Some b" "s_type a = s_type b"
  shows "set (s_traffic_classes a) \<inter> set (s_traffic_classes b) = {}"
proof -
  have "\<forall>c \<in> set (s_traffic_classes a). oc (s_type a, c) = Some n"
    "\<forall>c \<in> set (s_traffic_classes b). oc (s_type a, c) = Some m"
    using assms by (auto simp: sanitize_inv_def)
  with assms(4) show ?thesis by auto
qed

interpretation san: service_resolver sanitize
proof
  fix srv cfg
  assume w: "wf_request srv"
  then obtain oc where inv: "sanitize_inv (c_services cfg) srv (oc, sanitize cfg srv)"
    by (rule sanitize_sound_inv)
  show "map fst (sanitize cfg srv) = filter (\<lambda>n. n \<in> dom (map_of (c_services cfg))) (map fst srv)"
    using inv by (simp add: sanitize_inv_def)
  show "v = ''A'' \<or> v = ''N''" if "map_of (sanitize cfg srv) n = Some v" for n v
    using inv that by (simp add: sanitize_inv_def)
  show "map_of srv n = Some ''A''" if "active (sanitize cfg srv) n" for n
    using inv that by (simp add: sanitize_inv_def)
  show "set (s_traffic_classes a) \<inter> set (s_traffic_classes b) = {}"
    if "active (sanitize cfg srv) n" "active (sanitize cfg srv) m" "n \<noteq> m"
      "map_of (c_services cfg) n = Some a" "map_of (c_services cfg) m = Some b" "s_type a = s_type b"
    for n m a b
    using sanitize_exclusive_inv [OF inv that] .
  show "active (sanitize cfg srv) n"
    if "map_of srv n = Some ''A''" "map_of (c_services cfg) n = Some a"
      "\<And>m b. m \<noteq> n \<Longrightarrow> map_of srv m = Some ''A'' \<Longrightarrow> map_of (c_services cfg) m = Some b \<Longrightarrow>
         s_type b = s_type a \<Longrightarrow> set (s_traffic_classes a) \<inter> set (s_traffic_classes b) = {}"
    for n a
    unfolding sanitize_def
    by (rule foldl_sanitize_complete) (use w that in \<open>auto simp: wf_request_def\<close>)
qed


section \<open>Properties of the service layer\<close>

definition sample_policer :: "string list \<Rightarrow> string \<Rightarrow> service" where
  "sample_policer cs q = new_service cs q"

definition sample_config :: config where
  "sample_config = (default_config ''d'' ''t'')\<lparr>c_services :=
     [(''GOLD'', sample_policer [''world''] ''QU;100;10;D;200;20''),
      (''SLOW'', sample_policer [''world'', ''local''] ''QU;1;1;D;2;2''),
      (''BAD'', sample_policer [''world''] ''Q''),
      (''TAG'', (sample_policer [''world''] [])\<lparr>s_type := ''tagger''\<rparr>)]\<rparr>"

text \<open>
  C4: after conflict resolution no two active services of the same kind share a traffic class,
  whatever the backend asked for.
\<close>
theorem sanitize_exclusive:
  assumes "wf_request srv" "active (sanitize cfg srv) n" "active (sanitize cfg srv) m" "n \<noteq> m"
    and "map_of (c_services cfg) n = Some a" "map_of (c_services cfg) m = Some b" "s_type a = s_type b"
  shows "set (s_traffic_classes a) \<inter> set (s_traffic_classes b) = {}"
  using san.exclusive [OF assms] .

definition two_class_config :: config where
  "two_class_config = (default_config ''d'' ''t'')\<lparr>c_services :=
     [(''GOLD'', new_service [''world''] []), (''LOCAL'', new_service [''local''] [])]\<rparr>"

theorem sanitize_exclusive_witness:
  "set (s_traffic_classes (new_service [''world''] [])) \<inter> set (s_traffic_classes (new_service [''local''] [])) = {}"
  by (rule sanitize_exclusive [of "[(''GOLD'', ''A''), (''LOCAL'', ''A'')]" two_class_config "''GOLD''" "''LOCAL''"])
    (simp_all add: wf_request_def active_def sanitize_def sanitize_step_def two_class_config_def default_config_def
      new_service_def)

text \<open>
  C36: a requested service stays active when no other requested service of its kind shares one of its
  traffic classes, and no service becomes active that was not requested active.
\<close>
theorem sanitize_keeps_unconflicted:
  assumes "wf_request srv" "map_of srv n = Some ''A''" "map_of (c_services cfg) n = Some a"
    and "\<forall>m b. m \<noteq> n \<longrightarrow> map_of srv m = Some ''A'' \<longrightarrow> map_of (c_services cfg) m = Some b \<longrightarrow>
      s_type b = s_type a \<longrightarrow> set (s_traffic_classes a) \<inter> set (s_traffic_classes b) = {}"
  shows "active (sanitize cfg srv) n \<and> (\<forall>m. active (sanitize cfg srv) m \<longrightarrow> map_of srv m = Some ''A'')"
proof
  show "active (sanitize cfg srv) n"
    by (rule san.complete [OF assms(1-3)]) (use assms(4) in blast)
qed (use san.sound [OF assms(1)] in blast)

theorem sanitize_keeps_unconflicted_witness:
  "active (sanitize sample_config [(''GOLD'', ''A''), (''TAG'', ''A''), (''SLOW'', ''N'')]) ''GOLD''"
proof -
  have "map_of (c_services sample_config) ''GOLD'' = Some (sample_policer [''world''] ''QU;100;10;D;200;20'')"
    by (simp add: sample_config_def default_config_def)
  then have "active (sanitize sample_config [(''GOLD'', ''A''), (''TAG'', ''A''), (''SLOW'', ''N'')]) ''GOLD''
      \<and> (\<forall>m. active (sanitize sample_config [(''GOLD'', ''A''), (''TAG'', ''A''), (''SLOW'', ''N'')]) m
        \<longrightarrow> map_of [(''GOLD'', ''A''), (''TAG'', ''A''), (''SLOW'', ''N'')] m = Some ''A'')"
    by (intro sanitize_keeps_unconflicted)
      (auto simp: wf_request_def sample_config_def default_config_def sample_policer_def new_service_def
        split: if_splits)
  then show ?thesis by blast
qed

text \<open>
  The resolution answers for exactly the requested services the configuration knows, in the order
  of the request, each with status A or N.
\<close>
theorem sanitize_answers_known:
  assumes "wf_request srv"
  shows "map fst (sanitize cfg srv) = filter (\<lambda>n. n \<in> dom (map_of (c_services cfg))) (map fst srv)
    \<and> (\<forall>(n, v) \<in> set (sanitize cfg srv). v = ''A'' \<or> v = ''N'')"
proof
  show "\<forall>(n, v) \<in> set (sanitize cfg srv). v = ''A'' \<or> v = ''N''"
    using san.statuses [OF assms] od.mem_items_iff [OF san.distinct_keys [OF assms]] by blast
qed (rule san.keys [OF assms])

theorem sanitize_answers_known_witness:
  "map fst (sanitize two_class_config [(''X'', ''A''), (''GOLD'', ''N'')]) = [''GOLD'']"
  using sanitize_answers_known [of "[(''X'', ''A''), (''GOLD'', ''N'')]" two_class_config]
  by (simp add: wf_request_def two_class_config_def default_config_def)

text \<open>
  The start-up loop keeps exactly the services with a traffic class and, if they have a rate
  string, one that parses completely; a kept service has its rates and all three timers set.
\<close>
theorem prepare_all_exact:
  assumes "distinct (map fst (c_services cfg))"
  shows "map_of (c_services (prepare_all cfg)) n = Option.bind (map_of (c_services cfg) n) (prepare_service cfg)
    \<and> (n \<in> dom (map_of (c_services (prepare_all cfg))) \<longleftrightarrow>
        (\<exists>svc. map_of (c_services cfg) n = Some svc \<and> valid_service svc))
    \<and> (\<forall>svc. map_of (c_services (prepare_all cfg)) n = Some svc \<longrightarrow> prepared svc)"
proof -
  have "n \<in> dom (map_of (c_services (prepare_all cfg))) \<longleftrightarrow>
      (\<exists>svc. map_of (c_services cfg) n = Some svc \<and> valid_service svc)"
    using prepare_all_services [OF assms, of n]
    by (cases "map_of (c_services cfg) n") (auto simp: domIff prepare_service_None)
  then show ?thesis using prepare_all_services [OF assms] prepare_all_prepared [OF assms] by blast
qed

theorem prepare_all_exact_witness:
  "''BAD'' \<notin> dom (map_of (c_services (prepare_all sample_config)))"
  using prepare_all_exact [of sample_config "''BAD''"]
  by (simp add: sample_config_def default_config_def valid_service_def sample_policer_def new_service_def
      parse_qos_def qos_part_def match_qos_def)

text \<open>
  A Cisco QoS string parses to the rates written in it, with the bursts converted from bytes to
  bits.
\<close>
theorem parse_qos_reads_rates:
  "parse_qos (''QU;'' @ show_nat ur @ '';'' @ show_nat ub @ '';D;'' @ show_nat dr @ '';'' @ show_nat db)
     = [int ur, int ub * 8, int dr, int db * 8]"
  by (rule parse_qos_show)

end
