(* ===== verification/Nl_Trace.thy ===== *)
theory Nl_Trace
  imports Services
begin

text \<open>
  Reasoning about netlink operations that the components share: the laws of the state transformer,
  what is sent by a sequence of sends (\<open>frames_prefix\<close>, \<open>new_messages\<close>), results that later steps rely
  on (\<open>sends_bind_post\<close>), and the order in which a script of received datagrams is consumed
  (\<open>consumes\<close>).
\<close>

section \<open>Sequences of sends\<close>

fun send_all :: "evdict list \<Rightarrow> unit nl" where
  "send_all [] = nl_return ()"
| "send_all (ev # evs) = nl_bind (send_only ev) (\<lambda>_. send_all evs)"

lemma nl_bind_return [simp]: "nl_bind (nl_return x) f = f x"
  by (simp add: nl_bind_def nl_return_def)

lemma nl_bind_lift_Inr [simp]: "nl_bind (nl_lift (Inr x)) f = f x"
  by (simp add: nl_bind_def nl_lift_def)

lemma nl_bind_lift_Inl [simp]: "nl_bind (nl_lift (Inl e)) f = nl_lift (Inl e)"
  by (simp add: nl_bind_def nl_lift_def)

lemma nl_bind_assoc: "nl_bind (nl_bind m f) g = nl_bind m (\<lambda>x. nl_bind (f x) g)"
  by (auto simp: nl_bind_def fun_eq_iff split: prod.splits sum.splits)

lemma nl_bind_return_right [simp]: "nl_bind m (\<lambda>_. nl_lift (Inr ())) = m"
  by (auto simp: nl_bind_def nl_lift_def fun_eq_iff split: prod.splits sum.splits)

text \<open>The messages of the first events of a list.\<close>

definition frames_prefix :: "int \<Rightarrow> evdict list \<Rightarrow> bytes list \<Rightarrow> bool" where
  "frames_prefix port evs ms \<longleftrightarrow> length ms \<le> length evs
     \<and> list_all2 (\<lambda>ev m. frame port ev = Inr m) (take (length ms) evs) ms"

lemma frames_prefix_Nil [simp]: "frames_prefix port evs []"
  by (simp add: frames_prefix_def)

lemma frames_prefix_Cons:
  "frame port ev = Inr m \<Longrightarrow> frames_prefix port evs ms \<Longrightarrow> frames_prefix port (ev # evs) (m # ms)"
  by (simp add: frames_prefix_def)

lemma frames_prefix_append_left: "frames_prefix port evs ms \<Longrightarrow> frames_prefix port (evs @ evs') ms"
  by (simp add: frames_prefix_def)

lemma frames_prefix_append:
  "frames_prefix port evs ms \<Longrightarrow> length ms = length evs \<Longrightarrow> frames_prefix port evs' ms'
    \<Longrightarrow> frames_prefix port (evs @ evs') (ms @ ms')"
  by (simp add: frames_prefix_def list_all2_appendI)

lemma send_all_prefix:
  "\<exists>ms. sk_sent (snd (send_all evs s)) = sk_sent s @ ms \<and> frames_prefix (sk_portid s) evs ms
    \<and> (fst (send_all evs s) = Inr () \<longleftrightarrow> length ms = length evs) \<and> sk_portid (snd (send_all evs s)) = sk_portid s"
proof (induction evs arbitrary: s)
  case Nil
  show ?case by (simp add: nl_return_def)
next
  case (Cons ev evs)
  show ?case
  proof (cases "send_only ev s")
    case (Pair r s1)
    show ?thesis
    proof (cases r)
      case (Inl e)
      moreover have "sk_portid s1 = sk_portid s" "sk_sent s1 = sk_sent s"
        using Pair Inl sends_send_only [of "\<lambda>_. True" ev] send_only_error [of ev s e s1]
        by (simp_all add: sends_def sent_ok_def) (metis snd_conv)
      ultimately show ?thesis using Pair by (simp add: nl_bind_def)
    next
      case (Inr u)
      with Pair obtain m where m: "frame (sk_portid s) ev = Inr m" "sk_sent s1 = sk_sent s @ [m]"
        "sk_portid s1 = sk_portid s" by (auto elim: send_only_Inr)
      from Cons [of s1] obtain ms where ms: "sk_sent (snd (send_all evs s1)) = sk_sent s1 @ ms"
        "frames_prefix (sk_portid s1) evs ms" "fst (send_all evs s1) = Inr () \<longleftrightarrow> length ms = length evs"
        "sk_portid (snd (send_all evs s1)) = sk_portid s1" by blast
      have "send_all (ev # evs) s = send_all evs s1" using Pair Inr by (simp add: nl_bind_def)
      with m ms show ?thesis
        by (intro exI [of _ "m # ms"]) (simp add: frames_prefix_Cons)
    qed
  qed
qed

lemma send_all_append: "send_all (xs @ ys) = nl_bind (send_all xs) (\<lambda>_. send_all ys)"
  by (induction xs) (simp_all add: nl_bind_assoc)

lemma send_all_single: "send_all [ev] = send_only ev"
  by (auto simp: nl_bind_def nl_return_def fun_eq_iff split: prod.splits sum.splits)

lemma frames_prefix_mem:
  assumes "frames_prefix port evs ms" "m \<in> set ms"
  obtains ev where "ev \<in> set evs" "frame port ev = Inr m"
proof -
  from assms(2) obtain i where i: "i < length ms" "ms ! i = m" by (auto simp: in_set_conv_nth)
  with assms(1) have "frame port (evs ! i) = Inr m" "i < length evs"
    by (auto simp: frames_prefix_def list_all2_conv_all_nth)
  then show ?thesis using that nth_mem by blast
qed

text \<open>The messages an operation added to the socket.\<close>

definition new_messages :: "nlsock \<Rightarrow> nlsock \<Rightarrow> bytes list" where
  "new_messages s s' = drop (length (sk_sent s)) (sk_sent s')"

lemma new_messages_eq: "sk_sent s' = sk_sent s @ ms \<Longrightarrow> new_messages s s' = ms"
  by (simp add: new_messages_def)

lemma sent_ok_new:
  "sent_ok P s s' \<Longrightarrow> x \<in> set (new_messages s s') \<Longrightarrow> \<exists>ev. P ev \<and> frame (sk_portid s) ev = Inr x"
  unfolding sent_ok_def by (metis new_messages_eq)

text \<open>A sequence of events that each wait for an answer.\<close>

fun ask_all :: "evdict list \<Rightarrow> unit nl" where
  "ask_all [] = nl_return ()"
| "ask_all (ev # evs) = nl_bind (send_event ev) (\<lambda>_. ask_all evs)"

lemma ask_all_append: "ask_all (xs @ ys) = nl_bind (ask_all xs) (\<lambda>_. ask_all ys)"
  by (induction xs) (simp_all add: nl_bind_assoc)

lemma send_event_sent:
  "\<exists>ms. sk_sent (snd (send_event ev s)) = sk_sent s @ ms \<and> frames_prefix (sk_portid s) [ev] ms
    \<and> (\<forall>x. fst (send_event ev s) = Inr x \<longrightarrow> length ms = 1) \<and> sk_portid (snd (send_event ev s)) = sk_portid s"
proof (cases "send_only ev s")
  case (Pair r s1)
  show ?thesis
  proof (cases r)
    case (Inl e)
    with Pair have "send_event ev s = (Inl e, s1)" by (simp add: send_event_def nl_bind_def)
    moreover have "sk_portid s1 = sk_portid s" "sk_sent s1 = sk_sent s"
      using Pair Inl sends_send_only [of "\<lambda>_. True" ev] send_only_error [of ev s e s1]
      by (simp_all add: sends_def sent_ok_def) (metis snd_conv)
    ultimately show ?thesis by simp
  next
    case (Inr u)
    with Pair obtain m where m: "frame (sk_portid s) ev = Inr m" "sk_sent s1 = sk_sent s @ [m]"
      "sk_portid s1 = sk_portid s" by (auto elim: send_only_Inr)
    have "sk_sent (snd (send_event ev s)) = sk_sent s1" "sk_portid (snd (send_event ev s)) = sk_portid s1"
      using Pair Inr by (auto simp: send_event_def nl_bind_def nl_recv.simps nl_lift_def sk_portid_def split: list.splits sum.splits prod.splits)
    with m show ?thesis by (intro exI [of _ "[m]"]) (simp add: frames_prefix_Cons)
  qed
qed

lemma ask_all_prefix:
  "\<exists>ms. sk_sent (snd (ask_all evs s)) = sk_sent s @ ms \<and> frames_prefix (sk_portid s) evs ms
    \<and> (fst (ask_all evs s) = Inr () \<longrightarrow> length ms = length evs) \<and> sk_portid (snd (ask_all evs s)) = sk_portid s"
proof (induction evs arbitrary: s)
  case Nil
  show ?case by (simp add: nl_return_def)
next
  case (Cons ev evs)
  obtain r s1 where r: "send_event ev s = (r, s1)" by fastforce
  with send_event_sent [of ev s] obtain ms1 where ms1: "sk_sent s1 = sk_sent s @ ms1" "frames_prefix (sk_portid s) [ev] ms1"
    "\<forall>x. r = Inr x \<longrightarrow> length ms1 = 1" "sk_portid s1 = sk_portid s" by auto
  show ?case
  proof (cases r)
    case (Inl e)
    then have "ask_all (ev # evs) s = (Inl e, s1)" using r by (simp add: nl_bind_def)
    with ms1 frames_prefix_append_left [OF ms1(2), of evs] show ?thesis by auto
  next
    case (Inr x)
    from Cons [of s1] obtain ms2 where ms2: "sk_sent (snd (ask_all evs s1)) = sk_sent s1 @ ms2"
      "frames_prefix (sk_portid s1) evs ms2" "fst (ask_all evs s1) = Inr () \<longrightarrow> length ms2 = length evs"
      "sk_portid (snd (ask_all evs s1)) = sk_portid s1" by blast
    have "ask_all (ev # evs) s = ask_all evs s1" using r Inr by (simp add: nl_bind_def)
    moreover have "frames_prefix (sk_portid s) ([ev] @ evs) (ms1 @ ms2)"
      using ms1 ms2 Inr by (intro frames_prefix_append) auto
    ultimately show ?thesis using ms1 ms2 Inr by (intro exI [of _ "ms1 @ ms2"]) auto
  qed
qed

lemma bind_Inr:
  assumes "nl_bind m f s = (Inr y, s')"
  obtains x t where "m s = (Inr x, t)" "f x t = (Inr y, s')"
  using assms by (auto simp: nl_bind_def split: prod.splits sum.splits)

lemma lift_Inr: "nl_lift r s = (Inr x, t) \<longleftrightarrow> r = Inr x \<and> t = s"
  by (auto simp: nl_lift_def)

lemma return_eq: "nl_return v s = (r, t) \<longleftrightarrow> r = Inr v \<and> t = s"
  by (auto simp: nl_return_def)

lemma sends_bind_post:
  assumes "sends P m" "\<And>s x t. m s = (Inr x, t) \<Longrightarrow> Q x" "\<And>x. Q x \<Longrightarrow> sends P (f x)"
  shows "sends P (nl_bind m f)"
  unfolding sends_def
proof
  fix s
  obtain r t where t: "m s = (r, t)" by fastforce
  with assms(1) have m: "sent_ok P s t" unfolding sends_def by (metis snd_conv)
  show "sent_ok P s (snd (nl_bind m f s))"
  proof (cases r)
    case (Inl e)
    with t m show ?thesis by (simp add: nl_bind_def)
  next
    case (Inr x)
    with assms(2) t have "sends P (f x)" by (blast intro: assms(3))
    then have "sent_ok P t (snd (f x t))" by (simp add: sends_def)
    with t m Inr show ?thesis by (auto simp: nl_bind_def intro: sent_ok_trans)
  qed
qed


section \<open>Reading consumes the script in order\<close>

definition consumes :: "'a nl \<Rightarrow> bool" where
  "consumes m \<longleftrightarrow> (\<forall>s. \<exists>q. sk_recvs s = q @ sk_recvs (snd (m s)))"

named_theorems consume_rules

lemma consumes_return [consume_rules]: "consumes (nl_return x)"
  by (simp add: consumes_def nl_return_def)

lemma consumes_lift [consume_rules]: "consumes (nl_lift r)"
  by (simp add: consumes_def nl_lift_def)

lemma consumes_bind [consume_rules]:
  assumes "consumes m" "\<And>x. consumes (f x)"
  shows "consumes (nl_bind m f)"
  unfolding consumes_def
proof
  fix s
  obtain r t where t: "m s = (r, t)" by fastforce
  from assms(1) t obtain q where q: "sk_recvs s = q @ sk_recvs t" unfolding consumes_def by (metis snd_conv)
  show "\<exists>q. sk_recvs s = q @ sk_recvs (snd (nl_bind m f s))"
  proof (cases r)
    case (Inl e)
    then show ?thesis using t q by (auto simp: nl_bind_def)
  next
    case (Inr x)
    from assms(2) obtain q' where "sk_recvs t = q' @ sk_recvs (snd (f x t))" unfolding consumes_def by blast
    then show ?thesis using t q Inr by (auto simp: nl_bind_def intro: exI [of _ "q @ q'"])
  qed
qed

lemma consumes_catch [consume_rules]:
  assumes "consumes m" "\<And>e. consumes (h e)"
  shows "consumes (nl_catch m h)"
  unfolding consumes_def
proof
  fix s
  obtain r t where t: "m s = (r, t)" by fastforce
  from assms(1) t obtain q where q: "sk_recvs s = q @ sk_recvs t" unfolding consumes_def by (metis snd_conv)
  show "\<exists>q. sk_recvs s = q @ sk_recvs (snd (nl_catch m h s))"
  proof (cases r)
    case (Inl e)
    from assms(2) obtain q' where "sk_recvs t = q' @ sk_recvs (snd (h e t))" unfolding consumes_def by blast
    then show ?thesis using t q Inl by (auto simp: nl_catch_def intro: exI [of _ "q @ q'"])
  next
    case (Inr x)
    then show ?thesis using t q by (auto simp: nl_catch_def)
  qed
qed

lemma consumes_send_only [consume_rules]: "consumes (send_only ev)"
  by (auto simp: consumes_def send_only_def nl_bind_def nl_lift_def nl_sendto.simps split: sum.splits list.splits)

lemma consumes_recv [consume_rules]: "consumes (nl_recv n)"
  by (auto simp: consumes_def nl_recv.simps split: list.splits)

lemma list_loop_suffix: "\<exists>q'. q = q' @ snd (list_loop q results)"
proof (induction q results rule: list_loop.induct)
  case (5 d q results)
  show ?case
    using 5 by (auto simp: Let_def split: sum.splits if_splits) (metis append_Cons)+
qed auto

lemma consumes_get_list [consume_rules]: "consumes (get_list ev)"
  unfolding get_list_def
  by (intro consume_rules) (auto simp: consumes_def Let_def split: prod.splits, metis list_loop_suffix snd_conv)

end
