(* ===== verification/Api_Sessions.thy ===== *)
theory Api_Sessions
  imports Nl_Trace
begin

unbundle bit_operations_syntax

text \<open>
  The netlink side of the REST interface, \<^verbatim>\<open>app/src/api/sessions.py\<close>, with the models it fills from
  \<^verbatim>\<open>app/src/api/models.py\<close>. Every call works on a socket of its own, the state of the \<open>nl\<close> operations
  here; the text of \<^verbatim>\<open>/proc/net/arp\<close> is an argument.
\<close>

section \<open>Models\<close>

record session_update =
  up_in_kbps :: "int option"
  up_out_kbps :: "int option"
  up_approve :: "bool option"
  up_block :: "bool option"

record session_flags =
  sf_approved :: bool
  sf_service :: bool
  sf_service_on :: bool
  sf_service_online :: bool
  sf_no_accounting :: bool
  sf_dying :: bool
  sf_tagger :: bool

record session_info =
  si_session_id :: string
  si_ip :: string
  si_nat_ip :: "string option"
  si_mac :: "string option"
  si_port :: int
  si_duration :: int
  si_in_bytes :: int
  si_out_bytes :: int
  si_in_packets :: int
  si_out_packets :: int
  si_in_rate :: int
  si_out_rate :: int
  si_in_burst :: int
  si_out_burst :: int
  si_alive_interval :: int
  si_idle_timeout :: int
  si_max_duration :: int
  si_flags :: session_flags
  si_service_name :: "string option"
  si_parent_session_id :: "string option"

text \<open>The bounds that the model of an update declares for its fields.\<close>

definition kbps_ok :: "int option \<Rightarrow> bool" where
  "kbps_ok v = (case v of None \<Rightarrow> True | Some k \<Rightarrow> 0 \<le> k \<and> k \<le> 4000000)"

definition valid_update :: "session_update \<Rightarrow> bool" where
  "valid_update upd \<longleftrightarrow> kbps_ok (up_in_kbps upd) \<and> kbps_ok (up_out_kbps upd)"


section \<open>Hardware addresses\<close>

text \<open>
  \<^verbatim>\<open>next(f)\<close> on an empty file raises \<^verbatim>\<open>StopIteration\<close>, which no handler catches; a file that cannot be
  read is an empty table.
\<close>

definition arp_line :: "(string, string) odict \<Rightarrow> string \<Rightarrow> (string, string) odict" where
  "arp_line table line =
     (let parts = split_ws line in
      if 4 \<le> length parts \<and> parts ! 3 \<noteq> ''00:00:00:00:00:00'' then AList.update (parts ! 0) (parts ! 3) table else table)"

definition arp_table :: "string list res \<Rightarrow> (string, string) odict res" where
  "arp_table proc_arp =
     (case proc_arp of
        Inl e \<Rightarrow> if is_oserror e then Inr [] else Inl e
      | Inr [] \<Rightarrow> Inl OtherError
      | Inr (_ # lines) \<Rightarrow> Inr (foldl arp_line [] lines))"

definition is_mac_sep :: "char \<Rightarrow> bool" where
  "is_mac_sep c \<longleftrightarrow> c = CHR '':'' \<or> c = CHR ''-'' \<or> c = CHR ''.''"

definition mac_colon :: "string option \<Rightarrow> string option" where
  "mac_colon raw =
     (case raw of
        None \<Rightarrow> None
      | Some s \<Rightarrow>
          if s = [] \<or> s = ''000000000000'' then None
          else let h = filter (\<lambda>c. \<not> is_mac_sep c) (map lower_char s) in
               if length h \<noteq> 12 then None
               else Some (join '':'' (map (\<lambda>i. pyslice i (i + 2) h) [0, 2, 4, 6, 8, 10])))"

definition norm_mac :: "string option \<Rightarrow> string" where
  "norm_mac s = (case s of None \<Rightarrow> [] | Some t \<Rightarrow> map lower_char (filter (\<lambda>c. \<not> is_mac_sep c) t))"


section \<open>Rows\<close>

definition decode_flags :: "int \<Rightarrow> session_flags" where
  "decode_flags f = \<lparr>sf_approved = (f AND IS_APPROVED_SESSION \<noteq> 0), sf_service = (f AND IS_SERVICE \<noteq> 0),
     sf_service_on = (f AND SERVICE_STATUS_ON \<noteq> 0), sf_service_online = (f AND SERVICE_ONLINE \<noteq> 0),
     sf_no_accounting = (f AND NO_ACCT \<noteq> 0), sf_dying = (f AND IS_DYING \<noteq> 0), sf_tagger = (f AND SERVICE_TAGGER \<noteq> 0)\<rparr>"

definition ev_to_info :: "(string, string) odict \<Rightarrow> nl_event \<Rightarrow> session_info res" where
  "ev_to_info arp ev =
     bindE (long2ip (e_ipaddr ev)) (\<lambda>ip.
     bindE (if e_nat_ipaddr ev \<noteq> 0 then bindE (long2ip (e_nat_ipaddr ev)) (\<lambda>n. Inr (Some n)) else Inr None) (\<lambda>nat_ip.
       Inr \<lparr>si_session_id = e_session_id ev, si_ip = ip, si_nat_ip = nat_ip,
            si_mac = (case mac_colon (e_macaddr ev) of Some m \<Rightarrow> Some m | None \<Rightarrow> map_of arp ip),
            si_port = e_port_number ev, si_duration = e_duration ev, si_in_bytes = e_in_bytes ev,
            si_out_bytes = e_out_bytes ev, si_in_packets = e_in_packets ev, si_out_packets = e_out_packets ev,
            si_in_rate = e_in_rate ev, si_out_rate = e_out_rate ev, si_in_burst = e_in_burst ev,
            si_out_burst = e_out_burst ev, si_alive_interval = e_alive_interval ev,
            si_idle_timeout = e_idle_timeout ev, si_max_duration = e_max_duration ev,
            si_flags = decode_flags (e_flags ev), si_service_name = e_service_name ev,
            si_parent_session_id = e_parent_session_id ev\<rparr>))"

fun mapE :: "('a \<Rightarrow> 'b res) \<Rightarrow> 'a list \<Rightarrow> 'b list res" where
  "mapE f [] = Inr []"
| "mapE f (x # xs) = bindE (f x) (\<lambda>y. bindE (mapE f xs) (\<lambda>ys. Inr (y # ys)))"


section \<open>Queries\<close>

definition s32 :: "int \<Rightarrow> int" where
  "s32 v = (if v < 0x80000000 then v else v - 0x100000000)"

record session_counts =
  sc_approved :: int
  sc_unapproved :: int
  sc_dying :: int
  sc_no_accounting :: int
  sc_total :: int

definition counts_of :: "nl_event \<Rightarrow> session_counts" where
  "counts_of rep =
     (let act = s32 (ntohl (e_ipaddr rep)); unap = \<bar>s32 (ntohl (e_nat_ipaddr rep))\<bar>;
          dying = e_port_number rep; no_acct = e_alive_interval rep
      in \<lparr>sc_approved = act - no_acct, sc_unapproved = unap, sc_dying = dying, sc_no_accounting = no_acct,
          sc_total = act + unap + dying\<rparr>)"

definition fetch_counts :: "session_counts nl" where
  "fetch_counts = nl_bind (send_event [Ktype \<mapsto> VInt EVENT_SESS_GETCOUNT]) (\<lambda>rep. nl_return (counts_of rep))"

definition sess_getlist :: evdict where
  "sess_getlist = [Ktype \<mapsto> VInt EVENT_SESS_GETLIST]"

definition fetch_all :: "string list res \<Rightarrow> int \<Rightarrow> int \<Rightarrow> session_info list nl" where
  "fetch_all proc_arp limit offset =
     nl_bind (nl_lift (arp_table proc_arp)) (\<lambda>arp.
     nl_bind (get_list sess_getlist) (\<lambda>(rows, _).
       nl_lift (mapE (ev_to_info arp) (pyslice (nat offset) (nat (offset + limit)) rows))))"

text \<open>\<^verbatim>\<open>^[0-9A-Fa-f]{12}$\<close> and \<^verbatim>\<open>^[0-9A-Fa-f]{1,2}([:.\-][0-9A-Fa-f]{1,2}){5}$\<close>.\<close>

fun split_seps :: "string \<Rightarrow> string list" where
  "split_seps [] = [[]]"
| "split_seps (x # xs) =
     (if is_mac_sep x then [] # split_seps xs else (x # hd (split_seps xs)) # tl (split_seps xs))"

definition re_mac :: "string \<Rightarrow> bool" where
  "re_mac s \<longleftrightarrow> (length (chomp s) = 12 \<and> list_all is_hex (chomp s))
     \<or> (let ps = split_seps (chomp s) in
        length ps = 6 \<and> list_all (\<lambda>p. 1 \<le> length p \<and> length p \<le> 2 \<and> list_all is_hex p) ps)"

text \<open>The search loops: the first row that satisfies the test, as a description.\<close>

definition first_info :: "(string, string) odict \<Rightarrow> (nl_event \<Rightarrow> bool) \<Rightarrow> nl_event list \<Rightarrow> session_info option nl" where
  "first_info arp test rows =
     (case find test rows of
        None \<Rightarrow> nl_return None
      | Some ev \<Rightarrow> nl_lift (bindE (ev_to_info arp ev) (\<lambda>i. Inr (Some i))))"

definition find_session :: "string list res \<Rightarrow> string \<Rightarrow> session_info option nl" where
  "find_session proc_arp id_str =
     nl_bind (nl_lift (arp_table proc_arp)) (\<lambda>arp.
       if re_quad id_str then
         nl_bind (nl_lift (ip2long id_str)) (\<lambda>ip.
         nl_bind (get_list [Ktype \<mapsto> VInt EVENT_SESS_GETLIST, Kipaddr \<mapsto> VInt ip]) (\<lambda>(rows, _).
           first_info arp (\<lambda>ev. e_ipaddr ev = ip) rows))
       else
         nl_bind (get_list sess_getlist) (\<lambda>(rows, _).
           if re_hex16 id_str then
             first_info arp (\<lambda>ev. map upper_char (e_session_id ev) = map upper_char id_str) rows
           else if re_mac id_str then
             first_info arp (\<lambda>ev. norm_mac (e_macaddr ev) = norm_mac (Some id_str)) rows
           else nl_return None))"


section \<open>Updates\<close>

definition session_ev :: "session_info \<Rightarrow> evdict res" where
  "session_ev session =
     bindE (ip2long (si_ip session)) (\<lambda>ip. Inr [Kport_number \<mapsto> VInt (si_port session), Kipaddr \<mapsto> VInt ip])"

definition UINT32_MAX :: int where "UINT32_MAX = 4294967295"

text \<open>\<^verbatim>\<open>int(r * 1.5)\<close>: exact in double precision for every rate an update can hold.\<close>

definition burst_of :: "int \<Rightarrow> int" where
  "burst_of r = min (3 * r div 2) UINT32_MAX"

definition apply_rates :: "session_update \<Rightarrow> evdict \<Rightarrow> evdict" where
  "apply_rates upd ev =
     (let ev1 = (case up_in_kbps upd of None \<Rightarrow> ev
                 | Some k \<Rightarrow> ev(Kin_rate \<mapsto> VInt (k * 1000), Kin_burst \<mapsto> VInt (burst_of (k * 1000))))
      in (case up_out_kbps upd of None \<Rightarrow> ev1
          | Some k \<Rightarrow> ev1(Kout_rate \<mapsto> VInt (k * 1000), Kout_burst \<mapsto> VInt (burst_of (k * 1000)))))"

definition apply_update :: "session_info \<Rightarrow> session_update \<Rightarrow> string list nl" where
  "apply_update session upd =
     (if up_block upd = Some True then
        nl_bind (nl_lift (session_ev session)) (\<lambda>ev.
        nl_bind (send_event (ev(Ktype \<mapsto> VInt EVENT_SESS_CLEAR))) (\<lambda>_. nl_return [''block'']))
      else if up_approve upd = Some True then
        nl_bind (nl_lift (session_ev session)) (\<lambda>ev.
        nl_bind (send_only (apply_rates upd (ev(Ktype \<mapsto> VInt EVENT_SESS_APPROVE, Kflags \<mapsto> VInt 0)))) (\<lambda>_.
          nl_return [''approve'']))
      else if up_in_kbps upd \<noteq> None \<or> up_out_kbps upd \<noteq> None then
        nl_bind (nl_lift (session_ev session)) (\<lambda>ev.
        nl_bind (send_event (apply_rates upd (ev(Ktype \<mapsto> VInt EVENT_SESS_CHANGE)))) (\<lambda>_. nl_return [''rate'']))
      else nl_return [])"


section \<open>Finding a session\<close>

text \<open>What an identifier stands for: an address, a session identifier or a hardware address.\<close>

definition matches :: "string \<Rightarrow> nl_event \<Rightarrow> bool" where
  "matches id_str ev =
     (if re_quad id_str then ip2long id_str = Inr (e_ipaddr ev)
      else if re_hex16 id_str then map upper_char (e_session_id ev) = map upper_char id_str
      else re_mac id_str \<and> norm_mac (e_macaddr ev) = norm_mac (Some id_str))"

lemma first_info_Inr:
  "first_info arp test rows s = (Inr res, s') \<longleftrightarrow> s' = s \<and>
     (case find test rows of None \<Rightarrow> res = None | Some ev \<Rightarrow> \<exists>i. ev_to_info arp ev = Inr i \<and> res = Some i)"
  by (auto simp: first_info_def nl_return_def nl_lift_def bindE_eq_Inr split: option.splits)

lemma find_none: "(\<And>x. \<not> P x) \<Longrightarrow> find P xs = None"
  by (simp add: find_None_iff)

text \<open>
  A lookup answers with the description of the first listed session that the identifier stands for,
  and with nothing only if no listed session matches; an identifier of no known form finds nothing.
\<close>
theorem find_session_first_match:
  assumes "find_session proc_arp id_str s = (Inr res, s')"
  shows "\<exists>arp req rows ok. arp_table proc_arp = Inr arp \<and> req Ktype = Some (VInt EVENT_SESS_GETLIST)
    \<and> get_list req s = (Inr (rows, ok), s')
    \<and> (case find (matches id_str) rows of None \<Rightarrow> res = None | Some ev \<Rightarrow> \<exists>i. ev_to_info arp ev = Inr i \<and> res = Some i)"
proof -
  from assms obtain arp where arp: "arp_table proc_arp = Inr arp"
    by (cases "arp_table proc_arp") (simp_all add: find_session_def lift_Inr)
  show ?thesis
  proof (cases "re_quad id_str")
    case True
    with assms obtain ip rows ok where ip: "ip2long id_str = Inr ip"
      and rows: "get_list [Ktype \<mapsto> VInt EVENT_SESS_GETLIST, Kipaddr \<mapsto> VInt ip] s = (Inr (rows, ok), s')"
      and res: "case find (\<lambda>ev. e_ipaddr ev = ip) rows of None \<Rightarrow> res = None | Some ev \<Rightarrow> \<exists>i. ev_to_info arp ev = Inr i \<and> res = Some i"
      by (auto simp: find_session_def lift_Inr arp first_info_Inr elim!: bind_Inr)
    have "matches id_str = (\<lambda>ev. e_ipaddr ev = ip)" using True ip by (auto simp: matches_def fun_eq_iff)
    with arp rows res show ?thesis
      by (intro exI [of _ arp] exI [of _ "[Ktype \<mapsto> VInt EVENT_SESS_GETLIST, Kipaddr \<mapsto> VInt ip]"] exI [of _ rows] exI [of _ ok]) simp
  next
    case False
    have m: "matches id_str = (\<lambda>ev. map upper_char (e_session_id ev) = map upper_char id_str)" if "re_hex16 id_str"
      using False that by (auto simp: matches_def fun_eq_iff)
    have m': "matches id_str = (\<lambda>ev. norm_mac (e_macaddr ev) = norm_mac (Some id_str))" if "\<not> re_hex16 id_str" "re_mac id_str"
      using False that by (auto simp: matches_def fun_eq_iff)
    have m'': "find (matches id_str) rows = None" if "\<not> re_hex16 id_str" "\<not> re_mac id_str" for rows
      using False that by (simp add: matches_def find_None_iff)
    from False assms obtain rows ok where "get_list sess_getlist s = (Inr (rows, ok), s')"
      and "case find (matches id_str) rows of None \<Rightarrow> res = None | Some ev \<Rightarrow> \<exists>i. ev_to_info arp ev = Inr i \<and> res = Some i"
      by (auto simp: find_session_def return_eq arp first_info_Inr m m' m'' elim!: bind_Inr split: if_splits)
    with arp show ?thesis
      by (intro exI [of _ arp] exI [of _ sess_getlist] exI [of _ rows] exI [of _ ok]) (simp add: sess_getlist_def)
  qed
qed


section \<open>Updates\<close>

text \<open>The event of an update, if it asks for any.\<close>

definition update_event :: "session_info \<Rightarrow> int \<Rightarrow> session_update \<Rightarrow> evdict option" where
  "update_event si ip upd =
     (let key = [Kport_number \<mapsto> VInt (si_port si), Kipaddr \<mapsto> VInt ip] in
      if up_block upd = Some True then Some (key(Ktype \<mapsto> VInt EVENT_SESS_CLEAR))
      else if up_approve upd = Some True then Some (apply_rates upd (key(Ktype \<mapsto> VInt EVENT_SESS_APPROVE, Kflags \<mapsto> VInt 0)))
      else if up_in_kbps upd \<noteq> None \<or> up_out_kbps upd \<noteq> None then Some (apply_rates upd (key(Ktype \<mapsto> VInt EVENT_SESS_CHANGE)))
      else None)"

definition rate_of_kbps :: "int option \<Rightarrow> int" where
  "rate_of_kbps v = (case v of None \<Rightarrow> 0 | Some k \<Rightarrow> k * 1000)"

definition update_type :: "session_update \<Rightarrow> int" where
  "update_type upd = (if up_block upd = Some True then EVENT_SESS_CLEAR
     else if up_approve upd = Some True then EVENT_SESS_APPROVE else EVENT_SESS_CHANGE)"

lemma update_event_fields:
  assumes "update_event si ip upd = Some ev"
  shows "ev_get (blank ++ ev) Ktype d = VInt (update_type upd)" "ev_get (blank ++ ev) Kport_number d = VInt (si_port si)"
    "ev_get (blank ++ ev) Kipaddr d = VInt ip" "ev_get (blank ++ ev) Kflags d = VInt 0"
    "ev_get (blank ++ ev) Kin_rate d = VInt (if up_block upd = Some True then 0 else rate_of_kbps (up_in_kbps upd))"
    "ev_get (blank ++ ev) Kout_rate d = VInt (if up_block upd = Some True then 0 else rate_of_kbps (up_out_kbps upd))"
    "ev_get (blank ++ ev) Kin_burst d = VInt (if up_block upd = Some True then 0 else burst_of (rate_of_kbps (up_in_kbps upd)))"
    "ev_get (blank ++ ev) Kout_burst d = VInt (if up_block upd = Some True then 0 else burst_of (rate_of_kbps (up_out_kbps upd)))"
  using assms
  by (auto simp: update_event_def apply_rates_def ev_get_def map_add_def blank_def update_type_def rate_of_kbps_def
      burst_of_def UINT32_MAX_def Let_def split: option.splits if_splits)


lemma apply_update_event:
  assumes "ip2long (si_ip si) = Inr ip"
  shows "\<exists>f. apply_update si upd = (case update_event si ip upd of None \<Rightarrow> nl_return []
      | Some ev \<Rightarrow> if up_approve upd = Some True \<and> up_block upd \<noteq> Some True then nl_bind (send_only ev) (\<lambda>_. nl_return f)
                    else nl_bind (send_event ev) (\<lambda>_. nl_return f))"
  using assms by (auto simp: apply_update_def update_event_def session_ev_def Let_def)

text \<open>At most one message goes out, and it frames the event of the update.\<close>

lemma apply_update_sent:
  assumes ip: "ip2long (si_ip si) = Inr ip" and run: "apply_update si upd s = (r, s')"
  shows "new_messages s s' = [] \<or> (\<exists>ev m. update_event si ip upd = Some ev \<and> frame (sk_portid s) ev = Inr m \<and> new_messages s s' = [m])"
proof (cases "update_event si ip upd")
  case None
  with run apply_update_event [OF ip, of upd] show ?thesis by (auto simp: nl_return_def new_messages_def)
next
  case (Some ev)
  obtain f where f: "apply_update si upd = (if up_approve upd = Some True \<and> up_block upd \<noteq> Some True
      then nl_bind (send_only ev) (\<lambda>_. nl_return f) else nl_bind (send_event ev) (\<lambda>_. nl_return f))"
    using apply_update_event [OF ip, of upd] Some by auto
  have fin: "snd (nl_bind m (\<lambda>_. nl_return f) s) = snd (m s)" for m :: "'a nl" and f :: "string list"
    by (auto simp: nl_bind_def nl_return_def split: prod.splits sum.splits)
  have "\<exists>ms. sk_sent s' = sk_sent s @ ms \<and> frames_prefix (sk_portid s) [ev] ms"
    using run f fin [of "send_only ev" f] fin [of "send_event ev" f] send_event_sent [of ev s]
      send_all_prefix [of "[ev]" s, unfolded send_all_single]
    by (cases "up_approve upd = Some True \<and> up_block upd \<noteq> Some True"; clarsimp; blast)
  then obtain ms where ms: "sk_sent s' = sk_sent s @ ms" "frames_prefix (sk_portid s) [ev] ms" by blast
  then have "ms = [] \<or> (\<exists>m. ms = [m] \<and> frame (sk_portid s) ev = Inr m)"
    by (cases ms) (auto simp: frames_prefix_def list_all2_Cons2)
  with Some new_messages_eq [OF ms(1)] show ?thesis by auto
qed

text \<open>
  C23: an update sends at most one event, addressed to the port and address of the session that was
  found; blocking takes precedence over approving and approving over a rate change, and the kernel reads
  in it exactly the requested rates in bits per second with a burst of one and a half of them, capped at
  what its field holds.
\<close>
theorem update_reaches_session:
  assumes "ip2long (si_ip si) = Inr ip" "apply_update si upd s = (r, s')" "m \<in> set (new_messages s s')"
  shows "new_messages s s' = [m] \<and> (\<exists>k. kernel_in_read (drop 16 m) = k \<and> ki_type k = update_type upd
    \<and> ki_port_number k = si_port si \<and> ki_ipaddr k = ip \<and> ki_flags k = 0
    \<and> (up_block upd \<noteq> Some True \<longrightarrow> ki_rate0 k = rate_of_kbps (up_in_kbps upd) \<and> ki_rate1 k = rate_of_kbps (up_out_kbps upd)
        \<and> ki_burst0 k = min (3 * ki_rate0 k div 2) (2 ^ 32 - 1) \<and> ki_burst1 k = min (3 * ki_rate1 k div 2) (2 ^ 32 - 1)))"
proof -
  from apply_update_sent [OF assms(1,2)] assms(3) obtain ev where
    ev: "update_event si ip upd = Some ev" "frame (sk_portid s) ev = Inr m" "new_messages s s' = [m]" by auto
  have ty: "ev_type (blank ++ ev) = VInt (update_type upd)" by (simp add: ev_type_def update_event_fields(1) [OF ev(1)])
  have "kernel_in_read (drop 16 m) = kernel_in_of (blank ++ ev)"
    using frame_session [OF ev(2)] ty by (simp add: update_type_def event_codes split: if_splits)
  then show ?thesis using ev(3) by (simp add: kernel_in_of_def update_event_fields [OF ev(1)] burst_of_def UINT32_MAX_def)
qed

text \<open>
  An update within the declared bounds always fits the kernel's fields: the event of any update of
  a session that the kernel listed can be packed, so that a rate never raises a packing error.
\<close>
theorem valid_update_fits:
  assumes "valid_update upd" "ev_to_info arp row = Inr si" "0 \<le> e_port_number row" "e_port_number row < 2 ^ 32"
    and "update_event si (e_ipaddr row) upd = Some ev" "0 \<le> port" "port < 2 ^ 32"
  shows "ip2long (si_ip si) = Inr (e_ipaddr row) \<and> (\<exists>m. frame port ev = Inr m)"
proof -
  obtain ip where ip: "long2ip (e_ipaddr row) = Inr ip" "si_ip si = ip" "si_port si = e_port_number row"
    using assms(2) by (auto simp: ev_to_info_def bindE_eq_Inr)
  then have r: "0 \<le> e_ipaddr row" "e_ipaddr row < 256 ^ 4" by (auto simp: long2ip_def bindE_eq_Inr pack_be_def split: if_splits)
  then have "ip2long ip = Inr (e_ipaddr row)" using ip2long_long2ip [of "e_ipaddr row"] ip(1) by simp
  moreover have "session_fits (blank ++ ev)"
  proof -
    have k: "0 \<le> rate_of_kbps v" "rate_of_kbps v < 2 ^ 32" "0 \<le> burst_of (rate_of_kbps v)" "burst_of (rate_of_kbps v) < 2 ^ 32" if "kbps_ok v" for v
      using that by (auto simp: kbps_ok_def rate_of_kbps_def burst_of_def UINT32_MAX_def split: option.splits)
    have other: "ev_get (blank ++ ev) x d = VInt 0" if "x \<in> {Knat_ipaddr, Kalive_interval, Kidle_timeout, Kmax_duration, Kflags_op}" for x d
      using that assms(5) by (auto simp: update_event_def apply_rates_def ev_get_def map_add_def blank_def Let_def split: if_splits option.splits)
    have txt_ok: "ev_get (blank ++ ev) x d \<noteq> VNone" if "x \<in> {Ksession_id, Kcookie, Kservice_name}" for x d
      using that assms(5) by (auto simp: update_event_def apply_rates_def ev_get_def map_add_def blank_def Let_def split: if_splits option.splits)
    show ?thesis
      using assms(1,3,4) r ip(3) k [of "up_in_kbps upd"] k [of "up_out_kbps upd"]
      by (simp add: session_fits_def update_event_fields [OF assms(5)] other txt_ok valid_update_def update_type_def event_codes)
  qed
  moreover have "ev_type (blank ++ ev) = VInt (update_type upd)" by (simp add: ev_type_def update_event_fields(1) [OF assms(5)])
  ultimately show ?thesis
    using frame_ok [OF assms(6,7), of ev] ip(2) by (auto simp: update_type_def event_codes split: if_splits)
qed

text \<open>
  A change of one rate only removes the limit of the other direction: its rate reaches the kernel
  as zero, which the kernel takes for unlimited.
\<close>
theorem partial_update_lifts_other_limit:
  assumes "ip2long (si_ip si) = Inr ip" "apply_update si \<lparr>up_in_kbps = Some k, up_out_kbps = None, up_approve = None, up_block = None\<rparr> s = (r, s')"
    and "m \<in> set (new_messages s s')"
  shows "ki_type (kernel_in_read (drop 16 m)) = EVENT_SESS_CHANGE \<and> ki_rate1 (kernel_in_read (drop 16 m)) = 0"
proof -
  let ?upd = "\<lparr>up_in_kbps = Some k, up_out_kbps = None, up_approve = None, up_block = None\<rparr>"
  from apply_update_sent [OF assms(1,2)] assms(3) obtain ev where ev: "update_event si ip ?upd = Some ev" "frame (sk_portid s) ev = Inr m" by auto
  have ty: "ev_type (blank ++ ev) = VInt EVENT_SESS_CHANGE" by (simp add: ev_type_def update_event_fields(1) [OF ev(1)] update_type_def)
  then have "kernel_in_read (drop 16 m) = kernel_in_of (blank ++ ev)" using frame_session [OF ev(2)] by (simp add: event_codes)
  then show ?thesis by (simp add: kernel_in_of_def update_event_fields [OF ev(1)] update_type_def rate_of_kbps_def)
qed

section \<open>Counters\<close>

text \<open>
  The counters of the kernel, which it writes in host order into the address fields of its reply
  and which may be negative on a single CPU, are read back exactly.
\<close>
theorem counter_roundtrip:
  assumes "- (2 ^ 31) \<le> c" "c < 2 ^ 31"
  shows "s32 (ntohl (be_val (le_bytes 4 c))) = c"
proof -
  have swap: "be_val (le_bytes 4 (be_val bs)) = le_val bs" if "length bs = 4" for bs
    using that le_bytes_le_val [of "rev bs"] by (simp add: be_val_def)
  have "0 \<le> be_val (le_bytes 4 c)" "be_val (le_bytes 4 c) < 2 ^ 32" using be_val_bounds [of "le_bytes 4 c"] by simp_all
  then have "be_val (le_bytes 4 c) AND 0xFFFFFFFF = be_val (le_bytes 4 c)"
    by (simp add: and_mask32)
  then have "ntohl (be_val (le_bytes 4 c)) = c mod 2 ^ 32"
    by (simp add: ntohl_def swap le_val_le_bytes)
  moreover have "c mod 2 ^ 32 = (if c < 0 then c + 2 ^ 32 else c)"
    using assms mod_pos_pos_trivial [of "c + 2 ^ 32" "2 ^ 32"] by auto
  ultimately show ?thesis using assms by (simp add: s32_def)
qed


theorem counter_roundtrip_witness: "s32 (ntohl (be_val (le_bytes 4 (- 7)))) = - 7"
  by (rule counter_roundtrip) simp_all


section \<open>A listed session\<close>

definition api_socket :: nlsock where
  "api_socket = open_socket 77 1 [] [datagram [sample_msg 0 1], done_datagram (sample_hdr NLMSG_DONE)]"

definition listed_request :: evdict where
  "listed_request = [Ktype \<mapsto> VInt EVENT_SESS_GETLIST, Kipaddr \<mapsto> VInt 1]"

lemma listed_rows: "\<exists>s'. get_list listed_request api_socket = (Inr ([kernel_msg_event (sample_msg 0 1)], True), s')"
proof -
  have "\<exists>m. frame 77 listed_request = Inr m"
    by (rule frame_ok) (simp_all add: listed_request_def ev_type_def ev_get_def event_codes session_fits_def blank_def)
  then obtain m where m: "frame (sk_portid api_socket) listed_request = Inr m" by (auto simp: api_socket_def open_socket_def sk_portid_def)
  have "list_loop [datagram [sample_msg 0 1], done_datagram (sample_hdr NLMSG_DONE)] [] = (Inr ([kernel_msg_event (sample_msg 0 1)], True), [])"
    using list_loop_stream [of "[[sample_msg 0 1]]" "sample_hdr NLMSG_DONE" "[]" "[]"]
    by (simp add: group_ok_def sample_msg_ok sample_msg_event hdr_ok_def sample_hdr_def NLMSG_DONE_def)
  then show ?thesis using send_only_ok [OF _ m] by (simp add: get_list_def nl_bind_def api_socket_def open_socket_def)
qed

lemma listed_address: "e_ipaddr (kernel_msg_event (sample_msg 0 1)) = 1" "e_nat_ipaddr (kernel_msg_event (sample_msg 0 1)) = 0"
  "e_port_number (kernel_msg_event (sample_msg 0 1)) = 3" "long2ip 1 = Inr ''0.0.0.1''" "ip2long ''0.0.0.1'' = Inr 1" "re_quad ''0.0.0.1''"
proof -
  show l: "long2ip 1 = Inr ''0.0.0.1''" "re_quad ''0.0.0.1''" by code_simp+
  with ip2long_long2ip [of 1] show "ip2long ''0.0.0.1'' = Inr 1" by simp
qed (simp_all add: kernel_msg_event_def with_hdr_def isg_event.defs nl_event.defs event_of_def sample_msg_def sample_out_def)

lemma listed_info: "\<exists>si. ev_to_info [] (kernel_msg_event (sample_msg 0 1)) = Inr si \<and> si_ip si = ''0.0.0.1'' \<and> si_port si = 3"
  by (simp add: ev_to_info_def listed_address)

theorem find_session_first_match_witness:
  "\<exists>si s'. find_session (Inl OSError) ''0.0.0.1'' api_socket = (Inr (Some si), s') \<and> si_ip si = ''0.0.0.1''"
proof -
  obtain s' where rows: "get_list listed_request api_socket = (Inr ([kernel_msg_event (sample_msg 0 1)], True), s')" using listed_rows ..
  obtain si where si: "ev_to_info [] (kernel_msg_event (sample_msg 0 1)) = Inr si" "si_ip si = ''0.0.0.1''" using listed_info by blast
  have run: "find_session (Inl OSError) ''0.0.0.1'' api_socket = (Inr (Some si), s')"
    using rows si by (simp add: find_session_def arp_table_def listed_address nl_bind_def listed_request_def first_info_def nl_lift_def)
  from find_session_first_match [OF run] si run show ?thesis by blast
qed

definition sample_session :: session_info where
  "sample_session = \<lparr>si_session_id = ''0000000000000001'', si_ip = ''0.0.0.1'', si_nat_ip = None, si_mac = None, si_port = 3,
     si_duration = 0, si_in_bytes = 0, si_out_bytes = 0, si_in_packets = 0, si_out_packets = 0, si_in_rate = 0, si_out_rate = 0,
     si_in_burst = 0, si_out_burst = 0, si_alive_interval = 0, si_idle_timeout = 0, si_max_duration = 0,
     si_flags = decode_flags 1, si_service_name = None, si_parent_session_id = None\<rparr>"

definition upload_only :: session_update where
  "upload_only = \<lparr>up_in_kbps = Some 4000000, up_out_kbps = None, up_approve = None, up_block = None\<rparr>"

theorem valid_update_fits_witness:
  "\<exists>si ev m. ev_to_info [] (kernel_msg_event (sample_msg 0 1)) = Inr si \<and> update_event si 1 upload_only = Some ev \<and> frame 77 ev = Inr m"
proof -
  obtain si where si: "ev_to_info [] (kernel_msg_event (sample_msg 0 1)) = Inr si" using listed_info by blast
  obtain ev where ev: "update_event si (e_ipaddr (kernel_msg_event (sample_msg 0 1))) upload_only = Some ev"
    by (auto simp: update_event_def upload_only_def Let_def)
  have "valid_update upload_only" by (simp add: valid_update_def upload_only_def kbps_ok_def)
  from valid_update_fits [OF this si _ _ ev, of 77] show ?thesis using si ev by (auto simp: listed_address)
qed

lemma upload_sent: "\<exists>r s' m. apply_update sample_session upload_only (open_socket 77 1 [] []) = (r, s') \<and> new_messages (open_socket 77 1 [] []) s' = [m]"
proof -
  let ?ev = "apply_rates upload_only [Kport_number \<mapsto> VInt 3, Kipaddr \<mapsto> VInt 1, Ktype \<mapsto> VInt EVENT_SESS_CHANGE]"
  have "\<exists>m. frame 77 ?ev = Inr m"
    by (rule frame_ok) (simp_all add: ev_type_def ev_get_def event_codes session_fits_def blank_def apply_rates_def upload_only_def burst_of_def UINT32_MAX_def)
  then obtain m where m: "frame (sk_portid (open_socket 77 1 [] [])) ?ev = Inr m" by (auto simp: open_socket_def sk_portid_def)
  have "send_only ?ev (open_socket 77 1 [] []) = (Inr (), (open_socket 77 1 [] [])\<lparr>sk_sent := [m]\<rparr>)"
    by (subst send_only_ok [OF _ m]) (simp_all add: open_socket_def)
  then have "apply_update sample_session upload_only (open_socket 77 1 [] []) = (Inl SocketTimeout, (open_socket 77 1 [] [])\<lparr>sk_sent := [m]\<rparr>)"
    by (simp add: apply_update_def upload_only_def session_ev_def sample_session_def listed_address send_event_def nl_bind_def nl_recv.simps nl_lift_def open_socket_def)
  then show ?thesis by (simp add: new_messages_def open_socket_def)
qed

theorem update_reaches_session_witness:
  "\<exists>m. ki_port_number (kernel_in_read (drop 16 m)) = 3 \<and> ki_rate0 (kernel_in_read (drop 16 m)) = 4000000000
    \<and> ki_burst0 (kernel_in_read (drop 16 m)) = 4294967295"
proof -
  obtain r s' m where run: "apply_update sample_session upload_only (open_socket 77 1 [] []) = (r, s')"
    and m: "m \<in> set (new_messages (open_socket 77 1 [] []) s')" using upload_sent by fastforce
  have ip: "ip2long (si_ip sample_session) = Inr 1" by (simp add: sample_session_def listed_address)
  from update_reaches_session [OF ip run m] show ?thesis
    by (auto simp: upload_only_def rate_of_kbps_def sample_session_def)
qed

theorem partial_update_lifts_other_limit_witness:
  "\<exists>m. ki_type (kernel_in_read (drop 16 m)) = EVENT_SESS_CHANGE \<and> ki_rate1 (kernel_in_read (drop 16 m)) = 0"
proof -
  obtain r s' m where run: "apply_update sample_session upload_only (open_socket 77 1 [] []) = (r, s')"
    and m: "m \<in> set (new_messages (open_socket 77 1 [] []) s')" using upload_sent by fastforce
  have ip: "ip2long (si_ip sample_session) = Inr 1" by (simp add: sample_session_def listed_address)
  from partial_update_lifts_other_limit [OF ip run [unfolded upload_only_def] m] show ?thesis by blast
qed

end
