(* ===== verification/Md5.thy ===== *)
theory Md5
  imports Py_Prelude
begin

unbundle bit_operations_syntax

text \<open>
  \<^verbatim>\<open>hashlib.md5\<close> and \<^verbatim>\<open>hmac.new(key, msg, hashlib.md5)\<close> (RFC 1321, RFC 2104), which the program uses
  for dynamic service names, the RADIUS authenticators, the password obfuscation and the checksum of
  the traffic-class file. The definitions compute; the theorems about their callers use no more than
  the length of a digest.
\<close>

definition md5_s :: "nat list" where
  "md5_s = concat (replicate 4 [7, 12, 17, 22]) @ concat (replicate 4 [5, 9, 14, 20])
     @ concat (replicate 4 [4, 11, 16, 23]) @ concat (replicate 4 [6, 10, 15, 21])"

definition md5_k :: "32 word list" where
  "md5_k = [
     0xd76aa478, 0xe8c7b756, 0x242070db, 0xc1bdceee, 0xf57c0faf, 0x4787c62a,
     0xa8304613, 0xfd469501, 0x698098d8, 0x8b44f7af, 0xffff5bb1, 0x895cd7be,
     0x6b901122, 0xfd987193, 0xa679438e, 0x49b40821, 0xf61e2562, 0xc040b340,
     0x265e5a51, 0xe9b6c7aa, 0xd62f105d, 0x02441453, 0xd8a1e681, 0xe7d3fbc8,
     0x21e1cde6, 0xc33707d6, 0xf4d50d87, 0x455a14ed, 0xa9e3e905, 0xfcefa3f8,
     0x676f02d9, 0x8d2a4c8a, 0xfffa3942, 0x8771f681, 0x6d9d6122, 0xfde5380c,
     0xa4beea44, 0x4bdecfa9, 0xf6bb4b60, 0xbebfbc70, 0x289b7ec6, 0xeaa127fa,
     0xd4ef3085, 0x04881d05, 0xd9d4d039, 0xe6db99e5, 0x1fa27cf8, 0xc4ac5665,
     0xf4292244, 0x432aff97, 0xab9423a7, 0xfc93a039, 0x655b59c3, 0x8f0ccc92,
     0xffeff47d, 0x85845dd1, 0x6fa87e4f, 0xfe2ce6e0, 0xa3014314, 0x4e0811a1,
     0xf7537e82, 0xbd3af235, 0x2ad7d2bb, 0xeb86d391]"

type_synonym md5_state = "32 word \<times> 32 word \<times> 32 word \<times> 32 word"

definition md5_init :: md5_state where
  "md5_init = (0x67452301, 0xefcdab89, 0x98badcfe, 0x10325476)"

definition md5_mix :: "nat \<Rightarrow> 32 word \<Rightarrow> 32 word \<Rightarrow> 32 word \<Rightarrow> 32 word \<times> nat" where
  "md5_mix i b c d =
     (if i < 16 then ((b AND c) OR (NOT b AND d), i)
      else if i < 32 then ((d AND b) OR (NOT d AND c), (5 * i + 1) mod 16)
      else if i < 48 then (b XOR c XOR d, (3 * i + 5) mod 16)
      else (c XOR (b OR NOT d), (7 * i) mod 16))"

definition md5_step :: "32 word list \<Rightarrow> md5_state \<Rightarrow> nat \<Rightarrow> md5_state" where
  "md5_step ws st i =
     (let (a, b, c, d) = st; (f, g) = md5_mix i b c d
      in (d, b + word_rotl (md5_s ! i) (f + a + md5_k ! i + ws ! g), b, c))"

definition md5_words :: "bytes \<Rightarrow> 32 word list" where
  "md5_words block = map (\<lambda>i. word_of_int (le_val (pyslice (4 * i) (4 * i + 4) block))) [0..<16]"

definition md5_block :: "md5_state \<Rightarrow> bytes \<Rightarrow> md5_state" where
  "md5_block st block =
     (let (a, b, c, d) = st; (a', b', c', d') = foldl (md5_step (md5_words block)) st [0..<64]
      in (a + a', b + b', c + c', d + d'))"

definition md5_pad :: "bytes \<Rightarrow> bytes" where
  "md5_pad msg = msg @ [0x80] @ zeros ((119 - length msg mod 64) mod 64)
     @ le_bytes 8 (8 * int (length msg))"

definition md5_blocks :: "bytes \<Rightarrow> bytes list" where
  "md5_blocks padded = map (\<lambda>i. pyslice (64 * i) (64 * i + 64) padded) [0..<length padded div 64]"

definition md5 :: "bytes \<Rightarrow> bytes" where
  "md5 msg =
     (let (a, b, c, d) = foldl md5_block md5_init (md5_blocks (md5_pad msg))
      in concat (map (\<lambda>w. le_bytes 4 (uint w)) [a, b, c, d]))"

lemma length_md5 [simp]: "length (md5 msg) = 16"
  by (simp add: md5_def split: prod.splits)

lemma md5_pad_blocks: "64 dvd length (md5_pad msg)"
proof -
  define r where "r = length msg mod 64"
  define z where "z = (119 - r) mod 64"
  have "r < 64" by (simp add: r_def)
  then have "z = (if r \<le> 55 then 55 - r else 119 - r)"
    by (simp add: z_def mod_if)
  with \<open>r < 64\<close> have "r + 9 + z = 64 \<or> r + 9 + z = 128" by auto
  then have "64 dvd r + 9 + z" by (elim disjE) (simp_all only:, simp_all)
  moreover have "length (md5_pad msg) = 64 * (length msg div 64) + (r + 9 + z)"
    using mult_div_mod_eq [of 64 "length msg"] by (simp add: md5_pad_def r_def z_def)
  ultimately show ?thesis by simp
qed

text \<open>HMAC with a 64-byte block.\<close>

definition xor_bytes :: "bytes \<Rightarrow> bytes \<Rightarrow> bytes" where
  "xor_bytes xs ys = map2 (XOR) xs ys"

lemma length_xor_bytes [simp]: "length (xor_bytes xs ys) = min (length xs) (length ys)"
  by (simp add: xor_bytes_def)

lemma xor_cancel: "x XOR (x XOR y) = y" for x y :: byte
  by (rule bit_eqI) (auto simp: bit_simps)

lemma xor_bytes_cancel: "length ys \<le> length xs \<Longrightarrow> xor_bytes xs (xor_bytes xs ys) = ys"
  unfolding xor_bytes_def
proof (induction ys arbitrary: xs)
  case (Cons y ys)
  then show ?case by (cases xs) (auto simp: xor_cancel)
qed simp

definition hmac_md5 :: "bytes \<Rightarrow> bytes \<Rightarrow> bytes" where
  "hmac_md5 key msg =
     (let k0 = (if 64 < length key then md5 key else key);
          k = k0 @ zeros (64 - length k0)
      in md5 (xor_bytes (replicate 64 0x5c) k @ md5 (xor_bytes (replicate 64 0x36) k @ msg)))"

lemma length_hmac_md5 [simp]: "length (hmac_md5 key msg) = 16"
  by (simp add: hmac_md5_def Let_def)

end
