(* ===== verification/Backend_Base.thy ===== *)
theory Backend_Base
  imports Nl_Trace Md5
begin

text \<open>
  The backend interface of \<^verbatim>\<open>app/src/backends/base.py\<close>: the normalised authentication result, the
  parser of Cisco-Account-Info values that every backend shares, the sliding-window rate counter and
  the statistics with the circuit breaker. A reading of \<^verbatim>\<open>time.monotonic()\<close> is an argument, one for
  every call the code makes; times are rational numbers, and \<^verbatim>\<open>round(x, n)\<close> rounds the exact value.
\<close>

section \<open>Authentication results\<close>

record dynamic_service =
  ds_name :: string
  ds_traffic_class :: string
  ds_rate_info :: string

record auth_result =
  ar_accept :: bool
  ar_nat_ip :: "string option"
  ar_alive_interval :: "int option"
  ar_max_duration :: "int option"
  ar_idle_timeout :: "int option"
  ar_cookie :: "string option"
  ar_no_accounting :: bool
  ar_rate_info :: "int list"
  ar_services :: "(string, string) odict"
  ar_dynamic_services :: "dynamic_service list"

definition new_auth_result :: "bool \<Rightarrow> auth_result" where
  "new_auth_result accept = \<lparr>ar_accept = accept, ar_nat_ip = None, ar_alive_interval = None,
     ar_max_duration = None, ar_idle_timeout = None, ar_cookie = None, ar_no_accounting = False,
     ar_rate_info = [], ar_services = [], ar_dynamic_services = []\<rparr>"

text \<open>
  \<^verbatim>\<open>re.match(r'^(A|N)(.+)', val)\<close>: the letter and the rest of the line.
\<close>

definition match_service :: "string \<Rightarrow> (string \<times> string) option" where
  "match_service val =
     (case val of [] \<Rightarrow> None
      | c # rest \<Rightarrow>
          let name = takeWhile (\<lambda>x. x \<noteq> CHR 0x0A) rest in
          if (c = CHR ''A'' \<or> c = CHR ''N'') \<and> name \<noteq> [] then Some ([c], name) else None)"

text \<open>\<^verbatim>\<open>re.match(r'^QC;', val, re.I)\<close> and \<^verbatim>\<open>re.match(r'^QC;([^;]+)', val, re.I)\<close>.\<close>

definition is_qc :: "string \<Rightarrow> bool" where
  "is_qc val \<longleftrightarrow> map upper_char (take 3 val) = ''QC;''"

definition qc_class :: "string \<Rightarrow> string" where
  "qc_class val = takeWhile (\<lambda>x. x \<noteq> CHR '';'') (drop 3 val)"

definition dyn_name :: "string \<Rightarrow> string" where
  "dyn_name val = ''DYN_'' @ map upper_char (take 16 (bytes_hex (md5 (encode val))))"

definition apply_one :: "auth_result \<Rightarrow> string \<Rightarrow> auth_result" where
  "apply_one result raw =
     (let val = strip raw in
      if val = [] then result
      else case match_service val of
        Some (status, name) \<Rightarrow> result\<lparr>ar_services := AList.update name status (ar_services result)\<rparr>
      | None \<Rightarrow>
          if is_qc val then
            if qc_class val \<noteq> [] then
              result\<lparr>ar_dynamic_services := ar_dynamic_services result
                @ [\<lparr>ds_name = dyn_name val, ds_traffic_class = qc_class val, ds_rate_info = val\<rparr>]\<rparr>
            else result
          else if upper_char (hd val) = CHR ''Q'' then
            let parsed = parse_qos val in
            if length parsed = 4 then result\<lparr>ar_rate_info := parsed\<rparr> else result
          else result)"

definition apply_account_info :: "auth_result \<Rightarrow> string list \<Rightarrow> auth_result" where
  "apply_account_info result values = foldl apply_one result values"

text \<open>
  What the session server may rely on of a result, whatever the backend got as values.
\<close>

definition auth_result_wf :: "auth_result \<Rightarrow> bool" where
  "auth_result_wf r \<longleftrightarrow> wf_request (ar_services r)
     \<and> list_all (\<lambda>(n, s). s = ''A'' \<or> s = ''N'') (ar_services r)
     \<and> list_all (\<lambda>d. ds_name d \<noteq> [] \<and> ds_traffic_class d \<noteq> []) (ar_dynamic_services r)
     \<and> (ar_rate_info r = [] \<or> length (ar_rate_info r) = 4)
     \<and> list_all (\<lambda>n. 0 \<le> n) (ar_rate_info r)"

lemma match_service_Some:
  "match_service val = Some (st, n) \<Longrightarrow> n \<noteq> [] \<and> (st = ''A'' \<or> st = ''N'')"
  by (auto simp: match_service_def Let_def split: list.splits if_splits)

lemma update_request:
  assumes "wf_request d" "n \<noteq> []"
  shows "wf_request (AList.update n v d)"
  using assms by (auto simp: wf_request_def distinct_update map_fst_update)

lemma update_statuses:
  "wf_request d \<Longrightarrow> list_all (\<lambda>(n, s). s = ''A'' \<or> s = ''N'') d \<Longrightarrow> v = ''A'' \<or> v = ''N'' \<Longrightarrow>
   list_all (\<lambda>(n, s). s = ''A'' \<or> s = ''N'') (AList.update n v d)"
  by (auto simp: list_all_iff wf_request_def od.mem_items_put split: if_splits)

lemma dyn_name_nonempty [simp]: "dyn_name val \<noteq> []"
  by (simp add: dyn_name_def)

lemma apply_one_wf: "auth_result_wf r \<Longrightarrow> auth_result_wf (apply_one r raw)"
  using parse_qos_nonneg [of "strip raw"]
  by (auto simp: auth_result_wf_def apply_one_def Let_def update_request update_statuses
      dest!: match_service_Some split: option.split)

lemma apply_account_info_wf: "auth_result_wf r \<Longrightarrow> auth_result_wf (apply_account_info r values)"
  unfolding apply_account_info_def by (induction "values" arbitrary: r) (auto intro: apply_one_wf)

lemma new_auth_result_wf: "auth_result_wf (new_auth_result a)"
  by (simp add: auth_result_wf_def new_auth_result_def wf_request_def)

text \<open>
  The same parser as a specification without state: every value is one of four kinds, the last
  activation or deactivation of a name wins, the last complete rate wins, and the dynamic services
  are kept in order.
\<close>

datatype account_info = AService string string | ADynamic dynamic_service | ARate "int list" | ANothing

definition classify :: "string \<Rightarrow> account_info" where
  "classify raw =
     (let val = strip raw in
      case match_service val of
        Some (status, name) \<Rightarrow> AService name status
      | None \<Rightarrow>
          if is_qc val \<and> qc_class val \<noteq> [] then
            ADynamic \<lparr>ds_name = dyn_name val, ds_traffic_class = qc_class val, ds_rate_info = val\<rparr>
          else if val \<noteq> [] \<and> \<not> is_qc val \<and> upper_char (hd val) = CHR ''Q'' \<and> length (parse_qos val) = 4
          then ARate (parse_qos val) else ANothing)"

fun service_of :: "account_info \<Rightarrow> (string \<times> string) option" where
  "service_of (AService n s) = Some (n, s)" | "service_of _ = None"

fun dynamic_of :: "account_info \<Rightarrow> dynamic_service option" where
  "dynamic_of (ADynamic d) = Some d" | "dynamic_of _ = None"

fun rate_of :: "account_info \<Rightarrow> int list option" where
  "rate_of (ARate r) = Some r" | "rate_of _ = None"

lemma apply_one_classify:
  "apply_one r raw =
     (case classify raw of
        AService n s \<Rightarrow> r\<lparr>ar_services := AList.update n s (ar_services r)\<rparr>
      | ADynamic d \<Rightarrow> r\<lparr>ar_dynamic_services := ar_dynamic_services r @ [d]\<rparr>
      | ARate q \<Rightarrow> r\<lparr>ar_rate_info := q\<rparr>
      | ANothing \<Rightarrow> r)"
  by (auto simp: apply_one_def classify_def Let_def match_service_def is_qc_def split: option.split)

lemma apply_account_info_services:
  "map_of (ar_services (apply_account_info r vs)) =
     map_of (ar_services r) ++ map_of (rev (List.map_filter (\<lambda>v. service_of (classify v)) vs))"
proof (induction vs arbitrary: r)
  case Nil
  show ?case by (simp add: apply_account_info_def)
next
  case (Cons v vs)
  have "map_of (ar_services (apply_one r v)) = map_of (ar_services r) ++ map_of (List.map_filter (\<lambda>v. service_of (classify v)) [v])"
    by (cases "classify v") (auto simp: apply_one_classify update_conv' map_filter_simps)
  with Cons [of "apply_one r v"] show ?case
    by (cases "service_of (classify v)") (auto simp: apply_account_info_def map_filter_simps map_add_def fun_eq_iff split: option.splits)
qed

lemma apply_account_info_dynamic:
  "ar_dynamic_services (apply_account_info r vs) =
     ar_dynamic_services r @ List.map_filter (\<lambda>v. dynamic_of (classify v)) vs"
proof (induction vs arbitrary: r)
  case Nil
  show ?case by (simp add: apply_account_info_def)
next
  case (Cons v vs)
  then show ?case using Cons [of "apply_one r v"]
    by (cases "classify v") (auto simp: apply_account_info_def apply_one_classify map_filter_simps)
qed

lemma apply_account_info_rate:
  "ar_rate_info (apply_account_info r vs) =
     last (ar_rate_info r # List.map_filter (\<lambda>v. rate_of (classify v)) vs)"
proof (induction vs arbitrary: r)
  case Nil
  show ?case by (simp add: apply_account_info_def)
next
  case (Cons v vs)
  then show ?case using Cons [of "apply_one r v"]
    by (cases "classify v") (auto simp: apply_account_info_def apply_one_classify map_filter_simps)
qed

lemma apply_account_info_other:
  "ar_accept (apply_account_info r vs) = ar_accept r \<and> ar_nat_ip (apply_account_info r vs) = ar_nat_ip r
   \<and> ar_cookie (apply_account_info r vs) = ar_cookie r
   \<and> ar_no_accounting (apply_account_info r vs) = ar_no_accounting r"
proof (induction vs arbitrary: r)
  case Nil
  show ?case by (simp add: apply_account_info_def)
next
  case (Cons v vs)
  then show ?case using Cons [of "apply_one r v"]
    by (cases "classify v") (auto simp: apply_account_info_def apply_one_classify)
qed


section \<open>The rate counter\<close>

record rate_counter =
  rc_curr :: int
  rc_prev :: int
  rc_ts :: rat

definition new_rate_counter :: rate_counter where
  "new_rate_counter = \<lparr>rc_curr = 0, rc_prev = 0, rc_ts = 0\<rparr>"

definition RATE_WINDOW :: rat where
  "RATE_WINDOW = 60"

definition tick :: "rat \<Rightarrow> rate_counter \<Rightarrow> rate_counter" where
  "tick now c =
     (let c1 = (if rc_ts c = 0 then c\<lparr>rc_ts := now\<rparr>
                else if RATE_WINDOW \<le> now - rc_ts c then c\<lparr>rc_prev := rc_curr c, rc_curr := 0, rc_ts := now\<rparr>
                else c)
      in c1\<lparr>rc_curr := rc_curr c1 + 1\<rparr>)"

text \<open>\<^verbatim>\<open>round(x, n)\<close>: half to even.\<close>

definition round_half_even :: "rat \<Rightarrow> int" where
  "round_half_even x =
     (let f = floor x; d = x - of_int f in
      if d < 1 / 2 then f else if 1 / 2 < d then f + 1 else if even f then f else f + 1)"

definition py_round :: "nat \<Rightarrow> rat \<Rightarrow> rat" where
  "py_round n x = of_int (round_half_even (x * 10 ^ n)) / 10 ^ n"

definition rate_value :: "rat \<Rightarrow> rate_counter \<Rightarrow> rat" where
  "rate_value now c =
     (if rc_ts c = 0 then 0
      else let elapsed_curr = min (now - rc_ts c) RATE_WINDOW;
               prev_weight = 1 - elapsed_curr / RATE_WINDOW
           in py_round 2 ((of_int (rc_prev c) * prev_weight + of_int (rc_curr c)) / RATE_WINDOW))"


section \<open>Statistics and the circuit breaker\<close>

definition CB_THRESHOLD :: int where "CB_THRESHOLD = 3"
definition CB_PENALTY :: rat where "CB_PENALTY = 30"

record backend =
  b_label :: string
  b_ok_count :: int
  b_err_count :: int
  b_last_ok_t :: rat
  b_last_err_t :: rat
  b_consec_err :: int
  b_open_until :: rat
  b_ok_rate :: rate_counter
  b_err_rate :: rate_counter
  b_total_rate :: rate_counter

definition new_backend :: backend where
  "new_backend = \<lparr>b_label = [], b_ok_count = 0, b_err_count = 0, b_last_ok_t = 0, b_last_err_t = 0,
     b_consec_err = 0, b_open_until = 0, b_ok_rate = new_rate_counter, b_err_rate = new_rate_counter,
     b_total_rate = new_rate_counter\<rparr>"

text \<open>The three clock readings of \<^verbatim>\<open>_record\<close>: its own, the total counter's and the own counter's.\<close>

record clock =
  ck_now :: rat
  ck_total :: rat
  ck_own :: rat

definition record_call :: "bool \<Rightarrow> clock \<Rightarrow> backend \<Rightarrow> backend" where
  "record_call success ck b =
     (let now = ck_now ck;
          b1 = b\<lparr>b_total_rate := tick (ck_total ck) (b_total_rate b)\<rparr>
      in if success then
           b1\<lparr>b_ok_count := b_ok_count b1 + 1, b_last_ok_t := now, b_consec_err := 0,
              b_ok_rate := tick (ck_own ck) (b_ok_rate b1)\<rparr>
         else
           let b2 = b1\<lparr>b_err_count := b_err_count b1 + 1, b_last_err_t := now,
                       b_consec_err := b_consec_err b1 + 1, b_err_rate := tick (ck_own ck) (b_err_rate b1)\<rparr>
           in if CB_THRESHOLD \<le> b_consec_err b2 then b2\<lparr>b_open_until := now + CB_PENALTY\<rparr> else b2)"

definition record_ok :: "clock \<Rightarrow> backend \<Rightarrow> backend" where
  "record_ok = record_call True"

definition record_err :: "clock \<Rightarrow> backend \<Rightarrow> backend" where
  "record_err = record_call False"

definition is_circuit_open :: "rat \<Rightarrow> backend \<Rightarrow> bool \<times> backend" where
  "is_circuit_open now b =
     (let b' = (if b_open_until b \<noteq> 0 \<and> b_open_until b \<le> now
                then b\<lparr>b_open_until := 0, b_consec_err := 0\<rparr> else b)
      in (0 < b_open_until b', b'))"

record backend_stats =
  bs_label :: string
  bs_ok :: int
  bs_err :: int
  bs_success_rate :: rat
  bs_error_rate :: rat
  bs_total_rate :: rat
  bs_last_ok_ago :: "rat option"
  bs_last_err_ago :: "rat option"
  bs_circuit_open :: bool
  bs_circuit_open_for :: "rat option"

definition get_stats :: "rat \<Rightarrow> rat \<Rightarrow> rat \<Rightarrow> rat \<Rightarrow> backend \<Rightarrow> backend_stats" where
  "get_stats now t_ok t_err t_total b =
     (let open_for = max 0 (b_open_until b - now) in
      \<lparr>bs_label = b_label b, bs_ok = b_ok_count b, bs_err = b_err_count b,
       bs_success_rate = rate_value t_ok (b_ok_rate b), bs_error_rate = rate_value t_err (b_err_rate b),
       bs_total_rate = rate_value t_total (b_total_rate b),
       bs_last_ok_ago = (if b_last_ok_t b \<noteq> 0 then Some (py_round 1 (now - b_last_ok_t b)) else None),
       bs_last_err_ago = (if b_last_err_t b \<noteq> 0 then Some (py_round 1 (now - b_last_err_t b)) else None),
       bs_circuit_open = (0 < open_for),
       bs_circuit_open_for = (if 0 < open_for then Some (py_round 1 open_for) else None)\<rparr>)"


section \<open>The circuit breaker as a state machine\<close>

text \<open>
  The calls a backend sees, in the order of the clock: a reported success or error, and the check
  before a use. \<open>cb_reach evs t b\<close>: after the calls \<open>evs\<close> from a fresh backend the clock is at \<open>t\<close> and
  the backend is \<open>b\<close>.
\<close>

datatype cb_event = Success clock | Failure clock | Check rat

inductive cb_reach :: "cb_event list \<Rightarrow> rat \<Rightarrow> backend \<Rightarrow> bool" where
  fresh: "0 < t \<Longrightarrow> cb_reach [] t (new_backend\<lparr>b_label := l\<rparr>)"
| success: "cb_reach evs t b \<Longrightarrow> t \<le> ck_now ck \<Longrightarrow> cb_reach (evs @ [Success ck]) (ck_now ck) (record_ok ck b)"
| failure: "cb_reach evs t b \<Longrightarrow> t \<le> ck_now ck \<Longrightarrow> cb_reach (evs @ [Failure ck]) (ck_now ck) (record_err ck b)"
| check: "cb_reach evs t b \<Longrightarrow> t \<le> now \<Longrightarrow> cb_reach (evs @ [Check now]) now (snd (is_circuit_open now b))"

inductive_cases cb_reach_NilE: "cb_reach [] t b"

fun is_failure :: "cb_event \<Rightarrow> bool" where
  "is_failure (Failure _) = True" | "is_failure _ = False"

fun is_check :: "cb_event \<Rightarrow> bool" where
  "is_check (Check _) = True" | "is_check _ = False"

text \<open>The errors since the last success.\<close>

definition trailing_errors :: "cb_event list \<Rightarrow> nat" where
  "trailing_errors evs = length (takeWhile is_failure (filter (\<lambda>e. \<not> is_check e) (rev evs)))"

lemma trailing_errors_snoc [simp]:
  "trailing_errors [] = 0"
  "trailing_errors (evs @ [Success ck]) = 0"
  "trailing_errors (evs @ [Failure ck]) = Suc (trailing_errors evs)"
  "trailing_errors (evs @ [Check now]) = trailing_errors evs"
  by (simp_all add: trailing_errors_def)

text \<open>The circuit was opened by the error at \<open>ck\<close>, at least the third one in a row.\<close>

definition opened_by :: "cb_event list \<Rightarrow> clock \<Rightarrow> bool" where
  "opened_by evs ck \<longleftrightarrow> (\<exists>pre post. evs = pre @ [Failure ck] @ post \<and> 3 \<le> trailing_errors (pre @ [Failure ck]))"

lemma opened_by_snoc: "opened_by evs ck \<Longrightarrow> opened_by (evs @ [e]) ck"
  unfolding opened_by_def by fastforce

lemma opened_by_now: "3 \<le> trailing_errors (evs @ [Failure ck]) \<Longrightarrow> opened_by (evs @ [Failure ck]) ck"
  unfolding opened_by_def by fastforce

definition cb_inv :: "cb_event list \<Rightarrow> rat \<Rightarrow> backend \<Rightarrow> bool" where
  "cb_inv evs t b \<longleftrightarrow> 0 < t \<and> 0 \<le> b_consec_err b \<and> b_consec_err b \<le> int (trailing_errors evs)
     \<and> b_last_err_t b \<le> t \<and> (b_open_until b = 0 \<longrightarrow> b_consec_err b < CB_THRESHOLD)
     \<and> (b_open_until b \<noteq> 0 \<longrightarrow> (\<exists>ck. opened_by evs ck \<and> 0 < ck_now ck \<and> ck_now ck \<le> t
          \<and> ck_now ck \<le> b_last_err_t b \<and> b_open_until b = ck_now ck + CB_PENALTY))"

lemma cb_reach_inv: "cb_reach evs t b \<Longrightarrow> cb_inv evs t b"
proof (induction rule: cb_reach.induct)
  case (fresh t l)
  then show ?case by (simp add: cb_inv_def new_backend_def CB_THRESHOLD_def)
next
  case (success evs t b ck)
  then show ?case
    by (auto simp: cb_inv_def record_ok_def record_call_def CB_THRESHOLD_def Let_def
        intro: opened_by_snoc order_trans)
next
  case (failure evs t b ck)
  let ?b = "record_err ck b"
  have c: "b_consec_err ?b = b_consec_err b + 1" "b_last_err_t ?b = ck_now ck"
    "b_open_until ?b = (if CB_THRESHOLD \<le> b_consec_err b + 1 then ck_now ck + CB_PENALTY else b_open_until b)"
    by (simp_all add: record_err_def record_call_def Let_def)
  show ?case
  proof (cases "CB_THRESHOLD \<le> b_consec_err b + 1")
    case True
    with failure have "3 \<le> trailing_errors (evs @ [Failure ck])"
      by (simp add: cb_inv_def CB_THRESHOLD_def)
    from opened_by_now [OF this] True failure c show ?thesis
      by (auto simp: cb_inv_def CB_PENALTY_def)
  next
    case False
    with failure c show ?thesis
      by (auto simp: cb_inv_def dest: opened_by_snoc [where e = "Failure ck"])
  qed
next
  case (check evs t b now)
  then show ?case
    by (auto simp: cb_inv_def is_circuit_open_def Let_def CB_THRESHOLD_def intro: opened_by_snoc order_trans)
qed

lemma cb_reach_failures:
  assumes "0 < t" "t \<le> ck_now c1" "ck_now c1 \<le> ck_now c2" "ck_now c2 \<le> ck_now c3"
  shows "cb_reach [Failure c1, Failure c2, Failure c3] (ck_now c3)
    (record_err c3 (record_err c2 (record_err c1 (new_backend\<lparr>b_label := l\<rparr>))))"
  using failure [OF failure [OF failure [OF fresh [OF assms(1)] assms(2)] assms(3)] assms(4)] by simp

definition at_time :: "rat \<Rightarrow> clock" where
  "at_time t = \<lparr>ck_now = t, ck_total = t, ck_own = t\<rparr>"

text \<open>
  C5: a backend is skipped only after at least three errors in a row without a success, and never
  thirty seconds or more after the error that opened the circuit, so neither that long after its
  last error.
\<close>
theorem circuit_open_only_after_three_errors:
  assumes "cb_reach evs t b" "t \<le> now" "fst (is_circuit_open now b)"
  shows "\<exists>ck. opened_by evs ck \<and> ck_now ck \<le> now \<and> now < ck_now ck + 30 \<and> now < b_last_err_t b + 30"
proof -
  from assms(3) have o: "b_open_until b \<noteq> 0" "now < b_open_until b"
    by (auto simp: is_circuit_open_def Let_def split: if_splits)
  with cb_reach_inv [OF assms(1)] obtain ck where "opened_by evs ck" "ck_now ck \<le> t"
    "ck_now ck \<le> b_last_err_t b" "b_open_until b = ck_now ck + CB_PENALTY"
    by (auto simp: cb_inv_def)
  with o assms(2) show ?thesis by (intro exI [of _ ck]) (simp add: CB_PENALTY_def)
qed


theorem circuit_open_only_after_three_errors_witness:
  "\<exists>ck. opened_by [Failure (at_time 5), Failure (at_time 6), Failure (at_time 7)] ck \<and> ck_now ck \<le> 36
    \<and> 36 < ck_now ck + 30
    \<and> 36 < b_last_err_t (record_err (at_time 7) (record_err (at_time 6) (record_err (at_time 5) (new_backend\<lparr>b_label := ''r''\<rparr>)))) + 30"
  by (rule circuit_open_only_after_three_errors [OF cb_reach_failures [of 1]])
    (simp_all add: at_time_def is_circuit_open_def record_err_def record_call_def new_backend_def
      CB_THRESHOLD_def CB_PENALTY_def)

text \<open>
  From any state of the breaker, three errors with no success between them open the circuit for
  exactly thirty seconds after the third.
\<close>
theorem three_errors_open_circuit:
  assumes "cb_reach evs t b" "t \<le> ck_now c1" "ck_now c1 \<le> ck_now c2" "ck_now c2 \<le> ck_now c3" "ck_now c3 \<le> now"
  shows "fst (is_circuit_open now (record_err c3 (record_err c2 (record_err c1 b)))) \<longleftrightarrow> now < ck_now c3 + 30"
proof -
  from cb_reach_inv [OF assms(1)] have "0 \<le> b_consec_err b" "0 < t" by (simp_all add: cb_inv_def)
  then have "b_open_until (record_err c3 (record_err c2 (record_err c1 b))) = ck_now c3 + 30"
    by (simp add: record_err_def record_call_def Let_def CB_THRESHOLD_def CB_PENALTY_def)
  then show ?thesis using assms \<open>0 < t\<close> by (auto simp: is_circuit_open_def Let_def)
qed

theorem three_errors_open_circuit_witness:
  "fst (is_circuit_open 50 (record_err (at_time 44) (record_err (at_time 43) (record_err (at_time 42)
     (record_err (at_time 7) (record_err (at_time 6) (record_err (at_time 5) (new_backend\<lparr>b_label := ''r''\<rparr>)))))))
   ) \<longleftrightarrow> (50 :: rat) < ck_now (at_time 44) + 30"
  by (rule three_errors_open_circuit [OF cb_reach_failures [of 1]]) (simp_all add: at_time_def)

text \<open>
  The statistics report the circuit as open exactly when the next use would be refused, and
  asking for them changes nothing.
\<close>
theorem stats_agree_with_breaker:
  assumes "cb_reach evs t b" "t \<le> now"
  shows "bs_circuit_open (get_stats now t1 t2 t3 b) \<longleftrightarrow> fst (is_circuit_open now b)"
  using cb_reach_inv [OF assms(1)] assms(2)
  by (auto simp: get_stats_def is_circuit_open_def Let_def cb_inv_def CB_PENALTY_def)

theorem stats_agree_with_breaker_witness:
  "bs_circuit_open (get_stats 36 36 36 36 (record_err (at_time 7) (record_err (at_time 6)
     (record_err (at_time 5) (new_backend\<lparr>b_label := ''r''\<rparr>)))))
   \<longleftrightarrow> fst (is_circuit_open 36 (record_err (at_time 7) (record_err (at_time 6)
     (record_err (at_time 5) (new_backend\<lparr>b_label := ''r''\<rparr>)))))"
  by (rule stats_agree_with_breaker [OF cb_reach_failures [of 1]]) (simp_all add: at_time_def)


section \<open>The rate counter counts\<close>

text \<open>
  After any series of ticks the current bucket counts exactly the ticks since the start of its
  window, which is less than sixty seconds wide, and the previous bucket counts ticks before it.
\<close>
theorem tick_window:
  assumes "sorted ts" "\<forall>t \<in> set ts. 0 < t" "ts \<noteq> []"
  shows "let c = foldl (\<lambda>c t. tick t c) new_rate_counter ts in
    rc_ts c \<in> set ts \<and> last ts < rc_ts c + 60
    \<and> rc_curr c = int (length (filter (\<lambda>t. rc_ts c \<le> t) ts))
    \<and> 0 \<le> rc_prev c \<and> rc_prev c \<le> int (length (filter (\<lambda>t. t < rc_ts c) ts))"
  using assms
proof (induction ts rule: rev_induct)
  case Nil
  then show ?case by simp
next
  case (snoc t ts)
  show ?case
  proof (cases "ts = []")
    case True
    with snoc.prems show ?thesis by (simp add: tick_def new_rate_counter_def)
  next
    case False
    define c where "c = foldl (\<lambda>c t. tick t c) new_rate_counter ts"
    from snoc False have ih: "rc_ts c \<in> set ts" "last ts < rc_ts c + 60"
      "rc_curr c = int (length (filter (\<lambda>t. rc_ts c \<le> t) ts))"
      "0 \<le> rc_prev c" "rc_prev c \<le> int (length (filter (\<lambda>t. t < rc_ts c) ts))"
      by (simp_all add: sorted_append c_def Let_def)
    have pos: "rc_ts c \<noteq> 0" using ih(1) snoc.prems by auto
    have le: "x \<le> t" if "x \<in> set ts" for x using snoc.prems that by (simp add: sorted_append)
    have lt: "x \<le> last ts" if "x \<in> set ts" for x
    proof -
      have "sorted (butlast ts @ [last ts])" "x \<in> set (butlast ts @ [last ts])"
        using snoc.prems(1) that False by (simp_all add: sorted_append)
      then show ?thesis by (auto simp: sorted_append)
    qed
    have step: "foldl (\<lambda>c t. tick t c) new_rate_counter (ts @ [t]) = tick t c" by (simp add: c_def)
    show ?thesis
    proof (cases "60 \<le> t - rc_ts c")
      case True
      have "x < t" if "x \<in> set ts" for x using lt [OF that] ih(2) True by simp
      then have "filter (\<lambda>x. t \<le> x) ts = []" "filter (\<lambda>x. x < t) ts = ts"
        by (auto simp: filter_empty_conv filter_id_conv not_le)
      with True pos ih show ?thesis unfolding step by (simp add: tick_def Let_def RATE_WINDOW_def)
    next
      case False
      with pos ih le [OF ih(1)] show ?thesis unfolding step by (simp add: tick_def Let_def RATE_WINDOW_def)
    qed
  qed
qed

theorem tick_window_witness:
  "let c = foldl (\<lambda>c t. tick t c) new_rate_counter [1, 30, 62] in
    rc_ts c \<in> set [1, 30, 62] \<and> last [1, 30, 62] < rc_ts c + 60
    \<and> rc_curr c = int (length (filter (\<lambda>t. rc_ts c \<le> t) [1, 30, 62]))
    \<and> 0 \<le> rc_prev c \<and> rc_prev c \<le> int (length (filter (\<lambda>t. t < rc_ts c) [1, 30, 62]))"
  by (rule tick_window) simp_all

text \<open>
  The account-info parser keeps the invariant of a result: service names are non-empty and
  pairwise different with a status A or N, dynamic services have a name and a class, and a rate is
  either absent or four non-negative numbers.
\<close>
theorem account_info_keeps_wf:
  "auth_result_wf (apply_account_info (new_auth_result accept) values)"
  by (simp add: apply_account_info_wf new_auth_result_wf)

text \<open>
  C38: whatever the values, the last activation or deactivation of a service name decides its status,
  the last complete QoS string decides the rate, and the dynamic services are those of the QC values
  in their order; the other fields are untouched.
\<close>
theorem account_info_last_wins:
  "map_of (ar_services (apply_account_info r values)) =
     map_of (ar_services r) ++ map_of (rev (List.map_filter (\<lambda>v. service_of (classify v)) values))
   \<and> ar_rate_info (apply_account_info r values) =
     last (ar_rate_info r # List.map_filter (\<lambda>v. rate_of (classify v)) values)
   \<and> ar_dynamic_services (apply_account_info r values) =
     ar_dynamic_services r @ List.map_filter (\<lambda>v. dynamic_of (classify v)) values
   \<and> ar_accept (apply_account_info r values) = ar_accept r"
  using apply_account_info_services apply_account_info_rate apply_account_info_dynamic
    apply_account_info_other by blast

end
