(* ===== verification/Py_Float.thy ===== *)
theory Py_Float
  imports Backend_Base
begin

text \<open>
  Python's floating-point numbers where the program shows or sends what they hold: rounding to double
  precision (normal range; a magnitude of \<open>2 ^ 1024\<close> or more overflows), truncation by \<^verbatim>\<open>int\<close>, and the
  format \<^verbatim>\<open>.3g\<close>. A double is the rational number it stands for.
\<close>

section \<open>Double precision\<close>

fun log2_nat :: "nat \<Rightarrow> nat" where
  "log2_nat n = (if n < 2 then 0 else Suc (log2_nat (n div 2)))"

declare log2_nat.simps [simp del]

definition exp2 :: "rat \<Rightarrow> int" where
  "exp2 x =
     (if 1 \<le> x then int (log2_nat (nat \<lfloor>x\<rfloor>))
      else let j = log2_nat (nat \<lfloor>1 / x\<rfloor>) in if 1 / x = 2 ^ j then - int j else - int j - 1)"

definition scale2 :: "int \<Rightarrow> rat \<Rightarrow> rat" where
  "scale2 e x = (if 0 \<le> e then x * 2 ^ nat e else x / 2 ^ nat (- e))"

definition to_double :: "rat \<Rightarrow> rat" where
  "to_double x = (if x = 0 then 0 else let e = 52 - exp2 \<bar>x\<bar> in scale2 (- e) (of_int (round_half_even (scale2 e x))))"

definition float_overflow :: "rat \<Rightarrow> bool" where
  "float_overflow x \<longleftrightarrow> 2 ^ 1024 \<le> \<bar>to_double x\<bar>"

definition py_trunc :: "rat \<Rightarrow> int" where
  "py_trunc x = (if x < 0 then \<lceil>x\<rceil> else \<lfloor>x\<rfloor>)"

lemma py_trunc_of_int [simp]: "py_trunc (of_int n) = n"
  by (simp add: py_trunc_def)

text \<open>\<^verbatim>\<open>int(n * 1.5)\<close> of an integer: \<^verbatim>\<open>OverflowError\<close> if it is too large for a double.\<close>

definition int_times_1_5 :: "int \<Rightarrow> int res" where
  "int_times_1_5 n =
     (if float_overflow (of_int n) \<or> float_overflow (to_double (of_int n) * 3 / 2) then Inl OtherError
      else Inr (py_trunc (to_double (to_double (of_int n) * 3 / 2))))"

lemma log2_nat_bounds: "0 < n \<Longrightarrow> 2 ^ log2_nat n \<le> n \<and> n < 2 ^ Suc (log2_nat n)"
proof (induction n rule: log2_nat.induct)
  case (1 n)
  show ?case
  proof (cases "n < 2")
    case True
    with 1(2) have "n = 1" by simp
    then show ?thesis by (simp add: log2_nat.simps)
  next
    case False
    then have "log2_nat n = Suc (log2_nat (n div 2))" by (subst log2_nat.simps) simp
    moreover have "2 ^ log2_nat (n div 2) \<le> n div 2 \<and> n div 2 < 2 ^ Suc (log2_nat (n div 2))"
      using 1(1) False by simp
    ultimately show ?thesis by (simp add: less_eq_div_iff_mult_less_eq div_less_iff_less_mult)
  qed
qed

lemma log2_nat_le: "0 < n \<Longrightarrow> n < 2 ^ Suc k \<Longrightarrow> log2_nat n \<le> k"
  using log2_nat_bounds [of n] by (metis le_less_trans less_Suc_eq_le nat_power_less_imp_less pos2)

lemma round_half_even_int [simp]: "round_half_even (of_int n) = n"
  by (simp add: round_half_even_def)

text \<open>A number of few enough digits is a double.\<close>

lemma to_double_exact:
  assumes "x * 2 ^ k = of_int n" "k \<le> 52" "1 \<le> \<bar>x\<bar>" "\<bar>x\<bar> < 2 ^ (53 - k)"
  shows "to_double x = x"
proof -
  let ?m = "nat \<lfloor>\<bar>x\<bar>\<rfloor>"
  let ?e = "log2_nat ?m"
  have m: "0 < ?m" using assms(3) by (simp add: le_floor_iff less_le_trans) 
  have "of_int \<lfloor>\<bar>x\<bar>\<rfloor> < (2 :: rat) ^ (53 - k)" using assms(4) by (meson le_less_trans of_int_floor_le)
  then have "\<lfloor>\<bar>x\<bar>\<rfloor> < 2 ^ (53 - k)" by (metis of_int_less_iff of_int_numeral of_int_power)
  then have "?m < 2 ^ (53 - k)" by (simp add: nat_less_iff)
  moreover have "53 - k = Suc (52 - k)" using assms(2) by simp
  ultimately have e: "?e \<le> 52 - k" using log2_nat_le [OF m, of "52 - k"] by simp
  have ex: "exp2 \<bar>x\<bar> = int ?e" using assms(3) by (simp add: exp2_def)
  obtain d where d: "52 - ?e = k + d" using e assms(2) by (metis diff_diff_cancel diff_le_mono2 le_add_diff_inverse le_trans diff_le_self)
  have s: "scale2 (52 - exp2 \<bar>x\<bar>) x = of_int (n * 2 ^ d)"
  proof -
    have "nat (52 - int ?e) = k + d" using d by (simp add: nat_diff_distrib)
    moreover have "0 \<le> 52 - int ?e" using e by simp
    ultimately show ?thesis using assms(1) by (simp add: scale2_def ex power_add mult.assoc [symmetric])
  qed
  have "scale2 (- (52 - exp2 \<bar>x\<bar>)) (scale2 (52 - exp2 \<bar>x\<bar>) x) = x" by (auto simp: scale2_def)
  then show ?thesis using assms(3) by (simp only: to_double_def Let_def s round_half_even_int) (auto simp: s)
qed

lemma to_double_int: "\<bar>n\<bar> < 2 ^ 53 \<Longrightarrow> to_double (of_int n) = of_int n"
proof (cases "n = 0")
  case True
  then show ?thesis by (simp add: to_double_def)
next
  case False
  assume "\<bar>n\<bar> < 2 ^ 53"
  then have "\<bar>of_int n\<bar> < (2 :: rat) ^ 53" by (metis of_int_abs of_int_less_iff of_int_numeral of_int_power)
  moreover have "1 \<le> \<bar>of_int n :: rat\<bar>" using False by (metis of_int_1_le_iff of_int_abs zero_less_abs_iff int_one_le_iff_zero_less)
  ultimately show ?thesis by (intro to_double_exact [of _ 0 n]) auto
qed

lemma int_times_1_5_exact:
  assumes "0 \<le> n" "n < 2 ^ 51"
  shows "int_times_1_5 n = Inr (3 * n div 2)"
proof (cases "n = 0")
  case True
  then show ?thesis by (simp add: int_times_1_5_def to_double_def float_overflow_def py_trunc_def)
next
  case False
  let ?x = "of_int n * 3 / 2 :: rat"
  have n: "to_double (of_int n) = of_int n" using assms by (intro to_double_int) simp
  have big: "of_int n < (2 :: rat) ^ 51" using assms(2) by (metis of_int_less_iff of_int_numeral of_int_power)
  have one: "(1 :: rat) \<le> of_int n" using assms(1) False by simp
  have x: "to_double ?x = ?x"
    using big one by (intro to_double_exact [of _ 1 "n * 3"]) auto
  have "(2 :: rat) ^ 52 \<le> 2 ^ 1024" by (rule power_increasing) simp_all
  then have "\<not> float_overflow (of_int n)" "\<not> float_overflow ?x"
    using big one unfolding float_overflow_def n x by auto
  moreover have "py_trunc ?x = 3 * n div 2"
  proof -
    have "\<lfloor>?x\<rfloor> = 3 * n div 2" using floor_divide_of_int_eq [of "3 * n" 2, where 'a = rat] by (simp add: mult.commute)
    then show ?thesis using one by (simp add: py_trunc_def)
  qed
  ultimately show ?thesis by (simp add: int_times_1_5_def n x)
qed

lemma round_half_even_error: "\<bar>of_int (round_half_even x) - x\<bar> \<le> 1 / 2"
proof -
  have "of_int \<lfloor>x\<rfloor> \<le> x" "x < of_int \<lfloor>x\<rfloor> + 1" using floor_correct [of x] by simp_all
  then show ?thesis by (auto simp: round_half_even_def Let_def abs_le_iff)
qed

lemma round_half_even_le: "x \<le> of_int n \<Longrightarrow> round_half_even x \<le> n"
proof -
  assume x: "x \<le> of_int n"
  then have "\<lfloor>x\<rfloor> \<le> n" by (metis floor_mono floor_of_int)
  show ?thesis
  proof (cases "\<lfloor>x\<rfloor> = n")
    case True
    with x have "x = of_int n" using of_int_floor_le [of x] by simp
    then show ?thesis by simp
  next
    case False
    with \<open>\<lfloor>x\<rfloor> \<le> n\<close> show ?thesis by (auto simp: round_half_even_def Let_def)
  qed
qed

lemma round_half_even_nonneg: "0 \<le> x \<Longrightarrow> 0 \<le> round_half_even x"
  by (auto simp: round_half_even_def Let_def)

text \<open>A number below \<open>2 ^ 53\<close> is rounded to a multiple of a power of \<open>1 / 2\<close>.\<close>

lemma to_double_grid:
  assumes "0 < y" "y < 2 ^ Suc k" "k \<le> 52"
  obtains n where "52 - k \<le> n" "to_double y = of_int (round_half_even (y * 2 ^ n)) / 2 ^ n"
proof -
  have ex: "exp2 y \<le> int k"
  proof (cases "1 \<le> y")
    case True
    have "of_int \<lfloor>y\<rfloor> < (2 :: rat) ^ Suc k" using assms(2) by (meson le_less_trans of_int_floor_le)
    then have "\<lfloor>y\<rfloor> < 2 ^ Suc k" by (metis of_int_less_iff of_int_numeral of_int_power)
    moreover have "0 \<le> \<lfloor>y\<rfloor>" using True by simp
    ultimately have "nat \<lfloor>y\<rfloor> < 2 ^ Suc k" by (simp add: nat_less_iff)
    moreover have "0 < nat \<lfloor>y\<rfloor>" using True by (simp add: le_floor_iff less_le_trans)
    ultimately show ?thesis using True log2_nat_le by (simp add: exp2_def)
  next
    case False
    then show ?thesis by (simp add: exp2_def Let_def)
  qed
  then have "0 \<le> 52 - exp2 y" using assms(3) by simp
  show thesis
  proof (rule that [of "nat (52 - exp2 y)"])
    show "52 - k \<le> nat (52 - exp2 y)" using ex by simp
    show "to_double y = of_int (round_half_even (y * 2 ^ nat (52 - exp2 y))) / 2 ^ nat (52 - exp2 y)"
      using assms(1) \<open>0 \<le> 52 - exp2 y\<close> by (auto simp: to_double_def Let_def scale2_def)
  qed
qed

lemma to_double_le:
  assumes "0 \<le> y" "y \<le> of_int n" "of_int n < (2 :: rat) ^ 53"
  shows "to_double y \<le> of_int n" "0 \<le> to_double y"
proof (atomize(full), cases "y = 0")
  case True
  then show "to_double y \<le> of_int n \<and> 0 \<le> to_double y" using assms(2) by (simp add: to_double_def)
next
  case False
  with assms have y: "0 < y" "y < 2 ^ Suc 52" by simp_all
  obtain m where m: "to_double y = of_int (round_half_even (y * 2 ^ m)) / 2 ^ m"
    by (rule to_double_grid [OF y order_refl])
  have "y * 2 ^ m \<le> of_int (n * 2 ^ m)" using assms(2) by simp
  from round_half_even_le [OF this] have "of_int (round_half_even (y * 2 ^ m)) \<le> (of_int (n * 2 ^ m) :: rat)" by (simp only: of_int_le_iff)
  moreover have "0 \<le> round_half_even (y * 2 ^ m)" using y by (intro round_half_even_nonneg) simp
  ultimately show "to_double y \<le> of_int n \<and> 0 \<le> to_double y" by (simp add: m pos_divide_le_eq)
qed

lemma to_double_error:
  assumes "0 \<le> y" "y < 2 ^ Suc k" "k \<le> 52"
  shows "\<bar>to_double y - y\<bar> \<le> 1 / 2 ^ (53 - k)"
proof (cases "y = 0")
  case True
  then show ?thesis by (simp add: to_double_def)
next
  case False
  with assms(1) have "0 < y" by simp
  then obtain n where n: "52 - k \<le> n" "to_double y = of_int (round_half_even (y * 2 ^ n)) / 2 ^ n"
    by (rule to_double_grid [OF _ assms(2,3)])
  have "\<bar>to_double y - y\<bar> * 2 ^ n = \<bar>of_int (round_half_even (y * 2 ^ n)) - y * 2 ^ n\<bar>"
    unfolding n(2) by (simp add: abs_mult_pos' [symmetric] field_simps flip: abs_mult_pos)
  also have "\<dots> \<le> 1 / 2" by (rule round_half_even_error)
  finally have "\<bar>to_double y - y\<bar> \<le> 1 / 2 / 2 ^ n" by (simp add: field_simps)
  also have "\<dots> = 1 / 2 ^ Suc n" by simp
  also have "\<dots> \<le> 1 / 2 ^ (53 - k)" using n(1) by (intro divide_left_mono power_increasing) auto
  finally show ?thesis .
qed


section \<open>Three significant digits\<close>

text \<open>\<^verbatim>\<open>f'{x:.3g}'\<close> of a double that is at least 1.\<close>

fun log10_nat :: "nat \<Rightarrow> nat" where
  "log10_nat n = (if n < 10 then 0 else Suc (log10_nat (n div 10)))"

declare log10_nat.simps [simp del]

definition rstrip_zeros :: "string \<Rightarrow> string" where
  "rstrip_zeros s = rev (dropWhile (\<lambda>c. c = CHR ''0'') (rev s))"

definition with_fraction :: "string \<Rightarrow> string \<Rightarrow> string" where
  "with_fraction whole rest = (if rstrip_zeros rest = [] then whole else whole @ ''.'' @ rstrip_zeros rest)"

definition fmt_3g :: "rat \<Rightarrow> string" where
  "fmt_3g x =
     (let k = log10_nat (nat \<lfloor>x\<rfloor>);
          d = nat (round_half_even (x * 100 / 10 ^ k));
          (digits, e) = (if d = 1000 then (''100'', Suc k) else (show_nat d, k))
      in if e < 3 then with_fraction (take (Suc e) digits) (drop (Suc e) digits)
         else with_fraction (take 1 digits) (drop 1 digits) @ ''e+'' @ (if e < 10 then ''0'' else []) @ show_nat e)"

end
