(* ===== verification/Traffic.thy ===== *)
theory Traffic
  imports Api_Sessions Py_Float
begin

text \<open>
  The stream of traffic events of the REST interface, \<^verbatim>\<open>app/src/api/traffic.py\<close>. A turn of the endless
  loop is a step on the remembered samples; the clock readings of the turn and the result of
  \<^const>\<open>find_session\<close> are its arguments. \<^verbatim>\<open>int(x * 8 / elapsed)\<close> truncates the exact quotient.
\<close>

section \<open>One turn\<close>

definition KEEPALIVE_INTERVAL :: rat where
  "KEEPALIVE_INTERVAL = 15"

type_synonym samples = "(string, int \<times> int \<times> rat) odict"

record traffic_row =
  tr_ip :: string
  tr_session_id :: string
  tr_in_bps :: int
  tr_out_bps :: int
  tr_in_bytes :: int
  tr_out_bytes :: int

datatype sse = SseData rat "traffic_row list" | SseKeepalive

definition bps :: "int \<Rightarrow> rat \<Rightarrow> int" where
  "bps delta elapsed = max 0 (py_trunc (of_int delta * 8 / elapsed))"

definition traffic_rates :: "samples \<Rightarrow> rat \<Rightarrow> session_info \<Rightarrow> int \<times> int" where
  "traffic_rates prev ts s =
     (case map_of prev (si_session_id s) of
        None \<Rightarrow> (0, 0)
      | Some (prev_ib, prev_ob, prev_ts) \<Rightarrow>
          let elapsed = ts - prev_ts in
          if 0 < elapsed then (bps (si_in_bytes s - prev_ib) elapsed, bps (si_out_bytes s - prev_ob) elapsed)
          else (0, 0))"

definition traffic_row_of :: "samples \<Rightarrow> rat \<Rightarrow> session_info \<Rightarrow> traffic_row" where
  "traffic_row_of prev ts s =
     \<lparr>tr_ip = si_ip s, tr_session_id = si_session_id s, tr_in_bps = fst (traffic_rates prev ts s),
      tr_out_bps = snd (traffic_rates prev ts s), tr_in_bytes = si_in_bytes s, tr_out_bytes = si_out_bytes s\<rparr>"

definition traffic_sample :: "rat \<Rightarrow> session_info option \<Rightarrow> samples \<Rightarrow> sse \<times> samples" where
  "traffic_sample ts raw prev =
     (case raw of
        None \<Rightarrow> (SseData ts [], [])
      | Some s \<Rightarrow> (SseData ts [traffic_row_of prev ts s],
                  AList.update (si_session_id s) (si_in_bytes s, si_out_bytes s, ts) prev))"

text \<open>
  The readings of a turn, in order: its start, the result of the search, \<^verbatim>\<open>time.time()\<close>, the clock after
  the event was taken, the clock before sleeping, and the two readings after sleeping.
\<close>

record traffic_turn =
  tt_start :: rat
  tt_raw :: "session_info option res"
  tt_ts :: rat
  tt_taken :: rat
  tt_before :: rat
  tt_woken :: rat

definition sleep_for :: "rat \<Rightarrow> traffic_turn \<Rightarrow> rat" where
  "sleep_for interval turn = max 0 (interval - (tt_before turn - tt_start turn))"

definition keepalive_due :: "traffic_turn \<Rightarrow> bool" where
  "keepalive_due turn \<longleftrightarrow> tt_taken turn + KEEPALIVE_INTERVAL \<le> tt_woken turn"

fun traffic_stream :: "rat \<Rightarrow> traffic_turn list \<Rightarrow> samples \<Rightarrow> (sse list \<times> rat) list \<times> samples res" where
  "traffic_stream interval [] prev = ([], Inr prev)"
| "traffic_stream interval (turn # turns) prev =
     (case tt_raw turn of
        Inl e \<Rightarrow> ([], Inl e)
      | Inr raw \<Rightarrow>
          let (ev, prev') = traffic_sample (tt_ts turn) raw prev;
              (out, end') = traffic_stream interval turns prev'
          in ((ev # (if keepalive_due turn then [SseKeepalive] else []), sleep_for interval turn) # out, end'))"


section \<open>Rates\<close>

lemma py_trunc_pos: "0 \<le> x \<Longrightarrow> py_trunc x = \<lfloor>x\<rfloor>"
  by (simp add: py_trunc_def)

lemma bps_spec:
  assumes "0 < elapsed"
  shows "0 \<le> bps delta elapsed" "delta \<le> 0 \<Longrightarrow> bps delta elapsed = 0"
    "0 \<le> delta \<Longrightarrow> of_int (bps delta elapsed) * elapsed \<le> of_int (8 * delta)"
    "0 \<le> delta \<Longrightarrow> of_int (8 * delta) < (of_int (bps delta elapsed) + 1) * elapsed"
proof -
  let ?x = "of_int delta * 8 / elapsed"
  show "0 \<le> bps delta elapsed" by (simp add: bps_def)
  show "bps delta elapsed = 0" if "delta \<le> 0"
  proof -
    have "?x \<le> 0" using that assms by (simp add: divide_le_0_iff mult_le_0_iff)
    then have "py_trunc ?x \<le> 0" by (simp add: py_trunc_def floor_le_zero ceiling_le_zero)
    then show ?thesis by (simp add: bps_def)
  qed
  assume "0 \<le> delta"
  then have x: "0 \<le> ?x" using assms by simp
  then have b: "bps delta elapsed = \<lfloor>?x\<rfloor>" by (simp add: bps_def py_trunc_pos)
  have fl: "of_int \<lfloor>?x\<rfloor> \<le> ?x" "?x < of_int \<lfloor>?x\<rfloor> + 1" using floor_correct [of ?x] by simp_all
  have "?x * elapsed = of_int (8 * delta)" using assms by simp
  then show "of_int (bps delta elapsed) * elapsed \<le> of_int (8 * delta)"
    "of_int (8 * delta) < (of_int (bps delta elapsed) + 1) * elapsed"
    using mult_right_mono [OF fl(1), of elapsed] mult_strict_right_mono [OF fl(2) assms] assms unfolding b by simp_all
qed

text \<open>
  What the stream remembers of a session after a number of turns: its counters at the last turn that
  saw it, if the search has found a session in every turn since.
\<close>

fun last_sample :: "(rat \<times> session_info option) list \<Rightarrow> string \<Rightarrow> (int \<times> int \<times> rat) option" where
  "last_sample [] sid = None"
| "last_sample ((ts, None) # older) sid = None"
| "last_sample ((ts, Some s) # older) sid =
     (if si_session_id s = sid then Some (si_in_bytes s, si_out_bytes s, ts) else last_sample older sid)"

definition seen :: "traffic_turn list \<Rightarrow> (rat \<times> session_info option) list" where
  "seen turns = rev (map (\<lambda>t. (tt_ts t, case tt_raw t of Inr raw \<Rightarrow> raw | Inl _ \<Rightarrow> None)) turns)"

lemma traffic_sample_remembers:
  "map_of prev = last_sample older \<Longrightarrow> map_of (snd (traffic_sample ts raw prev)) = last_sample ((ts, raw) # older)"
  by (cases raw) (auto simp: traffic_sample_def update_conv' fun_eq_iff)

lemma traffic_stream_event:
  assumes "map_of prev = last_sample older" "i < length (fst (traffic_stream interval turns prev))"
    "tt_raw (turns ! i) = Inr (Some s)"
  shows "\<exists>prev' rest. map_of prev' = last_sample (seen (take i turns) @ older)
     \<and> fst (fst (traffic_stream interval turns prev) ! i)
        = SseData (tt_ts (turns ! i)) [traffic_row_of prev' (tt_ts (turns ! i)) s] # rest"
  using assms
proof (induction turns arbitrary: prev older i)
  case Nil
  then show ?case by simp
next
  case (Cons turn turns)
  from Cons.prems(2) obtain raw where raw: "tt_raw turn = Inr raw" by (cases "tt_raw turn") auto
  obtain ev prev' where step: "traffic_sample (tt_ts turn) raw prev = (ev, prev')" by fastforce
  show ?case
  proof (cases i)
    case 0
    with raw Cons.prems(3) have "raw = Some s" by simp
    with 0 raw Cons.prems(1) show ?thesis
      by (intro exI [of _ prev]) (auto simp: traffic_sample_def seen_def split_beta)
  next
    case (Suc j)
    from traffic_sample_remembers [OF Cons.prems(1), of "tt_ts turn" raw] step
    have next': "map_of prev' = last_sample ((tt_ts turn, raw) # older)" by simp
    have "j < length (fst (traffic_stream interval turns prev'))" "tt_raw (turns ! j) = Inr (Some s)"
      using Cons.prems(2,3) Suc raw step by (auto simp: split_beta)
    from Cons.IH [OF next' this] show ?thesis using raw step Suc by (simp add: split_beta seen_def)
  qed
qed

text \<open>
  The rate between two readings of a counter: the eightfold increase per second, rounded down, and
  zero if time or counter did not advance.
\<close>

definition rate_between :: "int \<Rightarrow> rat \<Rightarrow> int \<Rightarrow> rat \<Rightarrow> int \<Rightarrow> bool" where
  "rate_between b0 t0 b t r \<longleftrightarrow>
     0 \<le> r \<and> (t \<le> t0 \<or> b \<le> b0 \<longrightarrow> r = 0)
     \<and> (t0 < t \<and> b0 \<le> b \<longrightarrow> of_int r * (t - t0) \<le> of_int (8 * (b - b0)) \<and> of_int (8 * (b - b0)) < (of_int r + 1) * (t - t0))"

lemma rate_between_bps: "t0 < t \<Longrightarrow> rate_between b0 t0 b t (bps (b - b0) (t - t0))"
  using bps_spec [of "t - t0" "b - b0"] by (auto simp: rate_between_def)

lemma rate_between_stalled: "t \<le> t0 \<Longrightarrow> rate_between b0 t0 b t 0"
  by (simp add: rate_between_def)

lemma traffic_rates_spec:
  assumes "map_of prev = older"
  shows "case older (si_session_id s) of
           None \<Rightarrow> traffic_rates prev ts s = (0, 0)
         | Some (ib, ob, t0) \<Rightarrow> rate_between ib t0 (si_in_bytes s) ts (fst (traffic_rates prev ts s))
                              \<and> rate_between ob t0 (si_out_bytes s) ts (snd (traffic_rates prev ts s))"
  using assms rate_between_stalled
  by (auto simp: traffic_rates_def Let_def rate_between_bps not_less split: option.splits)


lemma length_traffic_stream:
  "list_all (\<lambda>t. \<exists>raw. tt_raw t = Inr raw) turns \<Longrightarrow> length (fst (traffic_stream interval turns prev)) = length turns"
  by (induction turns arbitrary: prev) (auto simp: split_beta)


section \<open>A session read twice\<close>

definition sample_info :: "int \<Rightarrow> int \<Rightarrow> session_info" where
  "sample_info ib ob = \<lparr>si_session_id = ''0000000100000002'', si_ip = ''10.0.0.1'', si_nat_ip = None, si_mac = None,
     si_port = 1, si_duration = 0, si_in_bytes = ib, si_out_bytes = ob, si_in_packets = 0, si_out_packets = 0,
     si_in_rate = 0, si_out_rate = 0, si_in_burst = 0, si_out_burst = 0, si_alive_interval = 0, si_idle_timeout = 0,
     si_max_duration = 0, si_flags = decode_flags 1, si_service_name = None, si_parent_session_id = None\<rparr>"

definition sample_turns :: "traffic_turn list" where
  "sample_turns =
     [\<lparr>tt_start = 0, tt_raw = Inr (Some (sample_info 1000 500)), tt_ts = 100, tt_taken = 0, tt_before = 0, tt_woken = 2\<rparr>,
      \<lparr>tt_start = 2, tt_raw = Inr (Some (sample_info 2000 400)), tt_ts = 102, tt_taken = 2, tt_before = 2, tt_woken = 4\<rparr>]"


end
