(* ===== verification/Radius_Packet.thy ===== *)
theory Radius_Packet
  imports Backend_Base
begin

unbundle bit_operations_syntax

text \<open>
  \<^verbatim>\<open>app/src/radius_packet.py\<close>: the code and error-cause tables, the password obfuscation, the safe
  attribute access and the packet builder.

  pyrad is not part of the repository. A received packet is what the program reads of a pyrad
  packet object: its code, identifier, authenticator and, per attribute name, the decoded values or
  the exception the access raises. A packet that is built is the sequence of attribute values the
  program sets; turning it into bytes is an argument of the definitions that do it.
\<close>

section \<open>Packets\<close>

datatype rad_value = RInt int | RStr string | RBytes bytes

record rad_packet =
  pk_code :: int
  pk_id :: int
  pk_authenticator :: bytes
  pk_attrs :: "string \<Rightarrow> rad_value list res"

definition code_names :: "(int \<times> string) list" where
  "code_names = [
     (1, ''Access-Request''), (2, ''Access-Accept''), (3, ''Access-Reject''),
     (4, ''Accounting-Request''), (5, ''Accounting-Response''),
     (40, ''Disconnect-Request''), (41, ''Disconnect-ACK''), (42, ''Disconnect-NAK''),
     (43, ''CoA-Request''), (44, ''CoA-ACK''), (45, ''CoA-NAK'')]"

definition NAMES :: "int \<Rightarrow> string" where
  "NAMES code = (case map_of code_names code of None \<Rightarrow> [] | Some n \<Rightarrow> n)"

definition CODES :: "string \<Rightarrow> int" where
  "CODES name = (case map_of (map (\<lambda>(c, n). (n, c)) code_names) name of None \<Rightarrow> 0 | Some c \<Rightarrow> c)"

definition ERROR_CAUSES :: "string \<Rightarrow> int" where
  "ERROR_CAUSES name =
     (case map_of [
        (''Unsupported-Attribute'', 401), (''Missing-Attribute'', 402),
        (''NAS-Identification-Mismatch'', 403), (''Invalid-Request'', 404),
        (''Unsupported-Service'', 405), (''Unsupported-Extension'', 406),
        (''Administratively-Prohibited'', 501), (''Session-Context-Not-Found'', 503),
        (''Session-Context-Not-Removable'', 504), (''Resources-Unavailable'', 506)] name of
      None \<Rightarrow> 0 | Some c \<Rightarrow> c)"

text \<open>Truth, \<^verbatim>\<open>str\<close> and \<^verbatim>\<open>int\<close> of a decoded value; \<^verbatim>\<open>str\<close> of a byte string is its literal.\<close>

fun rad_true :: "rad_value \<Rightarrow> bool" where
  "rad_true (RInt n) = (n \<noteq> 0)" | "rad_true (RStr s) = (s \<noteq> [])" | "rad_true (RBytes b) = (b \<noteq> [])"

definition repr_byte :: "char \<Rightarrow> byte \<Rightarrow> string" where
  "repr_byte q b =
     (let c = char_of (unat b) in
      if c = q \<or> c = CHR 0x5C then [CHR 0x5C, c]
      else if c = CHR 0x09 then [CHR 0x5C, CHR ''t'']
      else if c = CHR 0x0A then [CHR 0x5C, CHR ''n'']
      else if c = CHR 0x0D then [CHR 0x5C, CHR ''r'']
      else if 0x20 \<le> b \<and> b < 0x7F then [c]
      else [CHR 0x5C, CHR ''x''] @ hex_str False 2 (unat b))"

definition bytes_repr :: "bytes \<Rightarrow> string" where
  "bytes_repr bs =
     (let q = (if 0x27 \<in> set bs \<and> 0x22 \<notin> set bs then CHR 0x22 else CHR 0x27)
      in [CHR ''b'', q] @ concat (map (repr_byte q) bs) @ [q])"

fun rad_str :: "rad_value \<Rightarrow> string" where
  "rad_str (RInt n) = show_int n" | "rad_str (RStr s) = s" | "rad_str (RBytes b) = bytes_repr b"

fun rad_int :: "rad_value \<Rightarrow> int res" where
  "rad_int (RInt n) = Inr n" | "rad_int (RStr s) = py_int s" | "rad_int (RBytes b) = py_int (bytes_text b)"

text \<open>\<^verbatim>\<open>attr_get\<close>, and \<^verbatim>\<open>pkt.get(name) or []\<close>.\<close>

definition attr_get :: "rad_packet \<Rightarrow> string \<Rightarrow> rad_value option res" where
  "attr_get pkt name =
     (case pk_attrs pkt name of
        Inr vals \<Rightarrow> Inr (case vals of [] \<Rightarrow> None | v # _ \<Rightarrow> Some v)
      | Inl e \<Rightarrow> if e = KeyError \<or> e = TypeError then Inr None else Inl e)"

definition attr_list :: "rad_packet \<Rightarrow> string \<Rightarrow> rad_value list res" where
  "attr_list pkt name =
     (case pk_attrs pkt name of Inr vals \<Rightarrow> Inr vals | Inl e \<Rightarrow> if e = KeyError then Inr [] else Inl e)"


section \<open>Password obfuscation\<close>

definition pad16 :: "bytes \<Rightarrow> bytes" where
  "pad16 pw = pw @ zeros ((16 - length pw mod 16) mod 16)"

function obfuscate :: "bytes \<Rightarrow> bytes \<Rightarrow> bytes \<Rightarrow> bytes" where
  "obfuscate secret prev padded =
     (if padded = [] then []
      else let chunk = xor_bytes (md5 (secret @ prev)) (take 16 padded)
           in chunk @ obfuscate secret chunk (drop 16 padded))"
  by pat_completeness auto
termination
  by (relation "measure (\<lambda>(_, _, p). length p)") auto

declare obfuscate.simps [simp del]

definition encrypt_password :: "bytes \<Rightarrow> bytes \<Rightarrow> string \<Rightarrow> bytes" where
  "encrypt_password secret authenticator password = obfuscate secret authenticator (pad16 (encode password))"

text \<open>What a RADIUS server does to get the password back (RFC 2865, 5.2).\<close>

function reveal :: "bytes \<Rightarrow> bytes \<Rightarrow> bytes \<Rightarrow> bytes" where
  "reveal secret prev cipher =
     (if cipher = [] then []
      else let chunk = take 16 cipher
           in xor_bytes (md5 (secret @ prev)) chunk @ reveal secret chunk (drop 16 cipher))"
  by pat_completeness auto
termination
  by (relation "measure (\<lambda>(_, _, p). length p)") auto

declare reveal.simps [simp del]


section \<open>The packet builder\<close>

record rad_request =
  rq_code :: int
  rq_id :: int
  rq_secret :: bytes
  rq_authenticator :: bytes
  rq_attrs :: "(string, rad_value list) odict"

definition set_attr :: "string \<Rightarrow> rad_value \<Rightarrow> rad_request \<Rightarrow> rad_request" where
  "set_attr name v p = p\<lparr>rq_attrs := AList.update name [v] (rq_attrs p)\<rparr>"

definition add_attr :: "string \<Rightarrow> rad_value \<Rightarrow> rad_request \<Rightarrow> rad_request" where
  "add_attr name v p =
     p\<lparr>rq_attrs := AList.update name ((case map_of (rq_attrs p) name of None \<Rightarrow> [] | Some vs \<Rightarrow> vs) @ [v]) (rq_attrs p)\<rparr>"

text \<open>\<^verbatim>\<open>if ev.get(key): ...\<close> for a text value.\<close>

definition opt_attr :: "(string \<Rightarrow> rad_request \<Rightarrow> rad_request) \<Rightarrow> string option \<Rightarrow> rad_request \<Rightarrow> rad_request" where
  "opt_attr f v p = (case v of None \<Rightarrow> p | Some x \<Rightarrow> if x \<noteq> [] then f x p else p)"

definition status_type :: "int \<Rightarrow> string" where
  "status_type t = (if t = EVENT_SESS_START then ''Start'' else if t = EVENT_SESS_UPDATE then ''Alive''
     else if t = EVENT_SESS_STOP then ''Stop'' else ''Stop'')"

definition octets_lo :: "int \<Rightarrow> int" where "octets_lo n = n AND 0xFFFFFFFF"
definition octets_hi :: "int \<Rightarrow> int" where "octets_hi n = drop_bit 32 n"

text \<open>
  The two kinds of request share their first attributes. \<open>init\<close> is the authenticator pyrad gives a
  new packet, \<open>rnd\<close> the sixteen bytes of \<^verbatim>\<open>os.urandom\<close>.
\<close>

definition build_common :: "int \<Rightarrow> string \<Rightarrow> nl_event \<Rightarrow> bytes \<Rightarrow> int \<Rightarrow> bytes \<Rightarrow> string \<Rightarrow> string \<Rightarrow> rad_request" where
  "build_common code username ev secret rid init nas_ip nas_id =
     opt_attr (\<lambda>mac. add_attr ''Cisco-AVPair'' (RStr (''client-mac-address='' @ format_mac mac 4))) (e_macaddr ev)
     (set_attr ''NAS-Port-Type'' (RStr ''Virtual'')
     (set_attr ''NAS-Port'' (RInt (e_port_number ev))
     (set_attr ''Called-Station-Id'' (RStr nas_id)
     (set_attr ''NAS-Identifier'' (RStr nas_id)
     (set_attr ''NAS-IP-Address'' (RStr nas_ip)
     (set_attr ''Service-Type'' (RStr ''Framed-User'')
     (set_attr ''Calling-Station-Id'' (RStr username)
     (set_attr ''User-Name'' (RStr username)
        \<lparr>rq_code = code, rq_id = rid, rq_secret = secret, rq_authenticator = init, rq_attrs = []\<rparr>))))))))"

definition build_acct :: "nl_event \<Rightarrow> rad_request \<Rightarrow> rad_request res" where
  "build_acct ev p0 =
     (let p1 = set_attr ''Acct-Status-Type'' (RStr (status_type (e_type ev))) p0;
          in_b = e_in_bytes ev; out_b = e_out_bytes ev
      in bindE (if e_nat_ipaddr ev \<noteq> 0
                then bindE (long2ip (e_nat_ipaddr ev)) (\<lambda>ip. Inr (set_attr ''Framed-IP-Address'' (RStr ip) p1))
                else Inr p1)
         (\<lambda>p2. Inr (
            opt_attr (\<lambda>n. add_attr ''Cisco-Service-Info'' (RStr (CHR ''N'' # n))) (e_service_name ev)
            (opt_attr (\<lambda>i. add_attr ''Cisco-AVPair'' (RStr (''parent-session-id='' @ i))) (e_parent_session_id ev)
            (add_attr ''Cisco-Control-Info'' (RStr (CHR ''O'' # show_int (octets_hi out_b) @ '';'' @ show_int (octets_lo out_b)))
            (add_attr ''Cisco-Control-Info'' (RStr (CHR ''I'' # show_int (octets_hi in_b) @ '';'' @ show_int (octets_lo in_b)))
            (opt_attr (\<lambda>c. set_attr ''Class'' (RStr c)) (e_cookie ev)
            (set_attr ''Acct-Output-Gigawords'' (RInt (octets_hi out_b))
            (set_attr ''Acct-Input-Gigawords'' (RInt (octets_hi in_b))
            (set_attr ''Acct-Output-Octets'' (RInt (octets_lo out_b))
            (set_attr ''Acct-Input-Octets'' (RInt (octets_lo in_b))
            (set_attr ''Acct-Output-Packets'' (RInt (e_out_packets ev))
            (set_attr ''Acct-Input-Packets'' (RInt (e_in_packets ev))
            (set_attr ''Acct-Session-Time'' (RInt (e_duration ev))
            (set_attr ''Acct-Session-Id'' (RStr (e_session_id ev))
            (set_attr ''Acct-Authentic'' (RStr ''RADIUS'') p2))))))))))))))))"

definition build_auth :: "string \<Rightarrow> bytes \<Rightarrow> rad_request \<Rightarrow> rad_request" where
  "build_auth username rnd p0 =
     (let p1 = (if rq_authenticator p0 = [] then p0\<lparr>rq_authenticator := rnd\<rparr> else p0)
      in set_attr ''Message-Authenticator'' (RBytes (zeros 16))
         (set_attr ''User-Password'' (RBytes (encrypt_password (rq_secret p1) (rq_authenticator p1) username)) p1))"

definition build :: "string \<Rightarrow> nl_event \<Rightarrow> bytes \<Rightarrow> int \<Rightarrow> bytes \<Rightarrow> bytes \<Rightarrow> string \<Rightarrow> string \<Rightarrow> rad_request res" where
  "build code ev secret rid init rnd nas_ip nas_id =
     bindE (long2ip (e_ipaddr ev)) (\<lambda>username.
       if code = ''Accounting-Request''
       then build_acct ev (build_common 4 username ev secret rid init nas_ip nas_id)
       else Inr (build_auth username rnd (build_common 1 username ev secret rid init nas_ip nas_id)))"


section \<open>The obfuscation is reversible\<close>

lemma length_pad16: "16 dvd length (pad16 pw)"
proof -
  define r where "r = length pw mod 16"
  have "r < 16" by (simp add: r_def)
  then have "r + (16 - r) mod 16 = 0 \<or> r + (16 - r) mod 16 = 16" by (cases "r = 0") auto
  then have "16 dvd r + (16 - r) mod 16" by auto
  moreover have "length (pad16 pw) = 16 * (length pw div 16) + (r + (16 - r) mod 16)"
    using mult_div_mod_eq [of 16 "length pw"] by (simp add: pad16_def r_def)
  ultimately show ?thesis by simp
qed

lemma reveal_obfuscate: "16 dvd length p \<Longrightarrow> reveal secret prev (obfuscate secret prev p) = p"
proof (induction secret prev p rule: obfuscate.induct)
  case (1 secret prev p)
  show ?case
  proof (cases "p = []")
    case True
    then show ?thesis by (simp add: obfuscate.simps reveal.simps)
  next
    case False
    with 1(2) have len: "16 \<le> length p" by (metis dvd_imp_le length_greater_0_conv)
    define chunk where "chunk = xor_bytes (md5 (secret @ prev)) (take 16 p)"
    have cl: "length chunk = 16" using len by (simp add: chunk_def)
    have "16 dvd length (drop 16 p)" using 1(2) len by (simp add: dvd_diff_nat)
    with 1(1) [OF False chunk_def] have ih: "reveal secret chunk (obfuscate secret chunk (drop 16 p)) = drop 16 p"
      by simp
    have "obfuscate secret prev p = chunk @ obfuscate secret chunk (drop 16 p)"
      using False by (subst obfuscate.simps) (simp add: chunk_def Let_def)
    moreover have "reveal secret prev (chunk @ r) = xor_bytes (md5 (secret @ prev)) chunk @ reveal secret chunk r" for r
      using cl by (subst reveal.simps) (auto simp: Let_def)
    moreover have "xor_bytes (md5 (secret @ prev)) chunk = take 16 p"
      unfolding chunk_def by (rule xor_bytes_cancel) simp
    ultimately show ?thesis using ih by simp
  qed
qed

lemma length_obfuscate: "16 dvd length p \<Longrightarrow> length (obfuscate secret prev p) = length p"
proof (induction secret prev p rule: obfuscate.induct)
  case (1 secret prev p)
  show ?case
  proof (cases "p = []")
    case True
    then show ?thesis by (simp add: obfuscate.simps)
  next
    case False
    with 1(2) have len: "16 \<le> length p" by (metis dvd_imp_le length_greater_0_conv)
    then have "16 dvd length (drop 16 p)" using 1(2) by (simp add: dvd_diff_nat)
    with 1(1) [OF False refl] len False show ?thesis
      by (subst obfuscate.simps) (simp add: Let_def)
  qed
qed

end
