(* ===== verification/Isg_Server.thy ===== *)
theory Isg_Server
  imports Backend_Base
begin

unbundle bit_operations_syntax

text \<open>
  The session server of \<^verbatim>\<open>app/src/isg_server.py\<close>: the netlink event loop, the dispatch to the worker
  pools, the authentication worker with its failover over the backends, the accounting worker, and
  the application of an authentication result.

  The backends are not fixed here: \<open>is_open\<close>, \<open>auth\<close> and \<open>acct\<close> are the methods of a pool entry,
  arguments of the definitions that call them. A pool entry comes with the clock reading of its
  circuit check and with the environment \<open>'e\<close> its method runs in. Workers run one at a time, so the
  socket a worker replaces after an error is the one it used.
\<close>

text \<open>The entries of a list, each with the environment of its position.\<close>

definition with_env :: "(nat \<Rightarrow> 'e) \<Rightarrow> 'b list \<Rightarrow> ('b \<times> 'e) list" where
  "with_env envs pool = zip pool (map envs [0..<length pool])"

lemma with_env_simps [simp]: "length (with_env envs pool) = length pool" "map fst (with_env envs pool) = pool"
  by (simp_all add: with_env_def)


section \<open>Applying an authentication result\<close>

definition walled_garden :: "string list \<Rightarrow> (string, string) odict \<Rightarrow> (string, string) odict" where
  "walled_garden entries srv =
     foldl (\<lambda>srv entry. case match_service entry of
              Some (status, name) \<Rightarrow> setdefault name status srv | None \<Rightarrow> srv) srv entries"

definition add_dynamic :: "config \<Rightarrow> dynamic_service \<Rightarrow> config" where
  "add_dynamic cfg ds =
     (if ds_name ds \<in> dom (map_of (c_services cfg)) then cfg
      else snd (prepare (cfg\<lparr>c_services := AList.update (ds_name ds)
             (new_service [ds_traffic_class ds] (ds_rate_info ds)) (c_services cfg)\<rparr>) (ds_name ds)))"

definition sdesc_event :: "dynamic_service \<Rightarrow> evdict" where
  "sdesc_event ds = [Ktype \<mapsto> VInt EVENT_SDESC_ADD, Knehash_tc_name \<mapsto> VStr (ds_traffic_class ds),
     Kservice_name \<mapsto> VStr (ds_name ds), Kservice_flags \<mapsto> VInt SERVICE_DESC_IS_DYNAMIC]"

fun register_dynamic :: "dynamic_service list \<Rightarrow> (string, string) odict \<Rightarrow> config \<Rightarrow> nlsock
    \<Rightarrow> (string, string) odict res \<times> config \<times> nlsock" where
  "register_dynamic [] srv cfg s = (Inr srv, cfg, s)"
| "register_dynamic (ds # dss) srv cfg s =
     (let cfg' = add_dynamic cfg ds in
      case send_only (sdesc_event ds) s of
        (Inl e, s') \<Rightarrow> (Inl e, cfg', s')
      | (Inr _, s') \<Rightarrow> register_dynamic dss (setdefault (ds_name ds) ''A'' srv) cfg' s')"

text \<open>\<^verbatim>\<open>_limits\<close>\<close>

definition limits :: "config \<Rightarrow> string \<Rightarrow> bool" where
  "limits cfg name =
     (case map_of (c_services cfg) name of
        None \<Rightarrow> False
      | Some svc \<Rightarrow> s_type svc = ''tagger'' \<or> s_u_rate svc \<noteq> 0 \<or> s_d_rate svc \<noteq> 0)"

definition reject_event :: "config \<Rightarrow> int \<Rightarrow> evdict" where
  "reject_event cfg port = [Ktype \<mapsto> VInt EVENT_SESS_CHANGE, Kport_number \<mapsto> VInt port,
     Kmax_duration \<mapsto> VInt (c_unauth_session_max_duration cfg)]"

definition or_flag :: "int \<Rightarrow> pyval \<Rightarrow> pyval" where
  "or_flag f v = (case v of VInt n \<Rightarrow> VInt (n OR f) | _ \<Rightarrow> v)"

definition service_event :: "config \<Rightarrow> int \<Rightarrow> string \<times> string \<Rightarrow> evdict res" where
  "service_event cfg port entry =
     (let (svc_name, svc_status) = entry in
      bindE (build_event cfg svc_name) (\<lambda>sev.
        let sev1 = sev(Ktype \<mapsto> VInt EVENT_SERV_APPLY, Kport_number \<mapsto> VInt port) in
        Inr (if svc_status = ''A''
             then sev1(Kflags \<mapsto> or_flag SERVICE_STATUS_ON (ev_get sev1 Kflags (VInt 0))) else sev1)))"

fun apply_services :: "config \<Rightarrow> int \<Rightarrow> (string, string) odict \<Rightarrow> unit nl" where
  "apply_services cfg port [] = nl_return ()"
| "apply_services cfg port (entry # rest) =
     nl_bind (nl_lift (service_event cfg port entry)) (\<lambda>sev.
     nl_bind (send_only sev) (\<lambda>_. apply_services cfg port rest))"

definition from_option :: "int option \<Rightarrow> int \<Rightarrow> int" where
  "from_option v d = (case v of None \<Rightarrow> d | Some n \<Rightarrow> n)"

definition approve_base :: "config \<Rightarrow> auth_result \<Rightarrow> int \<Rightarrow> evdict" where
  "approve_base cfg r port =
     [Ktype \<mapsto> VInt EVENT_SESS_APPROVE, Kport_number \<mapsto> VInt port, Kflags \<mapsto> VInt 0,
      Kalive_interval \<mapsto> VInt (from_option (ar_alive_interval r) (c_session_alive_interval cfg)),
      Kidle_timeout \<mapsto> VInt (from_option (ar_idle_timeout r) (c_session_idle_timeout cfg)),
      Kmax_duration \<mapsto> VInt (if ar_accept r
         then from_option (ar_max_duration r) (c_session_max_duration cfg)
         else c_unauth_session_max_duration cfg)]"

definition with_cookie :: "auth_result \<Rightarrow> evdict \<Rightarrow> evdict" where
  "with_cookie r oev =
     (case ar_cookie r of Some c \<Rightarrow> if c \<noteq> [] then oev(Kcookie \<mapsto> VStr c) else oev | None \<Rightarrow> oev)"

definition with_nat :: "auth_result \<Rightarrow> evdict \<Rightarrow> evdict res" where
  "with_nat r oev =
     (case ar_nat_ip r of
        Some ip \<Rightarrow> if ip \<noteq> [] then bindE (ip2long ip) (\<lambda>n. Inr (oev(Knat_ipaddr \<mapsto> VInt n))) else Inr oev
      | None \<Rightarrow> Inr oev)"

definition with_rates :: "int list \<Rightarrow> evdict \<Rightarrow> evdict" where
  "with_rates q oev =
     (if length q = 4
      then oev(Kin_rate \<mapsto> VInt (q ! 0), Kin_burst \<mapsto> VInt (q ! 1),
               Kout_rate \<mapsto> VInt (q ! 2), Kout_burst \<mapsto> VInt (q ! 3))
      else oev)"

definition with_no_acct :: "config \<Rightarrow> auth_result \<Rightarrow> evdict \<Rightarrow> evdict" where
  "with_no_acct cfg r oev =
     (if c_no_accounting cfg \<or> ar_no_accounting r \<or> \<not> ar_accept r
      then oev(Kflags \<mapsto> or_flag NO_ACCT (ev_get oev Kflags (VInt 0))) else oev)"

definition approve_event :: "config \<Rightarrow> auth_result \<Rightarrow> int \<Rightarrow> evdict res" where
  "approve_event cfg r port =
     bindE (with_nat r (with_cookie r (approve_base cfg r port)))
       (\<lambda>oev. Inr (with_no_acct cfg r (with_rates (ar_rate_info r) oev)))"

text \<open>From the resolution on, the configuration is only read.\<close>

definition has_active_service :: "config \<Rightarrow> (string, string) odict \<Rightarrow> bool" where
  "has_active_service cfg applied = list_ex (\<lambda>(n, st). st = ''A'' \<and> limits cfg n) applied"

definition finish_auth :: "config \<Rightarrow> auth_result \<Rightarrow> int \<Rightarrow> (string, string) odict \<Rightarrow> unit nl" where
  "finish_auth cfg r port srv =
     (let applied = sanitize cfg srv;
          has_rate = (length (ar_rate_info r) = 4)
      in if \<not> ar_accept r \<and> \<not> has_active_service cfg applied \<and> \<not> has_rate
         then send_only (reject_event cfg port)
         else nl_bind (apply_services cfg port applied) (\<lambda>_.
              nl_bind (nl_lift (approve_event cfg r port)) send_only))"

definition requested_services :: "config \<Rightarrow> auth_result \<Rightarrow> (string, string) odict" where
  "requested_services cfg r =
     (if ar_accept r then ar_services r else walled_garden (c_unauth_service_name_list cfg) (ar_services r))"

definition apply_auth_result :: "auth_result \<Rightarrow> nl_event \<Rightarrow> config \<Rightarrow> nlsock \<Rightarrow> unit res \<times> config \<times> nlsock" where
  "apply_auth_result r ev cfg s =
     (case long2ip (e_ipaddr ev) of
        Inl e \<Rightarrow> (Inl e, cfg, s)
      | Inr ip \<Rightarrow>
          (case register_dynamic (ar_dynamic_services r) (requested_services cfg r) cfg s of
             (Inl e, cfg', s') \<Rightarrow> (Inl e, cfg', s')
           | (Inr srv, cfg', s') \<Rightarrow>
               let (res, s'') = finish_auth cfg' r (e_port_number ev) srv s' in (res, cfg', s'')))"


section \<open>The worker threads\<close>

fun auth_loop :: "(rat \<Rightarrow> 'b \<Rightarrow> bool \<times> 'b) \<Rightarrow> ('e \<Rightarrow> nl_event \<Rightarrow> 'b \<Rightarrow> auth_result res \<times> 'b)
    \<Rightarrow> nl_event \<Rightarrow> ('b \<times> rat \<times> 'e) list \<Rightarrow> auth_result option res \<times> 'b list" where
  "auth_loop is_open auth ev [] = (Inr None, [])"
| "auth_loop is_open auth ev ((b, now, env) # rest) =
     (let (opened, b1) = is_open now b in
      if opened then (let (r, bs) = auth_loop is_open auth ev rest in (r, b1 # bs))
      else (case auth env ev b1 of
              (Inr result, b2) \<Rightarrow> (Inr (Some result), b2 # map fst rest)
            | (Inl e, b2) \<Rightarrow>
                if e = BackendUnavailable
                then (let (r, bs) = auth_loop is_open auth ev rest in (r, b2 # bs))
                else (Inl e, b2 # map fst rest)))"

text \<open>
  The state of the server. \<open>sv_tasks\<close> are the submitted work items; an executor exists exactly when
  its number of workers is positive.
\<close>

datatype task = AuthTask nl_event | AcctTask nl_event

record 'b isg_server =
  sv_cfg :: config
  sv_auth_pool :: "'b list"
  sv_acct_pool :: "'b list"
  sv_auth_nl :: nlsock
  sv_tasks :: "task list"

definition new_isg_server :: "config \<Rightarrow> 'b list \<Rightarrow> 'b list \<Rightarrow> nlsock \<Rightarrow> 'b isg_server" where
  "new_isg_server cfg auth_pool acct_pool auth_nl = \<lparr>sv_cfg = cfg, sv_auth_pool = auth_pool,
     sv_acct_pool = acct_pool, sv_auth_nl = auth_nl, sv_tasks = []\<rparr>"

text \<open>
  \<open>envs\<close> gives each backend of the pool its clock reading and environment; \<open>fresh\<close> is the socket
  \<^verbatim>\<open>open_auth_socket\<close> returns.
\<close>

definition auth_thread :: "(rat \<Rightarrow> 'b \<Rightarrow> bool \<times> 'b) \<Rightarrow> ('e \<Rightarrow> nl_event \<Rightarrow> 'b \<Rightarrow> auth_result res \<times> 'b)
    \<Rightarrow> nl_event \<Rightarrow> (nat \<Rightarrow> rat \<times> 'e) \<Rightarrow> nlsock \<Rightarrow> 'b isg_server \<Rightarrow> unit res \<times> 'b isg_server" where
  "auth_thread is_open auth ev envs fresh sv =
     (case long2ip (e_ipaddr ev) of
        Inl e \<Rightarrow> (Inl e, sv)
      | Inr ip \<Rightarrow>
          let (r, pool) = auth_loop is_open auth ev (with_env envs (sv_auth_pool sv));
              sv1 = sv\<lparr>sv_auth_pool := pool\<rparr>
          in (case r of
                Inl e \<Rightarrow> (Inl e, sv1)
              | Inr None \<Rightarrow> (Inr (), sv1)
              | Inr (Some result) \<Rightarrow>
                  (case apply_auth_result result ev (sv_cfg sv1) (sv_auth_nl sv1) of
                     (Inr _, cfg, s) \<Rightarrow> (Inr (), sv1\<lparr>sv_cfg := cfg, sv_auth_nl := s\<rparr>)
                   | (Inl e, cfg, s) \<Rightarrow>
                       if is_oserror e then (Inr (), sv1\<lparr>sv_cfg := cfg, sv_auth_nl := fresh\<rparr>)
                       else (Inl e, sv1\<lparr>sv_cfg := cfg, sv_auth_nl := s\<rparr>))))"

fun acct_loop :: "(rat \<Rightarrow> 'b \<Rightarrow> bool \<times> 'b) \<Rightarrow> ('e \<Rightarrow> nl_event \<Rightarrow> 'b \<Rightarrow> unit res \<times> 'b)
    \<Rightarrow> nl_event \<Rightarrow> ('b \<times> rat \<times> 'e) list \<Rightarrow> unit res \<times> 'b list" where
  "acct_loop is_open acct ev [] = (Inr (), [])"
| "acct_loop is_open acct ev ((b, now, env) # rest) =
     (let (opened, b1) = is_open now b in
      if opened then (let (r, bs) = acct_loop is_open acct ev rest in (r, b1 # bs))
      else (case acct env ev b1 of
              (Inr _, b2) \<Rightarrow> (let (r, bs) = acct_loop is_open acct ev rest in (r, b2 # bs))
            | (Inl e, b2) \<Rightarrow>
                if is_exception e then (let (r, bs) = acct_loop is_open acct ev rest in (r, b2 # bs))
                else (Inl e, b2 # map fst rest)))"

definition acct_thread :: "(rat \<Rightarrow> 'b \<Rightarrow> bool \<times> 'b) \<Rightarrow> ('e \<Rightarrow> nl_event \<Rightarrow> 'b \<Rightarrow> unit res \<times> 'b)
    \<Rightarrow> nl_event \<Rightarrow> (nat \<Rightarrow> rat \<times> 'e) \<Rightarrow> 'b isg_server \<Rightarrow> unit res \<times> 'b isg_server" where
  "acct_thread is_open acct ev envs sv =
     (let (r, pool) = acct_loop is_open acct ev (with_env envs (sv_acct_pool sv))
      in (r, sv\<lparr>sv_acct_pool := pool\<rparr>))"


section \<open>Dispatch and the event loop\<close>

text \<open>\<^verbatim>\<open>any(not b.is_circuit_open() for b in pool)\<close> asks the backends up to the first available one.\<close>

fun any_available :: "(rat \<Rightarrow> 'b \<Rightarrow> bool \<times> 'b) \<Rightarrow> ('b \<times> rat) list \<Rightarrow> bool \<times> 'b list" where
  "any_available is_open [] = (False, [])"
| "any_available is_open ((b, now) # rest) =
     (let (opened, b1) = is_open now b in
      if opened then (let (a, bs) = any_available is_open rest in (a, b1 # bs))
      else (True, b1 # map fst rest))"

definition dispatch :: "(rat \<Rightarrow> 'b \<Rightarrow> bool \<times> 'b) \<Rightarrow> (nat \<Rightarrow> rat) \<Rightarrow> nl_event \<Rightarrow> 'b isg_server
    \<Rightarrow> unit res \<times> 'b isg_server" where
  "dispatch is_open clk ev sv =
     (case long2ip (e_ipaddr ev) of
        Inl e \<Rightarrow> (Inl e, sv)
      | Inr ip \<Rightarrow> (Inr (),
          if e_type ev = EVENT_SESS_CREATE then
            if 0 < c_auth_workers (sv_cfg sv) then
              let (a, pool) = any_available is_open (with_env clk (sv_auth_pool sv));
                  sv1 = sv\<lparr>sv_auth_pool := pool\<rparr>
              in if a then sv1\<lparr>sv_tasks := sv_tasks sv1 @ [AuthTask ev]\<rparr> else sv1
            else sv
          else if e_type ev \<in> {EVENT_SESS_START, EVENT_SESS_UPDATE, EVENT_SESS_STOP} then
            if 0 < c_acct_workers (sv_cfg sv) \<and> e_flags ev AND NO_ACCT = 0 then
              let (a, pool) = any_available is_open (with_env clk (sv_acct_pool sv));
                  sv1 = sv\<lparr>sv_acct_pool := pool\<rparr>
              in if a then sv1\<lparr>sv_tasks := sv_tasks sv1 @ [AcctTask ev]\<rparr> else sv1
            else sv
          else sv))"

text \<open>
  One round of the loop: the outcome of \<^verbatim>\<open>recv(1500)\<close> and the clock readings of the dispatch. The
  loop ends when the stop event is set, that is at the end of the list.
\<close>

definition loop_round :: "(rat \<Rightarrow> 'b \<Rightarrow> bool \<times> 'b) \<Rightarrow> recv_outcome \<times> (nat \<Rightarrow> rat) \<Rightarrow> 'b isg_server
    \<Rightarrow> unit res \<times> 'b isg_server" where
  "loop_round is_open rnd sv =
     (case fst rnd of
        RTimeout \<Rightarrow> (Inr (), sv)
      | ROSError \<Rightarrow> (Inr (), sv)
      | RInterrupt \<Rightarrow> (Inl KeyboardInterrupt, sv)
      | RData d \<Rightarrow>
          (case parse_event (take 1500 d) of
             Inl e \<Rightarrow> (if is_exception e then Inr () else Inl e, sv)
           | Inr ev \<Rightarrow>
               (case dispatch is_open (snd rnd) ev sv of
                  (Inr _, sv') \<Rightarrow> (Inr (), sv')
                | (Inl e, sv') \<Rightarrow> (if is_exception e then Inr () else Inl e, sv'))))"

fun run_loop :: "(rat \<Rightarrow> 'b \<Rightarrow> bool \<times> 'b) \<Rightarrow> (recv_outcome \<times> (nat \<Rightarrow> rat)) list \<Rightarrow> 'b isg_server
    \<Rightarrow> unit res \<times> 'b isg_server" where
  "run_loop is_open [] sv = (Inr (), sv)"
| "run_loop is_open (r # rs) sv =
     (case loop_round is_open r sv of
        (Inl e, sv') \<Rightarrow> (Inl e, sv')
      | (Inr _, sv') \<Rightarrow> run_loop is_open rs sv')"

text \<open>\<^verbatim>\<open>run\<close>: the listener registers itself on a socket of its own, then loops.\<close>

definition run_server :: "(rat \<Rightarrow> 'b \<Rightarrow> bool \<times> 'b) \<Rightarrow> nlsock \<Rightarrow> (nat \<Rightarrow> nat \<Rightarrow> rat) \<Rightarrow> 'b isg_server
    \<Rightarrow> unit res \<times> nlsock \<times> 'b isg_server" where
  "run_server is_open sk clk sv =
     (case send_only [Ktype \<mapsto> VInt EVENT_LISTENER_REG] sk of
        (Inl e, sk') \<Rightarrow> (Inl e, sk', sv)
      | (Inr _, sk') \<Rightarrow>
          let (r, sv') = run_loop is_open (with_env clk (sk_recvs sk')) sv in (r, sk', sv'))"


section \<open>What is sent for a result\<close>

text \<open>
  The specification: the events a result leads to, in order, and the exception that ends the
  application when the NAT address does not parse. The code sends a prefix of the plan, and all of
  it when it returns normally.
\<close>

definition plan_config :: "config \<Rightarrow> auth_result \<Rightarrow> config" where
  "plan_config cfg r = foldl add_dynamic cfg (ar_dynamic_services r)"

definition plan_services :: "config \<Rightarrow> auth_result \<Rightarrow> (string, string) odict" where
  "plan_services cfg r =
     foldl (\<lambda>srv d. setdefault (ds_name d) ''A'' srv) (requested_services cfg r) (ar_dynamic_services r)"

definition plan_applied :: "config \<Rightarrow> auth_result \<Rightarrow> (string, string) odict" where
  "plan_applied cfg r = sanitize (plan_config cfg r) (plan_services cfg r)"

definition left_unapproved :: "config \<Rightarrow> auth_result \<Rightarrow> bool" where
  "left_unapproved cfg r \<longleftrightarrow> \<not> ar_accept r \<and> length (ar_rate_info r) \<noteq> 4
     \<and> (\<forall>n. active (plan_applied cfg r) n \<longrightarrow> \<not> limits (plan_config cfg r) n)"

definition plan_events :: "config \<Rightarrow> auth_result \<Rightarrow> int \<Rightarrow> evdict list" where
  "plan_events cfg r port =
     map sdesc_event (ar_dynamic_services r) @
     (if left_unapproved cfg r then [reject_event (plan_config cfg r) port]
      else map (\<lambda>e. projr (service_event (plan_config cfg r) port e)) (plan_applied cfg r)
        @ (case approve_event (plan_config cfg r) r port of Inl e \<Rightarrow> [] | Inr ev \<Rightarrow> [ev]))"

definition plan_outcome :: "config \<Rightarrow> auth_result \<Rightarrow> int \<Rightarrow> unit res" where
  "plan_outcome cfg r port =
     (if left_unapproved cfg r then Inr ()
      else bindE (approve_event (plan_config cfg r) r port) (\<lambda>_. Inr ()))"

lemma service_event_known:
  "n \<in> dom (map_of (c_services cfg)) \<Longrightarrow>
   service_event cfg port (n, st) = Inr (projr (service_event cfg port (n, st)))"
  by (auto simp: service_event_def build_event_def Let_def)

lemma apply_services_send_all:
  "\<forall>e \<in> set entries. fst e \<in> dom (map_of (c_services cfg)) \<Longrightarrow>
   apply_services cfg port entries = send_all (map (\<lambda>e. projr (service_event cfg port e)) entries)"
proof (induction entries)
  case (Cons e es)
  then obtain sev where "service_event cfg port e = Inr sev"
    using service_event_known [of "fst e" cfg port "snd e"] by auto
  with Cons show ?case by simp
qed simp

lemma register_dynamic_send_all:
  assumes "register_dynamic dss srv cfg s = (res, cfg', s')"
  obtains e where "send_all (map sdesc_event dss) s = (Inl e, s')" "res = Inl e"
  | "send_all (map sdesc_event dss) s = (Inr (), s')"
    "res = Inr (foldl (\<lambda>srv d. setdefault (ds_name d) ''A'' srv) srv dss)" "cfg' = foldl add_dynamic cfg dss"
  using assms
proof (induction dss arbitrary: srv cfg s thesis)
  case (Cons d dss)
  obtain r s1 where r: "send_only (sdesc_event d) s = (r, s1)" by fastforce
  show ?case
  proof (cases r)
    case (Inl e)
    with r Cons.prems show ?thesis by (simp add: nl_bind_def)
  next
    case (Inr u)
    from Cons.prems(3) r Inr
    have reg: "register_dynamic dss (setdefault (ds_name d) ''A'' srv) (add_dynamic cfg d) s1 = (res, cfg', s')"
      by simp
    have eq: "send_all (map sdesc_event (d # dss)) s = send_all (map sdesc_event dss) s1"
      using r Inr by (simp add: nl_bind_def)
    show ?thesis
      by (rule Cons.IH [OF _ _ reg]) (use Cons.prems(1,2) eq in \<open>simp_all\<close>)
  qed
qed (simp add: nl_return_def)

lemma plan_services_wf:
  assumes "auth_result_wf r"
  shows "wf_request (plan_services cfg r)"
proof -
  have sd: "wf_request (setdefault n v srv)" if "wf_request srv" "n \<noteq> []" for n v srv
    using that by (simp add: setdefault_def update_request split: option.split)
  have w: "wf_request (walled_garden entries srv)" if "wf_request srv" for entries srv
    using that unfolding walled_garden_def
    by (induction entries arbitrary: srv) (auto simp: sd dest: match_service_Some split: option.split)
  have d: "wf_request (foldl (\<lambda>srv d. setdefault (ds_name d) ''A'' srv) srv dss)"
    if "wf_request srv" "list_all (\<lambda>d. ds_name d \<noteq> []) dss" for srv dss
    using that by (induction dss arbitrary: srv) (auto simp: sd)
  show ?thesis
    unfolding plan_services_def requested_services_def
    by (rule d) (use assms w in \<open>auto simp: auth_result_wf_def list_all_iff\<close>)
qed

lemma has_active_service_iff:
  assumes "wf_request srv"
  shows "has_active_service cfg (sanitize cfg srv) \<longleftrightarrow> (\<exists>n. active (sanitize cfg srv) n \<and> limits cfg n)"
  using od.mem_items_iff [OF san.distinct_keys [OF assms], of _ _ cfg]
  by (auto simp: has_active_service_def list_ex_iff active_def)

lemma finish_auth_send_all:
  assumes "auth_result_wf r"
  shows "finish_auth (plan_config cfg r) r port (plan_services cfg r) =
    nl_bind (send_all (drop (length (ar_dynamic_services r)) (plan_events cfg r port)))
      (\<lambda>_. nl_lift (plan_outcome cfg r port))"
proof -
  note wf = plan_services_wf [OF assms, of cfg]
  have lu: "left_unapproved cfg r \<longleftrightarrow>
     \<not> ar_accept r \<and> \<not> has_active_service (plan_config cfg r) (plan_applied cfg r) \<and> length (ar_rate_info r) \<noteq> 4"
    unfolding plan_applied_def left_unapproved_def has_active_service_iff [OF wf] by blast
  have known: "\<forall>e \<in> set (plan_applied cfg r). fst e \<in> dom (map_of (c_services (plan_config cfg r)))"
    unfolding plan_applied_def using san.mem_known [OF wf] by (metis prod.collapse)
  show ?thesis
  proof (cases "left_unapproved cfg r")
    case True
    then show ?thesis
      by (simp add: finish_auth_def plan_applied_def [symmetric] lu [symmetric] plan_events_def plan_outcome_def send_all_single
          del: send_all.simps)
  next
    case False
    then show ?thesis
      unfolding finish_auth_def plan_applied_def [symmetric] Let_def lu [symmetric, simplified]
      by (cases "approve_event (plan_config cfg r) r port")
        (simp_all add: plan_events_def plan_outcome_def send_all_append send_all_single nl_bind_assoc
          apply_services_send_all [OF known] del: send_all.simps)
  qed
qed


lemma plan_events_split:
  "plan_events cfg r port = map sdesc_event (ar_dynamic_services r)
     @ drop (length (ar_dynamic_services r)) (plan_events cfg r port)"
  by (simp add: plan_events_def)

lemma apply_auth_result_plan:
  assumes wf: "auth_result_wf r" and ip: "long2ip (e_ipaddr ev) = Inr ip"
    and res: "apply_auth_result r ev cfg s = (res, cfg', s')"
  shows "\<exists>ms. sk_sent s' = sk_sent s @ ms \<and> frames_prefix (sk_portid s) (plan_events cfg r (e_port_number ev)) ms
    \<and> (res = Inr () \<longleftrightarrow> length ms = length (plan_events cfg r (e_port_number ev))
        \<and> plan_outcome cfg r (e_port_number ev) = Inr ())
    \<and> (res = Inr () \<longrightarrow> cfg' = plan_config cfg r)"
proof -
  let ?port = "e_port_number ev"
  let ?dyn = "map sdesc_event (ar_dynamic_services r)"
  let ?rest = "drop (length (ar_dynamic_services r)) (plan_events cfg r ?port)"
  have split: "plan_events cfg r ?port = ?dyn @ ?rest" by (rule plan_events_split)
  have nonempty: "length ?rest > 0 \<or> plan_outcome cfg r ?port \<noteq> Inr ()"
    by (auto simp: plan_events_def plan_outcome_def bindE_eq_Inr split: sum.splits)
  obtain res1 cfg1 s1 where reg:
    "register_dynamic (ar_dynamic_services r) (requested_services cfg r) cfg s = (res1, cfg1, s1)"
    by (cases "register_dynamic (ar_dynamic_services r) (requested_services cfg r) cfg s") auto
  from send_all_prefix [of ?dyn s] obtain ms1 where
    ms1: "sk_sent (snd (send_all ?dyn s)) = sk_sent s @ ms1" "frames_prefix (sk_portid s) ?dyn ms1"
      "fst (send_all ?dyn s) = Inr () \<longleftrightarrow> length ms1 = length ?dyn"
      "sk_portid (snd (send_all ?dyn s)) = sk_portid s" by blast
  from reg show ?thesis
  proof (cases rule: register_dynamic_send_all)
    case (1 e)
    with reg ip res have "res = Inl e" "s' = s1" by (simp_all add: apply_auth_result_def)
    moreover have "length ms1 \<noteq> length (plan_events cfg r ?port)"
      using ms1(2,3) 1 by (subst split) (auto simp: frames_prefix_def)
    moreover have "frames_prefix (sk_portid s) (plan_events cfg r ?port) ms1"
      by (subst split) (rule frames_prefix_append_left [OF ms1(2)])
    ultimately show ?thesis using ms1(1) 1 by (intro exI [of _ ms1]) simp
  next
    case 2
    have s1: "snd (send_all ?dyn s) = s1" "length ms1 = length ?dyn" using 2 ms1(3) by simp_all
    have cfg1: "cfg1 = plan_config cfg r"
      and srv: "res1 = Inr (plan_services cfg r)" using 2 by (simp_all add: plan_config_def plan_services_def)
    let ?m = "nl_bind (send_all ?rest) (\<lambda>_. nl_lift (plan_outcome cfg r ?port))"
    have fin: "(res, s') = ?m s1" "cfg' = cfg1"
      using res ip reg srv finish_auth_send_all [OF wf, of cfg ?port] cfg1
      by (simp_all add: apply_auth_result_def split: prod.splits)
    from send_all_prefix [of ?rest s1] obtain ms2 where
      ms2: "sk_sent (snd (send_all ?rest s1)) = sk_sent s1 @ ms2" "frames_prefix (sk_portid s1) ?rest ms2"
        "fst (send_all ?rest s1) = Inr () \<longleftrightarrow> length ms2 = length ?rest" by blast
    obtain r2 s2 where r2: "send_all ?rest s1 = (r2, s2)" by fastforce
    have eq: "?m s1 = (case r2 of Inl e \<Rightarrow> Inl e | Inr _ \<Rightarrow> plan_outcome cfg r ?port, s2)"
      using r2 by (simp add: nl_bind_def nl_lift_def split: sum.splits)
    have s': "s' = snd (send_all ?rest s1)" using fin(1) eq r2 by simp
    have res': "res = Inr () \<longleftrightarrow> length ms2 = length ?rest \<and> plan_outcome cfg r ?port = Inr ()"
      using fin(1) eq r2 ms2(3) by (cases r2) auto
    have "frames_prefix (sk_portid s) (plan_events cfg r ?port) (ms1 @ ms2)"
      using ms1(2,4) s1 ms2(2) by (subst split) (auto intro: frames_prefix_append)
    moreover have "length (ms1 @ ms2) = length (plan_events cfg r ?port) \<longleftrightarrow> length ms2 = length ?rest"
      using s1(2) by (subst (1) split) (simp del: length_drop)
    ultimately show ?thesis
      using s' ms1(1) ms2(1) s1(1) res' fin(2) cfg1 by (intro exI [of _ "ms1 @ ms2"]) simp
  qed
qed

lemma event_types:
  "ev_type (blank ++ sdesc_event d) = VInt EVENT_SDESC_ADD"
  "ev_type (blank ++ reject_event cfg port) = VInt EVENT_SESS_CHANGE"
  "approve_event cfg r port = Inr oev \<Longrightarrow> ev_type (blank ++ oev) = VInt EVENT_SESS_APPROVE"
  "service_event cfg port e = Inr sev \<Longrightarrow> ev_type (blank ++ sev) = VInt EVENT_SERV_APPLY"
  by (auto simp: ev_type_def ev_get_def sdesc_event_def reject_event_def approve_event_def service_event_def
      with_no_acct_def with_rates_def with_nat_def with_cookie_def approve_base_def
      bindE_eq_Inr Let_def split: option.splits if_splits prod.splits)

lemma approve_is_last:
  assumes wf: "auth_result_wf r" and pre: "frames_prefix p (plan_events cfg r port) ms"
    and m: "m \<in> set ms" "msg_type m = EVENT_SESS_APPROVE"
  shows "\<not> left_unapproved cfg r \<and> length ms = length (plan_events cfg r port) \<and> m = last ms"
proof -
  let ?sv = "map (\<lambda>e. projr (service_event (plan_config cfg r) port e)) (plan_applied cfg r)"
  let ?pl = "plan_events cfg r port"
  from m(1) obtain i where i: "i < length ms" "ms ! i = m" by (auto simp: in_set_conv_nth)
  with pre have fr: "frame p (?pl ! i) = Inr m" and ip: "i < length ?pl" "length ms \<le> length ?pl"
    by (auto simp: frames_prefix_def list_all2_conv_all_nth)
  with m(2) frame_msg_type [OF fr] have ty: "ival (ev_type (blank ++ (?pl ! i))) = EVENT_SESS_APPROVE" by simp
  have known: "\<exists>sev. service_event (plan_config cfg r) port e = Inr sev" if "e \<in> set (plan_applied cfg r)" for e
    using san.mem_known [OF plan_services_wf [OF wf], of "fst e" "snd e" "plan_config cfg r" cfg] that
      service_event_known [of "fst e" "plan_config cfg r" port "snd e"]
    by (auto simp: plan_applied_def)
  have other: "ival (ev_type (blank ++ x)) \<noteq> EVENT_SESS_APPROVE"
    if "x \<in> set (map sdesc_event (ar_dynamic_services r)) \<union> set ?sv \<union> {reject_event (plan_config cfg r) port}" for x
    using that known by (fastforce simp: event_types event_codes)
  have lu: "\<not> left_unapproved cfg r"
  proof
    assume "left_unapproved cfg r"
    then have "?pl ! i \<in> set (map sdesc_event (ar_dynamic_services r)) \<union> set ?sv \<union> {reject_event (plan_config cfg r) port}"
      using nth_mem [OF ip(1)] by (auto simp: plan_events_def)
    with other ty show False by blast
  qed
  let ?front = "map sdesc_event (ar_dynamic_services r) @ ?sv"
  have pl: "?pl = ?front @ (case approve_event (plan_config cfg r) r port of Inl e \<Rightarrow> [] | Inr ev \<Rightarrow> [ev])"
    using lu by (simp add: plan_events_def)
  have "\<not> i < length ?front"
  proof
    assume "i < length ?front"
    then have "?pl ! i \<in> set ?front" unfolding pl using nth_mem by (metis nth_append)
    with other ty show False by auto
  qed
  with ip i pl have "Suc i = length ?pl" by (auto split: sum.splits)
  with ip i lu have "length ms = length ?pl" "m = last ms"
    by (auto simp: last_conv_nth) (metis Suc_lessI diff_Suc_1 last_conv_nth le_antisym length_0_conv not_less_zero Suc_leI)
  with lu show ?thesis by blast
qed

lemma approve_event_fields:
  assumes "approve_event cfg r port = Inr oev"
  shows "oev Ktype = Some (VInt EVENT_SESS_APPROVE)" "oev Kport_number = Some (VInt port)"
    "oev Kalive_interval = Some (VInt (from_option (ar_alive_interval r) (c_session_alive_interval cfg)))"
    "oev Kidle_timeout = Some (VInt (from_option (ar_idle_timeout r) (c_session_idle_timeout cfg)))"
    "oev Kmax_duration = Some (VInt (if ar_accept r then from_option (ar_max_duration r) (c_session_max_duration cfg)
       else c_unauth_session_max_duration cfg))"
    "oev Kflags = Some (VInt (if c_no_accounting cfg \<or> ar_no_accounting r \<or> \<not> ar_accept r then NO_ACCT else 0))"
    "oev Kin_rate = (if length (ar_rate_info r) = 4 then Some (VInt (ar_rate_info r ! 0)) else None)"
    "oev Kin_burst = (if length (ar_rate_info r) = 4 then Some (VInt (ar_rate_info r ! 1)) else None)"
    "oev Kout_rate = (if length (ar_rate_info r) = 4 then Some (VInt (ar_rate_info r ! 2)) else None)"
    "oev Kout_burst = (if length (ar_rate_info r) = 4 then Some (VInt (ar_rate_info r ! 3)) else None)"
proof -
  from assms obtain x where x: "with_nat r (with_cookie r (approve_base cfg r port)) = Inr x"
    and oev: "oev = with_no_acct cfg r (with_rates (ar_rate_info r) x)"
    by (auto simp: approve_event_def bindE_eq_Inr)
  have keys: "x k = approve_base cfg r port k" if "k \<noteq> Kcookie" "k \<noteq> Knat_ipaddr" for k
    using x that by (auto simp: with_nat_def with_cookie_def bindE_eq_Inr split: option.splits if_splits)
  note d = oev with_no_acct_def with_rates_def keys approve_base_def or_flag_def ev_get_def
  show "oev Ktype = Some (VInt EVENT_SESS_APPROVE)" "oev Kport_number = Some (VInt port)"
    "oev Kalive_interval = Some (VInt (from_option (ar_alive_interval r) (c_session_alive_interval cfg)))"
    "oev Kidle_timeout = Some (VInt (from_option (ar_idle_timeout r) (c_session_idle_timeout cfg)))"
    "oev Kmax_duration = Some (VInt (if ar_accept r then from_option (ar_max_duration r) (c_session_max_duration cfg)
       else c_unauth_session_max_duration cfg))"
    "oev Kflags = Some (VInt (if c_no_accounting cfg \<or> ar_no_accounting r \<or> \<not> ar_accept r then NO_ACCT else 0))"
    "oev Kin_rate = (if length (ar_rate_info r) = 4 then Some (VInt (ar_rate_info r ! 0)) else None)"
    "oev Kin_burst = (if length (ar_rate_info r) = 4 then Some (VInt (ar_rate_info r ! 1)) else None)"
    "oev Kout_rate = (if length (ar_rate_info r) = 4 then Some (VInt (ar_rate_info r ! 2)) else None)"
    "oev Kout_burst = (if length (ar_rate_info r) = 4 then Some (VInt (ar_rate_info r ! 3)) else None)"
    by (simp_all add: d)
qed

text \<open>
  C3: applying an authentication result implements its plan: what goes to the kernel are, in this
  order, the descriptions of the dynamic services, the resolved services and the approval, or the
  single reject event; a failure leaves a prefix of them sent, and the call returns normally exactly
  when all of them were sent.
\<close>
theorem apply_refines_plan:
  assumes "auth_result_wf r" "long2ip (e_ipaddr ev) = Inr ip" "apply_auth_result r ev cfg s = (res, cfg', s')"
  shows "sk_sent s' = sk_sent s @ new_messages s s'
    \<and> frames_prefix (sk_portid s) (plan_events cfg r (e_port_number ev)) (new_messages s s')
    \<and> (res = Inr () \<longleftrightarrow> length (new_messages s s') = length (plan_events cfg r (e_port_number ev))
        \<and> plan_outcome cfg r (e_port_number ev) = Inr ())
    \<and> (res = Inr () \<longrightarrow> cfg' = plan_config cfg r)"
  using apply_auth_result_plan [OF assms] new_messages_eq by metis


text \<open>
  A rejected session without a limiter (no service list, misspelled or conflicting services, or
  only unlimited ones) is never approved and gets no service: at most the reject event, which only
  shortens its life, follows the descriptions of dynamic services.
\<close>
theorem reject_without_limiter:
  assumes "auth_result_wf r" "long2ip (e_ipaddr ev) = Inr ip" "apply_auth_result r ev cfg s = (res, cfg', s')"
    and "left_unapproved cfg r" "m \<in> set (new_messages s s')"
  shows "msg_type m = EVENT_SDESC_ADD \<or>
    (msg_type m = EVENT_SESS_CHANGE \<and> kernel_in_read (drop 16 m) =
      kernel_in_of (blank ++ reject_event (plan_config cfg r) (e_port_number ev)))"
proof -
  from apply_auth_result_plan [OF assms(1-3)]
  have ms: "frames_prefix (sk_portid s) (plan_events cfg r (e_port_number ev)) (new_messages s s')"
    using new_messages_eq by metis
  from frames_prefix_mem [OF ms assms(5)] obtain x where
    x: "x \<in> set (plan_events cfg r (e_port_number ev))" and fr: "frame (sk_portid s) x = Inr m" .
  from x assms(4) consider d where "x = sdesc_event d" | "x = reject_event (plan_config cfg r) (e_port_number ev)"
    by (auto simp: plan_events_def)
  then show ?thesis
  proof cases
    case 1
    then show ?thesis using frame_msg_type [OF fr] by (simp add: event_types)
  next
    case 2
    then show ?thesis using frame_msg_type [OF fr] frame_session [OF fr] by (simp add: event_types event_codes)
  qed
qed

text \<open>
  C9: when an accepted session is applied without error the last message approves it, and the kernel
  reads in it the port of the event, the timers of the result or the configured defaults, the rates
  of the result or zero, and the no-accounting flag exactly when the configuration or the result asks
  for it.
\<close>
theorem accept_is_approved:
  assumes "auth_result_wf r" "long2ip (e_ipaddr ev) = Inr ip" "apply_auth_result r ev cfg s = (Inr (), cfg', s')"
    and "ar_accept r"
  shows "\<exists>k. kernel_in_read (drop 16 (last (new_messages s s'))) = k \<and> ki_type k = EVENT_SESS_APPROVE
    \<and> ki_port_number k = e_port_number ev
    \<and> ki_export_interval k = from_option (ar_alive_interval r) (c_session_alive_interval cfg')
    \<and> ki_idle_timeout k = from_option (ar_idle_timeout r) (c_session_idle_timeout cfg')
    \<and> ki_max_duration k = from_option (ar_max_duration r) (c_session_max_duration cfg')
    \<and> [ki_rate0 k, ki_burst0 k, ki_rate1 k, ki_burst1 k] = (if ar_rate_info r = [] then [0, 0, 0, 0] else ar_rate_info r)
    \<and> ki_flags k = (if c_no_accounting cfg' \<or> ar_no_accounting r then NO_ACCT else 0)"
proof -
  let ?pl = "plan_events cfg r (e_port_number ev)"
  from apply_auth_result_plan [OF assms(1-3)] have ms: "frames_prefix (sk_portid s) ?pl (new_messages s s')"
    and len: "length (new_messages s s') = length ?pl" and ok: "plan_outcome cfg r (e_port_number ev) = Inr ()"
    and cfg': "cfg' = plan_config cfg r"
    using new_messages_eq by (metis, metis, metis, metis)
  have lu: "\<not> left_unapproved cfg r" using assms(4) by (simp add: left_unapproved_def)
  with ok obtain oev where oev: "approve_event cfg' r (e_port_number ev) = Inr oev"
    by (auto simp: plan_outcome_def bindE_eq_Inr cfg')
  then have ne: "?pl \<noteq> []" "last ?pl = oev" using lu by (simp_all add: plan_events_def cfg')
  moreover from len ne(1) have "new_messages s s' \<noteq> []" by auto
  ultimately have fr: "frame (sk_portid s) oev = Inr (last (new_messages s s'))"
    using ms len by (auto simp: frames_prefix_def list_all2_conv_all_nth last_conv_nth)
  have "kernel_in_read (drop 16 (last (new_messages s s'))) = kernel_in_of (blank ++ oev)"
    using frame_session [OF fr] event_types(3) [OF oev] by (simp add: event_codes)
  moreover have "ar_rate_info r = [] \<or> ar_rate_info r \<noteq> [] \<and> length (ar_rate_info r) = 4"
    using assms(1) by (auto simp: auth_result_wf_def)
  ultimately show ?thesis
    using assms(4) list_of_4 [of "ar_rate_info r"]
    by (elim disjE) (simp_all add: kernel_in_of_def ev_get_def map_add_def approve_event_fields [OF oev] blank_def)
qed



section \<open>The workers and the loop\<close>

text \<open>
  What the session server relies on of a backend: a result is well-formed, whatever the environment
  answers. \<open>auth_loop\<close> then hands on only such results.
\<close>

locale backend_iface =
  fixes is_open :: "rat \<Rightarrow> 'b \<Rightarrow> bool \<times> 'b"
    and auth :: "'e \<Rightarrow> nl_event \<Rightarrow> 'b \<Rightarrow> auth_result res \<times> 'b"
    and acct :: "'f \<Rightarrow> nl_event \<Rightarrow> 'b \<Rightarrow> unit res \<times> 'b"
  assumes auth_wf: "auth env ev b = (Inr r, b') \<Longrightarrow> auth_result_wf r"
    and acct_exception: "acct env' ev b = (Inl e, b') \<Longrightarrow> is_exception e"
begin

lemma auth_loop_wf: "fst (auth_loop is_open auth ev pool) = Inr (Some r) \<Longrightarrow> auth_result_wf r"
  by (induction pool) (auto simp: Let_def dest: auth_wf split: prod.splits sum.splits if_splits)

lemma acct_loop_returns: "fst (acct_loop is_open acct ev pool) = Inr ()"
  by (induction pool) (auto simp: Let_def dest: acct_exception split: prod.splits sum.splits if_splits)

lemma acct_loop_all:
  "snd (acct_loop is_open acct ev pool) =
     map (\<lambda>(b, now, env). if fst (is_open now b) then snd (is_open now b)
                          else snd (acct env ev (snd (is_open now b)))) pool"
  by (induction pool) (auto simp: Let_def dest: acct_exception split: prod.splits sum.splits if_splits)

end

text \<open>A backend that is passed over: its circuit is open, or it reports that it is unavailable.\<close>

definition passed_over :: "(rat \<Rightarrow> 'b \<Rightarrow> bool \<times> 'b) \<Rightarrow> ('e \<Rightarrow> nl_event \<Rightarrow> 'b \<Rightarrow> auth_result res \<times> 'b)
    \<Rightarrow> nl_event \<Rightarrow> 'b \<times> rat \<times> 'e \<Rightarrow> bool" where
  "passed_over is_open auth ev p = (let (b, now, env) = p; (opened, b1) = is_open now b in
     opened \<or> fst (auth env ev b1) = Inl BackendUnavailable)"

lemma auth_loop_passed:
  "passed_over is_open auth ev p \<Longrightarrow>
   fst (auth_loop is_open auth ev (p # rest)) = fst (auth_loop is_open auth ev rest)
   \<and> length (snd (auth_loop is_open auth ev (p # rest))) = Suc (length (snd (auth_loop is_open auth ev rest)))
   \<and> tl (snd (auth_loop is_open auth ev (p # rest))) = snd (auth_loop is_open auth ev rest)"
  by (cases p) (auto simp: passed_over_def Let_def split: prod.splits sum.splits)

lemma auth_loop_skip:
  "list_all (passed_over is_open auth ev) pre \<Longrightarrow>
   fst (auth_loop is_open auth ev (pre @ rest)) = fst (auth_loop is_open auth ev rest)
   \<and> drop (length pre) (snd (auth_loop is_open auth ev (pre @ rest))) = snd (auth_loop is_open auth ev rest)"
proof (induction pre)
  case (Cons p pre)
  then show ?case
    using auth_loop_passed [of is_open auth ev p "pre @ rest"]
    by (simp add: drop_Suc del: auth_loop.simps)
qed simp

text \<open>
  C10: failover: the backends are tried in the order of the pool; a backend with an open circuit and
  one that reports itself unavailable are passed over, the first other one decides, and the backends
  after it are not touched. If every backend is passed over there is no result.
\<close>
theorem first_available_backend_decides:
  assumes "list_all (passed_over is_open auth ev) pre"
  shows "fst (auth_loop is_open auth ev pre) = Inr None
    \<and> (\<not> passed_over is_open auth ev (b, now, env) \<longrightarrow>
        fst (auth_loop is_open auth ev (pre @ (b, now, env) # post)) = map_sum id Some (fst (auth env ev (snd (is_open now b))))
        \<and> drop (length pre) (snd (auth_loop is_open auth ev (pre @ (b, now, env) # post)))
          = snd (auth env ev (snd (is_open now b))) # map fst post)"
  using auth_loop_skip [OF assms, of "[]"] auth_loop_skip [OF assms, of "(b, now, env) # post"]
  by (auto simp: passed_over_def Let_def split: prod.splits sum.splits)

definition sample_event :: nl_event where
  "sample_event = kernel_msg_event (sample_msg 0 0x0A000001)"

theorem first_available_backend_decides_witness:
  "fst (auth_loop is_circuit_open (\<lambda>env ev b. (env, b)) sample_event
     [(new_backend\<lparr>b_open_until := 50\<rparr>, 20, Inl OtherError), (new_backend, 20, Inl BackendUnavailable),
      (new_backend, 20, Inr (new_auth_result True)), (new_backend, 20, Inr (new_auth_result False))])
   = Inr (Some (new_auth_result True))"
  using first_available_backend_decides [of is_circuit_open "\<lambda>env ev b. (env, b)" sample_event
      "[(new_backend\<lparr>b_open_until := 50\<rparr>, 20, Inl OtherError), (new_backend, 20, Inl BackendUnavailable)]"
      new_backend 20 "Inr (new_auth_result True)" "[(new_backend, 20, Inr (new_auth_result False))]"]
  by (simp add: passed_over_def is_circuit_open_def new_backend_def)

lemma any_available_iff:
  "fst (any_available is_open xs) \<longleftrightarrow> (\<exists>x \<in> set xs. \<not> fst (is_open (snd x) (fst x)))"
proof (induction xs)
  case (Cons x xs)
  obtain b now where "x = (b, now)" by fastforce
  with Cons show ?case
    by (cases "is_open now b"; cases "any_available is_open xs") (simp add: Let_def)
qed simp

lemma any_available_with_env:
  "fst (any_available is_open (with_env clk pool)) \<longleftrightarrow> (\<exists>i < length pool. \<not> fst (is_open (clk i) (pool ! i)))"
proof -
  have "set (with_env clk pool) = (\<lambda>i. (pool ! i, clk i)) ` {..<length pool}"
    by (auto simp: with_env_def set_zip)
  then show ?thesis by (auto simp: any_available_iff)
qed

text \<open>
  C11: an event becomes exactly one work item or none: a new session is authenticated when there are
  authentication workers and some backend is available; a start, update or stop is accounted when
  there are accounting workers, the session is not exempt and some backend is available; every other
  event is ignored.
\<close>
theorem dispatch_submits:
  assumes "long2ip (e_ipaddr ev) = Inr ip"
  shows "fst (dispatch is_open clk ev sv) = Inr () \<and>
    sv_tasks (snd (dispatch is_open clk ev sv)) = sv_tasks sv @
      (if e_type ev = EVENT_SESS_CREATE \<and> 0 < c_auth_workers (sv_cfg sv)
          \<and> (\<exists>i < length (sv_auth_pool sv). \<not> fst (is_open (clk i) (sv_auth_pool sv ! i))) then [AuthTask ev]
       else if e_type ev \<in> {EVENT_SESS_START, EVENT_SESS_UPDATE, EVENT_SESS_STOP} \<and> 0 < c_acct_workers (sv_cfg sv)
          \<and> e_flags ev AND NO_ACCT = 0
          \<and> (\<exists>i < length (sv_acct_pool sv). \<not> fst (is_open (clk i) (sv_acct_pool sv ! i))) then [AcctTask ev]
       else [])"
  using assms any_available_with_env [of is_open clk "sv_auth_pool sv"] any_available_with_env [of is_open clk "sv_acct_pool sv"]
  by (auto simp: dispatch_def Let_def event_codes split: prod.splits)

text \<open>
  C12: the event loop survives everything the kernel or the operating system does: short, misaligned
  and foreign frames, timeouts and receive errors. Only the interpreter's own interrupt ends it.
\<close>
theorem event_loop_survives:
  assumes "list_all (\<lambda>r. fst r \<noteq> RInterrupt) rounds"
  shows "fst (run_loop is_open rounds sv) = Inr ()"
  using assms
proof (induction rounds arbitrary: sv)
  case (Cons r rounds)
  have p: "parse_event d = Inl e \<Longrightarrow> is_exception e" for d e
    by (auto simp: parse_event_def bindE_eq_Inl unpack_nlmsghdr_def unpack_event_def is_exception_def Let_def
        split: if_splits)
  have l: "long2ip n = Inl e \<Longrightarrow> is_exception e" for n e
    by (auto simp: long2ip_def bindE_eq_Inl is_exception_def dest: pack_be_eq_Inl)
  have "fst (loop_round is_open r sv) = Inr ()"
    using Cons.prems p l
    by (auto simp: loop_round_def dispatch_def Let_def split: recv_outcome.splits sum.splits prod.splits)
  with Cons show ?case by (auto split: prod.splits sum.splits)
qed simp


section \<open>Witnesses\<close>

definition gold_config :: config where
  "gold_config = (default_config ''d'' ''t'')\<lparr>c_unauth_service_name_list := [''AREDIRECT'', ''AMISSPELLED''],
     c_services := [(''GOLD'', (new_service [''world''] [])\<lparr>s_u_rate := 8, s_alive_interval := Some 60,
         s_idle_timeout := Some 0, s_max_duration := Some 0\<rparr>),
       (''REDIRECT'', (new_service [''world''] [])\<lparr>s_type := ''tagger'', s_alive_interval := Some 60,
         s_idle_timeout := Some 0, s_max_duration := Some 0\<rparr>)]\<rparr>"

definition auth_socket :: nlsock where
  "auth_socket = open_socket 77 1 [] []"

definition gold_result :: auth_result where
  "gold_result = apply_account_info (new_auth_result True) [''AGOLD'', ''QU;100;10;D;200;20'']"

lemma sample_event_ip: "long2ip (e_ipaddr sample_event) = Inr ''10.0.0.1''"
proof -
  have "long2ip 0x0A000001 = Inr ''10.0.0.1''" by code_simp
  then show ?thesis
    by (simp add: sample_event_def kernel_msg_event_def with_hdr_def isg_event.defs nl_event.defs event_of_def
        sample_msg_def sample_out_def)
qed

lemma sample_event_port: "e_port_number sample_event = 3" "e_type sample_event = 17" "e_flags sample_event = 1"
  by (simp_all add: sample_event_def kernel_msg_event_def with_hdr_def isg_event.defs nl_event.defs event_of_def
      sample_msg_def sample_out_def event_codes)

lemma gold_result_wf: "auth_result_wf gold_result"
  by (simp add: gold_result_def apply_account_info_wf new_auth_result_wf)

lemma apply_no_dynamic:
  assumes "ar_dynamic_services r = []"
  shows "apply_auth_result r sample_event cfg s =
    (fst (finish_auth cfg r 3 (requested_services cfg r) s), cfg, snd (finish_auth cfg r 3 (requested_services cfg r) s))"
  using assms by (simp add: apply_auth_result_def sample_event_ip sample_event_port split: prod.split)

definition reject_result :: auth_result where
  "reject_result = new_auth_result False"

definition lost_config :: config where
  "lost_config = gold_config\<lparr>c_unauth_service_name_list := [''AMISSPELLED'']\<rparr>"

lemma gold_run:
  "apply_auth_result gold_result sample_event gold_config auth_socket =
     (Inr (), gold_config, snd (snd (apply_auth_result gold_result sample_event gold_config auth_socket)))"
proof -
  have "fst (finish_auth gold_config gold_result 3 (requested_services gold_config gold_result) auth_socket) = Inr ()"
    by code_simp
  moreover have "ar_dynamic_services gold_result = []" by code_simp
  ultimately show ?thesis by (simp add: apply_no_dynamic)
qed

lemma reject_run:
  "apply_auth_result reject_result sample_event gold_config auth_socket =
     (Inr (), gold_config, snd (finish_auth gold_config reject_result 3 (requested_services gold_config reject_result) auth_socket))"
proof -
  have "fst (finish_auth gold_config reject_result 3 (requested_services gold_config reject_result) auth_socket) = Inr ()"
    by code_simp
  moreover have "ar_dynamic_services reject_result = []" by code_simp
  ultimately show ?thesis by (simp add: apply_no_dynamic)
qed

lemma lost_run:
  "apply_auth_result reject_result sample_event lost_config auth_socket =
     (Inr (), lost_config, snd (finish_auth lost_config reject_result 3 (requested_services lost_config reject_result) auth_socket))"
proof -
  have "fst (finish_auth lost_config reject_result 3 (requested_services lost_config reject_result) auth_socket) = Inr ()"
    by code_simp
  moreover have "ar_dynamic_services reject_result = []" by code_simp
  ultimately show ?thesis by (simp add: apply_no_dynamic)
qed

lemma reject_result_wf: "auth_result_wf reject_result"
  by (simp add: reject_result_def new_auth_result_wf)

theorem apply_refines_plan_witness:
  "length (new_messages auth_socket (snd (snd (apply_auth_result gold_result sample_event gold_config auth_socket))))
   = length (plan_events gold_config gold_result 3)"
  using apply_refines_plan [OF gold_result_wf sample_event_ip gold_run] by (simp add: sample_event_port)


theorem reject_without_limiter_witness:
  "\<exists>m. msg_type m = EVENT_SESS_CHANGE \<and>
     kernel_in_read (drop 16 m) = kernel_in_of (blank ++ reject_event (plan_config lost_config reject_result) 3)"
proof -
  let ?s = "snd (finish_auth lost_config reject_result 3 (requested_services lost_config reject_result) auth_socket)"
  have ne: "new_messages auth_socket ?s \<noteq> []" "msg_type (last (new_messages auth_socket ?s)) = EVENT_SESS_CHANGE"
    by code_simp+
  have p: "plan_applied lost_config reject_result = []" by code_simp
  have "left_unapproved lost_config reject_result"
    by (simp add: left_unapproved_def p active_def) (simp add: reject_result_def new_auth_result_def)
  with reject_without_limiter [OF reject_result_wf sample_event_ip lost_run, of "last (new_messages auth_socket ?s)"] ne
  show ?thesis by (auto simp: sample_event_port event_codes)
qed

theorem accept_is_approved_witness:
  "\<exists>k. kernel_in_read (drop 16 (last (new_messages auth_socket
        (snd (snd (apply_auth_result gold_result sample_event gold_config auth_socket)))))) = k
     \<and> ki_type k = EVENT_SESS_APPROVE \<and> ki_port_number k = 3
     \<and> ki_export_interval k = 60"
proof -
  have "ar_accept gold_result" "from_option (ar_alive_interval gold_result) (c_session_alive_interval gold_config) = 60"
    by code_simp+
  with accept_is_approved [OF gold_result_wf sample_event_ip gold_run] show ?thesis
    by (simp add: sample_event_port)
qed

theorem dispatch_submits_witness:
  "sv_tasks (snd (dispatch is_circuit_open (\<lambda>_. 9) (sample_event\<lparr>e_type := EVENT_SESS_CREATE\<rparr>)
     (new_isg_server gold_config [new_backend\<lparr>b_open_until := 20\<rparr>, new_backend] [] auth_socket)))
   = [AuthTask (sample_event\<lparr>e_type := EVENT_SESS_CREATE\<rparr>)]"
proof -
  have "long2ip (e_ipaddr (sample_event\<lparr>e_type := EVENT_SESS_CREATE\<rparr>)) = Inr ''10.0.0.1''"
    using sample_event_ip by simp
  moreover have "\<not> fst (is_circuit_open 9 ([new_backend\<lparr>b_open_until := 20\<rparr>, new_backend] ! 1))"
    by (simp add: is_circuit_open_def new_backend_def)
  moreover have "c_auth_workers gold_config = 16" by code_simp
  ultimately show ?thesis
    using dispatch_submits [of "sample_event\<lparr>e_type := EVENT_SESS_CREATE\<rparr>" "''10.0.0.1''" is_circuit_open "\<lambda>_. 9"
        "new_isg_server gold_config [new_backend\<lparr>b_open_until := 20\<rparr>, new_backend] [] auth_socket"]
    by (force simp: new_isg_server_def)
qed

theorem event_loop_survives_witness:
  "fst (run_loop is_circuit_open [(RTimeout, \<lambda>_. 1), (RData [1, 2, 3], \<lambda>_. 2), (ROSError, \<lambda>_. 3)]
     (new_isg_server gold_config [] [] auth_socket)) = Inr ()"
  by (rule event_loop_survives) simp

end
