(* ===== verification/Radius.thy ===== *)
theory Radius
  imports Radius_Packet Isg_Server
begin

unbundle bit_operations_syntax

text \<open>
  The RADIUS backend of \<^verbatim>\<open>app/src/backends/radius.py\<close>. pyrad's encoder and decoder are the arguments
  \<open>encode_attrs\<close> (\<^verbatim>\<open>_PktEncodeAttributes\<close>) and \<open>parse\<close> (\<^verbatim>\<open>Packet(secret=.., packet=..)\<close>, which may
  raise). An environment holds what one call meets: the value of the shared identifier counter, the
  random bytes, the clock readings and what the UDP exchange does.
\<close>

definition next_id :: "nat \<Rightarrow> nat \<times> nat" where
  "next_id counter = (counter mod 256, counter + 1)"

text \<open>\<^verbatim>\<open>bytes.replace(old, new, 1)\<close> for a non-empty \<open>old\<close>.\<close>

fun replace_first :: "'a list \<Rightarrow> 'a list \<Rightarrow> 'a list \<Rightarrow> 'a list" where
  "replace_first old new [] = []"
| "replace_first old new (x # xs) =
     (if take (length old) (x # xs) = old then new @ drop (length old) (x # xs)
      else x # replace_first old new xs)"

definition ma_old :: bytes where
  "ma_old = [80, 18] @ zeros 16"

definition raw_request :: "((string, rad_value list) odict \<Rightarrow> bytes) \<Rightarrow> rad_request \<Rightarrow> bytes res" where
  "raw_request encode_attrs p =
     (let attr = encode_attrs (rq_attrs p) in
      concatE [pack_be 1 (rq_code p), pack_be 1 (rq_id p), pack_be 2 (20 + int (length attr)),
               Inr (rq_authenticator p), Inr attr])"

definition build_raw_auth :: "((string, rad_value list) odict \<Rightarrow> bytes) \<Rightarrow> rad_request \<Rightarrow> bytes res" where
  "build_raw_auth encode_attrs p =
     bindE (raw_request encode_attrs p) (\<lambda>raw.
       let ma_new = [80, 18] @ hmac_md5 (rq_secret p) raw in Inr (replace_first ma_old ma_new raw))"

record radius_backend =
  rb_base :: backend
  rb_entry :: server_entry
  rb_nas_ip :: string
  rb_nas_id :: string
  rb_sent :: "((string \<times> int) \<times> bytes) list"

definition new_radius_backend :: "server_entry \<Rightarrow> string \<Rightarrow> string \<Rightarrow> radius_backend" where
  "new_radius_backend entry nas_ip nas_id =
     \<lparr>rb_base = new_backend\<lparr>b_label := ''radius '' @ se_server entry\<rparr>, rb_entry = entry,
      rb_nas_ip = nas_ip, rb_nas_id = nas_id, rb_sent = []\<rparr>"

text \<open>
  The exchange over a new UDP socket: connecting or sending fails, or the request goes out and the
  answer times out, fails or arrives. \<open>rb_sent\<close> is the trace of what went out, and to whom.
\<close>

datatype udp_outcome = UNoSend | UTimeout | UError | UData bytes

record radius_env =
  re_counter :: nat
  re_init :: bytes
  re_rnd :: bytes
  re_net :: udp_outcome
  re_clock1 :: clock
  re_clock2 :: clock

definition radius_open :: "rat \<Rightarrow> radius_backend \<Rightarrow> bool \<times> radius_backend" where
  "radius_open now rb = (let (opened, b) = is_circuit_open now (rb_base rb) in (opened, rb\<lparr>rb_base := b\<rparr>))"

definition rb_record :: "bool \<Rightarrow> clock \<Rightarrow> radius_backend \<Rightarrow> radius_backend" where
  "rb_record success ck rb = rb\<lparr>rb_base := record_call success ck (rb_base rb)\<rparr>"

definition opt_int_attr :: "rad_packet \<Rightarrow> string \<Rightarrow> int option res" where
  "opt_int_attr pkt name =
     bindE (attr_get pkt name) (\<lambda>v. case v of None \<Rightarrow> Inr None | Some x \<Rightarrow> bindE (rad_int x) (\<lambda>n. Inr (Some n)))"

definition parse_auth_reply :: "rad_packet \<Rightarrow> auth_result res" where
  "parse_auth_reply pkt =
     (if NAMES (pk_code pkt) = ''Access-Accept'' then
        bindE (attr_list pkt ''Cisco-Account-Info'') (\<lambda>vals.
          let r0 = apply_account_info (new_auth_result True) (map rad_str vals) in
        bindE (attr_get pkt ''Framed-IP-Address'') (\<lambda>nat_ip.
          let r1 = r0\<lparr>ar_nat_ip := map_option rad_str nat_ip\<rparr> in
        bindE (opt_int_attr pkt ''Acct-Interim-Interval'') (\<lambda>alive.
        bindE (opt_int_attr pkt ''Session-Timeout'') (\<lambda>dur.
        bindE (opt_int_attr pkt ''Idle-Timeout'') (\<lambda>idle.
          let r2 = r1\<lparr>ar_alive_interval := alive, ar_max_duration := dur, ar_idle_timeout := idle\<rparr> in
        bindE (attr_get pkt ''Class'') (\<lambda>cls.
          Inr (case cls of Some c \<Rightarrow> if rad_true c then r2\<lparr>ar_cookie := Some (take 32 (rad_str c))\<rparr> else r2
               | None \<Rightarrow> r2)))))))
      else Inr (new_auth_result False))"

definition rb_send :: "string \<times> int \<Rightarrow> bytes \<Rightarrow> udp_outcome \<Rightarrow> radius_backend \<Rightarrow> radius_backend" where
  "rb_send dest data net rb = (if net = UNoSend then rb else rb\<lparr>rb_sent := rb_sent rb @ [(dest, data)]\<rparr>)"

definition udp_receive :: "udp_outcome \<Rightarrow> bytes res" where
  "udp_receive net = (case net of UNoSend \<Rightarrow> Inl OSError | UTimeout \<Rightarrow> Inl SocketTimeout | UError \<Rightarrow> Inl OSError | UData d \<Rightarrow> Inr (take 4096 d))"

definition auth_failure :: "exn \<Rightarrow> clock \<Rightarrow> radius_backend \<Rightarrow> auth_result res \<times> radius_backend" where
  "auth_failure e ck rb =
     (if e = SocketTimeout then (Inl BackendUnavailable, rb_record False ck rb)
      else if e = BackendUnavailable then (Inl e, rb)
      else if is_oserror e then (Inl BackendUnavailable, rb_record False ck rb)
      else (Inl e, rb))"

definition radius_authenticate :: "((string, rad_value list) odict \<Rightarrow> bytes) \<Rightarrow> (bytes \<Rightarrow> bytes \<Rightarrow> rad_packet res)
    \<Rightarrow> radius_env \<Rightarrow> nl_event \<Rightarrow> radius_backend \<Rightarrow> auth_result res \<times> radius_backend" where
  "radius_authenticate encode_attrs parse env ev rb =
     (case host_port (rb_entry rb) of
        Inl e \<Rightarrow> (Inl e, rb)
      | Inr (host, port) \<Rightarrow>
          let rid = int (fst (next_id (re_counter env)));
              secret = se_secret (rb_entry rb)
          in (case bindE (build ''Access-Request'' ev secret rid (re_init env) (re_rnd env) (rb_nas_ip rb) (rb_nas_id rb))
                     (build_raw_auth encode_attrs) of
                Inl e \<Rightarrow> auth_failure e (re_clock1 env) rb
              | Inr data \<Rightarrow>
                  let rb1 = rb_send (host, port) data (re_net env) rb in
                  (case bindE (udp_receive (re_net env)) (parse secret) of
                     Inl e \<Rightarrow> auth_failure e (re_clock1 env) rb1
                   | Inr reply \<Rightarrow>
                       if pk_id reply \<noteq> rid then (Inl BackendUnavailable, rb_record False (re_clock1 env) rb1)
                       else let rb2 = rb_record True (re_clock1 env) rb1 in
                            (case parse_auth_reply reply of
                               Inr r \<Rightarrow> (Inr r, rb2)
                             | Inl e \<Rightarrow> auth_failure e (re_clock2 env) rb2))))"

text \<open>\<open>encode_request\<close> stands for pyrad's \<^verbatim>\<open>RequestPacket()\<close>.\<close>

definition radius_account :: "(rad_request \<Rightarrow> bytes) \<Rightarrow> radius_env \<Rightarrow> nl_event \<Rightarrow> radius_backend
    \<Rightarrow> unit res \<times> radius_backend" where
  "radius_account encode_request env ev rb =
     (case host_port (rb_entry rb) of
        Inl e \<Rightarrow> (Inl e, rb)
      | Inr (host, port) \<Rightarrow>
          let rid = int (fst (next_id (re_counter env))) in
          (case build ''Accounting-Request'' ev (se_secret (rb_entry rb)) rid (re_init env) (re_rnd env)
                        (rb_nas_ip rb) (rb_nas_id rb) of
             Inl e \<Rightarrow> if is_oserror e then (Inr (), rb_record False (re_clock1 env) rb) else (Inl e, rb)
           | Inr pkt \<Rightarrow>
               let rb1 = rb_send (host, port) (encode_request pkt) (re_net env) rb in
               (case udp_receive (re_net env) of
                  Inr reply \<Rightarrow> (Inr (), rb_record True (re_clock1 env) rb1)
                | Inl e \<Rightarrow> if is_oserror e then (Inr (), rb_record False (re_clock1 env) rb1) else (Inl e, rb1))))"


section \<open>The backend contract\<close>

lemma NAMES_accept: "NAMES c = ''Access-Accept'' \<longleftrightarrow> c = 2"
  by (simp add: NAMES_def code_names_def)

lemma parse_auth_reply_wf: "parse_auth_reply pkt = Inr r \<Longrightarrow> auth_result_wf r"
proof -
  assume p: "parse_auth_reply pkt = Inr r"
  have upd: "auth_result_wf (a\<lparr>ar_nat_ip := w, ar_alive_interval := x, ar_max_duration := y, ar_idle_timeout := z\<rparr>) \<longleftrightarrow> auth_result_wf a"
    "auth_result_wf (a\<lparr>ar_cookie := u\<rparr>) \<longleftrightarrow> auth_result_wf a" for a w x y z u
    by (simp_all add: auth_result_wf_def)
  show ?thesis
  proof (cases "NAMES (pk_code pkt) = ''Access-Accept''")
    case True
    with p obtain vals w x y z cls where
      "r = (let r2 = (apply_account_info (new_auth_result True) (map rad_str vals))
              \<lparr>ar_nat_ip := w, ar_alive_interval := x, ar_max_duration := y, ar_idle_timeout := z\<rparr>
            in case cls of Some c \<Rightarrow> if rad_true c then r2\<lparr>ar_cookie := Some (take 32 (rad_str c))\<rparr> else r2 | None \<Rightarrow> r2)"
      by (auto simp: parse_auth_reply_def bindE_eq_Inr Let_def)
    then show ?thesis
      by (auto simp: Let_def upd apply_account_info_wf new_auth_result_wf split: option.splits)
  next
    case False
    with p show ?thesis by (auto simp: parse_auth_reply_def new_auth_result_wf)
  qed
qed

lemma parse_auth_reply_result:
  assumes "parse_auth_reply pkt = Inr r"
  shows "ar_accept r \<longleftrightarrow> pk_code pkt = 2" "\<not> ar_accept r \<Longrightarrow> r = new_auth_result False"
proof -
  have "ar_accept r" if "pk_code pkt = 2"
    using assms that apply_account_info_other
    by (auto simp: parse_auth_reply_def NAMES_accept bindE_eq_Inr Let_def new_auth_result_def split: option.splits)
  moreover have "r = new_auth_result False" if "pk_code pkt \<noteq> 2"
    using assms that by (simp add: parse_auth_reply_def NAMES_accept)
  moreover have "\<not> ar_accept (new_auth_result False)" by (simp add: new_auth_result_def)
  ultimately show "ar_accept r \<longleftrightarrow> pk_code pkt = 2" "\<not> ar_accept r \<Longrightarrow> r = new_auth_result False" by metis+
qed

lemma auth_failure_Inl: "\<exists>e' rb'. auth_failure e ck rb = (Inl e', rb')"
  by (simp add: auth_failure_def)

lemma radius_authenticate_Inr:
  assumes "radius_authenticate enc parse env ev rb = (Inr r, rb')"
  obtains d reply where "re_net env = UData d" "parse (se_secret (rb_entry rb)) (take 4096 d) = Inr reply"
    "pk_id reply = int (re_counter env mod 256)" "parse_auth_reply reply = Inr r"
proof -
  have nf: "auth_failure e ck x \<noteq> (Inr r, rb')" for e ck x using auth_failure_Inl [of e ck x] by auto
  show ?thesis
    using assms that
    by (auto simp: radius_authenticate_def udp_receive_def bindE_eq_Inr Let_def next_id_def nf
        split: sum.splits prod.splits if_splits udp_outcome.splits)
qed

lemma host_port_exception: "host_port e = Inl x \<Longrightarrow> x = ValueError"
  by (auto simp: host_port_def Let_def bindE_eq_Inl py_int_def split: prod.splits if_splits)

lemma build_exception: "build c ev s i a b ip nid = Inl e \<Longrightarrow> e = StructError"
  by (auto simp: build_def build_acct_def Let_def bindE_eq_Inl long2ip_def dest!: pack_be_eq_Inl split: if_splits)

lemma udp_receive_exception: "udp_receive net = Inl e \<Longrightarrow> is_oserror e"
  by (auto simp: udp_receive_def split: udp_outcome.splits)

interpretation rad: backend_iface radius_open "radius_authenticate encode_attrs parse" "radius_account encode_request"
  for encode_attrs parse encode_request
proof
  fix env ev b r b'
  assume "radius_authenticate encode_attrs parse env ev b = (Inr r, b')"
  then show "auth_result_wf r" by (auto elim: radius_authenticate_Inr intro: parse_auth_reply_wf)
next
  fix env ev b e b'
  assume "radius_account encode_request env ev b = (Inl e, b')"
  then show "is_exception e"
    by (auto simp: radius_account_def Let_def is_exception_def split: sum.splits prod.splits if_splits
        dest: host_port_exception build_exception udp_receive_exception)
qed

section \<open>Properties of the RADIUS backend\<close>

text \<open>
  The obfuscated User-Password is revealed by a server that knows the secret: it gets the password
  back, padded with zero bytes to a multiple of sixteen.
\<close>
theorem password_roundtrip:
  "reveal secret authenticator (encrypt_password secret authenticator password)
     = encode password @ zeros ((16 - length password mod 16) mod 16)"
  using reveal_obfuscate [OF length_pad16, of secret authenticator "encode password"]
  by (simp add: encrypt_password_def pad16_def)

lemma octets_join: "octets_lo n + 4294967296 * octets_hi n = n"
  by (simp add: octets_lo_def octets_hi_def drop_bit_eq_div and_mask32)

lemma octets_bounds:
  assumes "0 \<le> n" "n < 2 ^ 64"
  shows "0 \<le> octets_lo n \<and> octets_lo n < 2 ^ 32 \<and> 0 \<le> octets_hi n \<and> octets_hi n < 2 ^ 32"
proof -
  have "n div 2 ^ 32 < 2 ^ 32" using assms by (simp add: div_less_iff_less_mult)
  then show ?thesis using assms by (simp add: octets_lo_def octets_hi_def drop_bit_eq_div and_mask32)
qed

lemma map_of_set_attr: "map_of (rq_attrs (set_attr n v p)) = (map_of (rq_attrs p))(n \<mapsto> [v])"
  by (simp add: set_attr_def update_conv')

lemma map_of_add_attr_other: "m \<noteq> n \<Longrightarrow> map_of (rq_attrs (add_attr n v p)) m = map_of (rq_attrs p) m"
  by (simp add: add_attr_def update_conv')

lemma map_of_opt_attr_other:
  "(\<And>x. map_of (rq_attrs (f x p)) m = map_of (rq_attrs p) m) \<Longrightarrow> map_of (rq_attrs (opt_attr f v p)) m = map_of (rq_attrs p) m"
  by (simp add: opt_attr_def split: option.splits)

lemmas attr_simps = map_of_set_attr map_of_add_attr_other map_of_opt_attr_other

text \<open>
  C37: an accounting request reports the 64-bit byte counters without loss: each is split into an
  octets and a gigawords attribute that fit 32 bits and combine to the counter.
\<close>
theorem accounting_counters_exact:
  assumes "build ''Accounting-Request'' ev secret rid ini rnd nas_ip nas_id = Inr p"
    and "0 \<le> e_in_bytes ev" "e_in_bytes ev < 2 ^ 64" "0 \<le> e_out_bytes ev" "e_out_bytes ev < 2 ^ 64"
  shows "\<exists>il ih ol oh. map_of (rq_attrs p) ''Acct-Input-Octets'' = Some [RInt il]
    \<and> map_of (rq_attrs p) ''Acct-Input-Gigawords'' = Some [RInt ih]
    \<and> map_of (rq_attrs p) ''Acct-Output-Octets'' = Some [RInt ol]
    \<and> map_of (rq_attrs p) ''Acct-Output-Gigawords'' = Some [RInt oh]
    \<and> e_in_bytes ev = il + 2 ^ 32 * ih \<and> e_out_bytes ev = ol + 2 ^ 32 * oh
    \<and> {il, ih, ol, oh} \<subseteq> {0..<2 ^ 32}"
proof -
  let ?i = "e_in_bytes ev" and ?o = "e_out_bytes ev"
  from assms(1) have "map_of (rq_attrs p) ''Acct-Input-Octets'' = Some [RInt (octets_lo ?i)]"
    "map_of (rq_attrs p) ''Acct-Input-Gigawords'' = Some [RInt (octets_hi ?i)]"
    "map_of (rq_attrs p) ''Acct-Output-Octets'' = Some [RInt (octets_lo ?o)]"
    "map_of (rq_attrs p) ''Acct-Output-Gigawords'' = Some [RInt (octets_hi ?o)]"
    by (auto simp: build_def build_acct_def Let_def bindE_eq_Inr attr_simps)
  then show ?thesis
    using octets_bounds [of ?i] octets_bounds [of ?o] assms(2-5)
    by (simp add: octets_join)
qed

text \<open>
  256 consecutive requests carry pairwise different identifiers, all of one byte.
\<close>
theorem identifiers_distinct:
  "distinct (map (\<lambda>i. fst (next_id i)) [n..<n + 256]) \<and> (\<forall>i. fst (next_id i) < 256)"
proof -
  have "inj_on (\<lambda>i. i mod 256) (set [n..<n + 256])"
  proof (rule inj_onI)
    fix x y :: nat
    assume xy: "x \<in> set [n..<n + 256]" "y \<in> set [n..<n + 256]" and eq: "x mod 256 = y mod 256"
    show "x = y"
    proof (rule ccontr)
      assume "x \<noteq> y"
      have "256 dvd (if x < y then y - x else x - y)"
        using eq mod_eq_dvd_iff_nat [of x y 256] mod_eq_dvd_iff_nat [of y x 256] by auto
      with \<open>x \<noteq> y\<close> have "256 \<le> (if x < y then y - x else x - y)" by (intro dvd_imp_le) auto
      with xy show False by (auto split: if_splits)
    qed
  qed
  then show ?thesis by (simp add: next_id_def distinct_map o_def)
qed


theorem accounting_counters_exact_witness:
  "\<exists>p. build ''Accounting-Request'' (sample_event\<lparr>e_in_bytes := 0x500000007\<rparr>) [] 1 [] [] ''1.2.3.4'' ''nas'' = Inr p
    \<and> map_of (rq_attrs p) ''Acct-Input-Gigawords'' = Some [RInt 5]"
proof -
  let ?ev = "sample_event\<lparr>e_in_bytes := 0x500000007\<rparr>"
  have b: "e_in_bytes ?ev = 0x500000007" "0 \<le> e_out_bytes ?ev" "e_out_bytes ?ev < 2 ^ 64" "e_nat_ipaddr ?ev = 0"
    by (simp_all add: sample_event_def kernel_msg_event_def with_hdr_def isg_event.defs nl_event.defs event_of_def
        sample_msg_def sample_out_def)
  obtain p where p: "build ''Accounting-Request'' ?ev [] 1 [] [] ''1.2.3.4'' ''nas'' = Inr p"
    using sample_event_ip b(4) by (simp add: build_def build_acct_def Let_def)
  from accounting_counters_exact [OF this] b obtain il ih where
    "map_of (rq_attrs p) ''Acct-Input-Gigawords'' = Some [RInt ih]" "0x500000007 = il + 2 ^ 32 * ih"
    "0 \<le> il" "il < 2 ^ 32" by auto
  moreover from this(2-4) have "ih = 5" by simp
  ultimately show ?thesis using p by blast
qed

lemma replace_first_at:
  assumes "\<forall>i < length pre. take (length old) (drop i (pre @ old @ post)) \<noteq> old" "old \<noteq> []"
  shows "replace_first old new (pre @ old @ post) = pre @ new @ post"
  using assms(1)
proof (induction pre)
  case Nil
  from assms(2) obtain x xs where old: "old = x # xs" by (cases old) auto
  show ?case unfolding old by simp
next
  case (Cons a pre)
  have "\<forall>i < length pre. take (length old) (drop i (pre @ old @ post)) \<noteq> old"
  proof (intro allI impI)
    fix i assume "i < length pre"
    with Cons.prems have "take (length old) (drop (Suc i) ((a # pre) @ old @ post)) \<noteq> old" by auto
    then show "take (length old) (drop i (pre @ old @ post)) \<noteq> old" by simp
  qed
  moreover have "take (length old) (a # pre @ old @ post) \<noteq> old" using Cons.prems by (metis append_Cons drop0 length_greater_0_conv list.discI)
  ultimately show ?case using Cons.IH by simp
qed

text \<open>
  A server's check of the Message-Authenticator at offset \<open>k\<close> (RFC 3579, 3.2): the HMAC of the
  packet with that field zeroed.
\<close>

definition message_auth_ok :: "bytes \<Rightarrow> nat \<Rightarrow> bytes \<Rightarrow> bool" where
  "message_auth_ok secret k m \<longleftrightarrow> pyslice (k - 2) k m = [80, 18]
     \<and> pyslice k (k + 16) m = hmac_md5 secret (take k m @ zeros 16 @ drop (k + 16) m)"

text \<open>
  The Access-Request that goes out carries a Message-Authenticator a server accepts, if the
  placeholder is the first place in the packet that looks like one.
\<close>
theorem message_authenticator_valid:
  assumes "raw_request encode_attrs p = Inr raw" "raw = pre @ ma_old @ post"
    and "\<forall>i < length pre. take 18 (drop i raw) \<noteq> ma_old"
  shows "\<exists>m. build_raw_auth encode_attrs p = Inr m \<and> length m = length raw
    \<and> message_auth_ok (rq_secret p) (length pre + 2) m"
proof -
  let ?h = "hmac_md5 (rq_secret p) raw"
  have "replace_first ma_old ([80, 18] @ ?h) raw = pre @ ([80, 18] @ ?h) @ post"
    unfolding assms(2) by (rule replace_first_at) (use assms(2,3) in \<open>auto simp: ma_old_def\<close>)
  with assms(1) have m: "build_raw_auth encode_attrs p = Inr (pre @ [80, 18] @ ?h @ post)"
    by (simp add: build_raw_auth_def Let_def)
  have "take (length pre + 2) (pre @ [80, 18] @ ?h @ post) @ zeros 16 @ drop (length pre + 2 + 16) (pre @ [80, 18] @ ?h @ post) = raw"
    unfolding assms(2) by (simp add: ma_old_def)
  then have "message_auth_ok (rq_secret p) (length pre + 2) (pre @ [80, 18] @ ?h @ post)"
    by (simp add: message_auth_ok_def pyslice_def)
  with m show ?thesis unfolding assms(2) by (simp add: ma_old_def)
qed

definition sample_request :: rad_request where
  "sample_request = \<lparr>rq_code = 1, rq_id = 7, rq_secret = encode ''s'', rq_authenticator = replicate 16 1,
     rq_attrs = [(''Message-Authenticator'', [RBytes (zeros 16)])]\<rparr>"

theorem message_authenticator_valid_witness:
  "\<exists>m. build_raw_auth (\<lambda>_. ma_old) sample_request = Inr m \<and> length m = 38 \<and> message_auth_ok (encode ''s'') 22 m"
proof -
  have raw: "raw_request (\<lambda>_. ma_old) sample_request = Inr ([1, 7, 0, 38] @ replicate 16 1 @ ma_old)"
    by code_simp
  have "\<forall>i < length ([1, 7, 0, 38] @ replicate 16 (1 :: byte)). take 18 (drop i ([1, 7, 0, 38] @ replicate 16 1 @ ma_old)) \<noteq> ma_old"
    by code_simp
  with message_authenticator_valid [OF raw, of "[1, 7, 0, 38] @ replicate 16 1" "[]"] show ?thesis
    by (simp add: sample_request_def ma_old_def)
qed

text \<open>
  A RADIUS answer is used only if it carries the identifier of the request, and anything but an
  Access-Accept is a plain reject: it cannot bring a rate or a service along.
\<close>
theorem radius_result_origin:
  assumes "radius_authenticate encode_attrs parse env ev rb = (Inr r, rb')"
  shows "\<exists>d reply. re_net env = UData d \<and> parse (se_secret (rb_entry rb)) (take 4096 d) = Inr reply
    \<and> pk_id reply = int (re_counter env mod 256) \<and> (ar_accept r \<longleftrightarrow> pk_code reply = 2)
    \<and> (\<not> ar_accept r \<longrightarrow> r = new_auth_result False)"
proof -
  from assms obtain d reply where d: "re_net env = UData d" "parse (se_secret (rb_entry rb)) (take 4096 d) = Inr reply"
    "pk_id reply = int (re_counter env mod 256)" and r: "parse_auth_reply reply = Inr r"
    by (rule radius_authenticate_Inr)
  with d parse_auth_reply_result [OF r] show ?thesis by blast
qed

definition sample_radius :: radius_backend where
  "sample_radius = new_radius_backend (default_entry\<lparr>se_server := ''10.0.0.9:1812''\<rparr>) ''10.0.0.2'' ''nas''"

definition sample_env :: "udp_outcome \<Rightarrow> radius_env" where
  "sample_env net = \<lparr>re_counter = 7, re_init = [], re_rnd = replicate 16 1, re_net = net, re_clock1 = at_time 5, re_clock2 = at_time 5\<rparr>"

definition sample_parse :: "int \<Rightarrow> bytes \<Rightarrow> bytes \<Rightarrow> rad_packet res" where
  "sample_parse code secret d = Inr \<lparr>pk_code = code, pk_id = 7, pk_authenticator = zeros 16,
     pk_attrs = (\<lambda>_. Inl KeyError)\<rparr>"

lemma sample_request_built:
  obtains p m where "build ''Access-Request'' sample_event secret 7 [] rnd nas_ip nas_id = Inr p"
    "build_raw_auth (\<lambda>_. ma_old) p = Inr m"
proof -
  obtain p where p: "build ''Access-Request'' sample_event secret 7 [] rnd nas_ip nas_id = Inr p"
    "rq_code p = 1" "rq_id p = 7"
    by (simp add: build_def sample_event_ip build_auth_def build_common_def opt_attr_def set_attr_def add_attr_def Let_def
        split: option.splits)
  moreover from p(2,3) obtain m where "build_raw_auth (\<lambda>_. ma_old) p = Inr m"
    by (simp add: build_raw_auth_def raw_request_def pack_be_def ma_old_def Let_def)
  ultimately show ?thesis using that by blast
qed

lemma radius_run:
  "fst (radius_authenticate (\<lambda>_. ma_old) (sample_parse code) (sample_env (UData [1])) sample_event sample_radius)
   = parse_auth_reply \<lparr>pk_code = code, pk_id = 7, pk_authenticator = zeros 16, pk_attrs = (\<lambda>_. Inl KeyError)\<rparr>"
proof -
  have hp: "host_port (rb_entry sample_radius) = Inr (''10.0.0.9'', 1812)" by code_simp
  obtain p m where p: "build ''Access-Request'' sample_event (se_secret (rb_entry sample_radius)) 7 [] (replicate 16 1)
      (rb_nas_ip sample_radius) (rb_nas_id sample_radius) = Inr p" and m: "build_raw_auth (\<lambda>_. ma_old) p = Inr m"
    by (rule sample_request_built)
  have "\<exists>r. parse_auth_reply \<lparr>pk_code = code, pk_id = 7, pk_authenticator = zeros 16, pk_attrs = (\<lambda>_. Inl KeyError)\<rparr> = Inr r"
    by (simp add: parse_auth_reply_def attr_list_def attr_get_def opt_int_attr_def Let_def)
  then show ?thesis
    by (auto simp: radius_authenticate_def hp sample_env_def next_id_def p m Let_def udp_receive_def sample_parse_def)
qed

theorem radius_result_origin_witness:
  "\<exists>r. fst (radius_authenticate (\<lambda>_. ma_old) (sample_parse 3) (sample_env (UData [1])) sample_event sample_radius) = Inr r
    \<and> r = new_auth_result False"
proof -
  obtain rb' where run: "radius_authenticate (\<lambda>_. ma_old) (sample_parse 3) (sample_env (UData [1])) sample_event sample_radius
      = (Inr (new_auth_result False), rb')"
    using radius_run [of 3] by (cases "radius_authenticate (\<lambda>_. ma_old) (sample_parse 3) (sample_env (UData [1])) sample_event sample_radius")
      (simp add: parse_auth_reply_def NAMES_accept)
  from radius_result_origin [OF run] run show ?thesis by auto
qed

text \<open>
  A timeout or a network error of the exchange makes the backend unavailable, so that the next
  one is tried, and counts as exactly one error; an answer with a foreign identifier does the same.
\<close>
theorem radius_failure_recorded:
  assumes "host_port (rb_entry rb) = Inr hp"
    and "build ''Access-Request'' ev (se_secret (rb_entry rb)) (int (re_counter env mod 256)) (re_init env) (re_rnd env)
      (rb_nas_ip rb) (rb_nas_id rb) = Inr p" "build_raw_auth encode_attrs p = Inr data"
    and "re_net env \<in> {UNoSend, UTimeout, UError} \<or> (\<exists>d reply. re_net env = UData d
      \<and> parse (se_secret (rb_entry rb)) (take 4096 d) = Inr reply \<and> pk_id reply \<noteq> int (re_counter env mod 256))"
  shows "\<exists>rb'. radius_authenticate encode_attrs parse env ev rb = (Inl BackendUnavailable, rb')
    \<and> rb_base rb' = record_err (re_clock1 env) (rb_base rb)
    \<and> rb_sent rb' = rb_sent rb @ (if re_net env = UNoSend then [] else [(hp, data)])"
  using assms
  by (cases hp) (auto simp: radius_authenticate_def next_id_def Let_def udp_receive_def auth_failure_def rb_record_def
      rb_send_def record_err_def)

theorem radius_failure_recorded_witness:
  "\<exists>rb'. radius_authenticate (\<lambda>_. ma_old) (sample_parse 2) (sample_env UTimeout) sample_event sample_radius
     = (Inl BackendUnavailable, rb') \<and> rb_base rb' = record_err (at_time 5) (rb_base sample_radius)"
proof -
  have hp: "host_port (rb_entry sample_radius) = Inr (''10.0.0.9'', 1812)" by code_simp
  obtain p m where p: "build ''Access-Request'' sample_event (se_secret (rb_entry sample_radius)) 7 [] (replicate 16 1)
      (rb_nas_ip sample_radius) (rb_nas_id sample_radius) = Inr p" and m: "build_raw_auth (\<lambda>_. ma_old) p = Inr m"
    by (rule sample_request_built)
  show ?thesis
    using radius_failure_recorded [OF hp _ m, of sample_event "sample_env UTimeout" "sample_parse 2"] p
    by (auto simp: sample_env_def)
qed

end
