(* ===== verification/Mysql.thy ===== *)
theory Mysql
  imports Radius
begin


text \<open>
  The MySQL backend of \<^verbatim>\<open>app/src/backends/mysql.py\<close>. pymysql is the environment: what each attempt to
  run a statement meets is a value of \<open>attempt_env\<close>. The state of a backend holds the connection of
  each worker thread (\<^verbatim>\<open>threading.local\<close>) and, as a trace, what was asked of the database.
\<close>

section \<open>State\<close>

text \<open>
  \<^verbatim>\<open>pymysql.err.OperationalError\<close> with its error number, and every other exception of the library.
\<close>

datatype db_exn = Operational int | OtherDb

datatype db_target = UnixSocket string | Tcp string int

record db_login =
  dl_user :: string
  dl_password :: string
  dl_database :: string
  dl_target :: db_target

type_synonym db_params = "(string, rad_value) odict"
type_synonym db_row = "(string, rad_value option) odict"

datatype db_op = DbOpen nat db_login | DbClose nat | DbExec nat string db_params

text \<open>
  One pass through the loop of \<^verbatim>\<open>_execute\<close>: the clock when the age is checked, the new connection (or
  the error of \<^verbatim>\<open>connect\<close>), the clock after connecting, and what the statement gives.
\<close>

record 'r attempt_env =
  at_now :: rat
  at_connect :: "db_exn + nat"
  at_born :: rat
  at_run :: "db_exn + 'r"

record mysql_backend =
  mb_base :: backend
  mb_entry :: server_entry
  mb_mysql :: "mysql_config option"
  mb_nas_ip :: string
  mb_nas_id :: string
  mb_conn :: "nat \<Rightarrow> nat option"
  mb_born :: "nat \<Rightarrow> rat"
  mb_ops :: "db_op list"

definition new_mysql_backend :: "server_entry \<Rightarrow> config \<Rightarrow> string \<Rightarrow> string \<Rightarrow> mysql_backend" where
  "new_mysql_backend entry cfg nas_ip nas_id =
     \<lparr>mb_base = new_backend\<lparr>b_label := ''mysql '' @
        (if se_unix_socket entry \<noteq> [] then se_unix_socket entry
         else se_host entry @ '':'' @ show_int (se_port entry))\<rparr>,
      mb_entry = entry, mb_mysql = c_mysql cfg, mb_nas_ip = nas_ip, mb_nas_id = nas_id,
      mb_conn = (\<lambda>_. None), mb_born = (\<lambda>_. 0), mb_ops = []\<rparr>"


section \<open>Connections\<close>

definition db_login_of :: "server_entry \<Rightarrow> db_login" where
  "db_login_of e = \<lparr>dl_user = se_user e, dl_password = se_password e, dl_database = se_database e,
     dl_target = (if se_unix_socket e \<noteq> [] then UnixSocket (se_unix_socket e) else Tcp (se_host e) (se_port e))\<rparr>"

definition max_age :: "mysql_backend \<Rightarrow> rat" where
  "max_age mb = (case mb_mysql mb of Some m \<Rightarrow> of_int (my_conn_max_age m) | None \<Rightarrow> 3600)"

definition log_op :: "db_op \<Rightarrow> mysql_backend \<Rightarrow> mysql_backend" where
  "log_op op mb = mb\<lparr>mb_ops := mb_ops mb @ [op]\<rparr>"

definition connect :: "nat \<Rightarrow> 'r attempt_env \<Rightarrow> mysql_backend \<Rightarrow> (db_exn + nat) \<times> mysql_backend" where
  "connect t env mb =
     (case at_connect env of
        Inl e \<Rightarrow> (Inl e, mb)
      | Inr c \<Rightarrow>
          let mb1 = log_op (DbOpen c (db_login_of (mb_entry mb))) mb
          in (Inr c, mb1\<lparr>mb_conn := (mb_conn mb1)(t := Some c), mb_born := (mb_born mb1)(t := at_born env)\<rparr>))"

definition conn :: "nat \<Rightarrow> 'r attempt_env \<Rightarrow> mysql_backend \<Rightarrow> (db_exn + nat) \<times> mysql_backend" where
  "conn t env mb =
     (case mb_conn mb t of
        None \<Rightarrow> connect t env mb
      | Some c \<Rightarrow>
          if max_age mb \<le> at_now env - mb_born mb t then connect t env (log_op (DbClose c) mb)
          else (Inr c, mb))"

definition drop_conn :: "nat \<Rightarrow> mysql_backend \<Rightarrow> mysql_backend" where
  "drop_conn t mb = mb\<lparr>mb_conn := (mb_conn mb)(t := None)\<rparr>"

definition close :: "nat \<Rightarrow> mysql_backend \<Rightarrow> mysql_backend" where
  "close t mb = (case mb_conn mb t of None \<Rightarrow> mb | Some c \<Rightarrow> drop_conn t (log_op (DbClose c) mb))"


section \<open>Statements\<close>

definition CONN_LOST :: "int list" where "CONN_LOST = [2006, 2013]"

definition attempt :: "nat \<Rightarrow> string \<Rightarrow> db_params \<Rightarrow> 'r attempt_env \<Rightarrow> mysql_backend \<Rightarrow> (db_exn + 'r) \<times> mysql_backend" where
  "attempt t query params env mb =
     (case conn t env mb of
        (Inl e, mb1) \<Rightarrow> (Inl e, mb1)
      | (Inr c, mb1) \<Rightarrow> (at_run env, log_op (DbExec c query params) mb1))"

text \<open>The loop of \<^verbatim>\<open>_execute\<close> over \<^verbatim>\<open>range(2)\<close>; \<open>exc\<close> is the error it raises when it falls through.\<close>

fun execute_loop :: "nat \<Rightarrow> string \<Rightarrow> db_params \<Rightarrow> (nat \<Rightarrow> 'r attempt_env) \<Rightarrow> nat list \<Rightarrow> db_exn \<Rightarrow> mysql_backend
    \<Rightarrow> (db_exn + 'r) \<times> mysql_backend" where
  "execute_loop t query params envs [] exc mb = (Inl exc, mb)"
| "execute_loop t query params envs (a # rest) exc mb =
     (case attempt t query params (envs a) mb of
        (Inr r, mb1) \<Rightarrow> (Inr r, mb1)
      | (Inl OtherDb, mb1) \<Rightarrow> (Inl OtherDb, mb1)
      | (Inl (Operational n), mb1) \<Rightarrow>
          let mb2 = drop_conn t mb1 in
          if a = 0 \<and> n \<in> set CONN_LOST then execute_loop t query params envs rest (Operational n) mb2
          else (Inl (Operational n), mb2))"

definition execute :: "nat \<Rightarrow> string \<Rightarrow> db_params \<Rightarrow> (nat \<Rightarrow> 'r attempt_env) \<Rightarrow> mysql_backend
    \<Rightarrow> (db_exn + 'r) \<times> mysql_backend" where
  "execute t query params envs = execute_loop t query params envs [0, 1] OtherDb"

datatype query_key = Auth_query | Acct_start_query | Acct_update_query | Acct_stop_query

definition default_queries :: "query_key \<Rightarrow> string" where
  "default_queries k = (case k of
       Auth_query \<Rightarrow> DEFAULT_AUTH_QUERY | Acct_start_query \<Rightarrow> DEFAULT_ACCT_START
     | Acct_update_query \<Rightarrow> DEFAULT_ACCT_UPDATE | Acct_stop_query \<Rightarrow> DEFAULT_ACCT_STOP)"

definition query_of :: "query_key \<Rightarrow> mysql_backend \<Rightarrow> string" where
  "query_of k mb =
     (case mb_mysql mb of
        Some m \<Rightarrow> (case k of Auth_query \<Rightarrow> my_auth_query m | Acct_start_query \<Rightarrow> my_acct_start_query m
                     | Acct_update_query \<Rightarrow> my_acct_update_query m | Acct_stop_query \<Rightarrow> my_acct_stop_query m)
      | None \<Rightarrow> default_queries k)"


section \<open>Rows\<close>

text \<open>\<^verbatim>\<open>row.get(name)\<close>: a missing column and SQL NULL are both \<^verbatim>\<open>None\<close>.\<close>

definition col :: "db_row \<Rightarrow> string \<Rightarrow> rad_value option" where
  "col row name = (case map_of row name of None \<Rightarrow> None | Some v \<Rightarrow> v)"

definition col_true :: "rad_value option \<Rightarrow> bool" where
  "col_true v = (case v of None \<Rightarrow> False | Some x \<Rightarrow> rad_true x)"

definition py_or :: "rad_value option \<Rightarrow> rad_value option \<Rightarrow> rad_value option" where
  "py_or v w = (if col_true v then v else w)"

definition col_str :: "rad_value option \<Rightarrow> string" where
  "col_str v = (case v of None \<Rightarrow> ''None'' | Some x \<Rightarrow> rad_str x)"

definition col_int :: "db_row \<Rightarrow> string \<Rightarrow> int option res" where
  "col_int row name = (case col row name of None \<Rightarrow> Inr None | Some v \<Rightarrow> bindE (rad_int v) (\<lambda>n. Inr (Some n)))"

definition row_accepted :: "db_row \<Rightarrow> bool" where
  "row_accepted row = (case map_of row ''accepted'' of None \<Rightarrow> True | Some v \<Rightarrow> col_true v)"

definition row_to_result :: "db_row \<Rightarrow> auth_result res" where
  "row_to_result row =
     (if \<not> row_accepted row then Inr (new_auth_result False)
      else
        let r0 = new_auth_result True;
            cai = py_or (col row ''cisco-avpair'') (py_or (col row ''cisco_avpair'')
                    (py_or (col row ''cisco_account_info'') (Some (RStr []))));
            r1 = (if col_true cai then apply_account_info r0 (split_on CHR '','' (col_str cai)) else r0);
            nat_ip = col row ''nat_ip'';
            r2 = (if col_true nat_ip then r1\<lparr>ar_nat_ip := Some (col_str nat_ip)\<rparr> else r1)
        in bindE (col_int row ''alive_interval'') (\<lambda>alive.
           bindE (col_int row ''max_duration'') (\<lambda>dur.
           bindE (col_int row ''idle_timeout'') (\<lambda>idle.
             let r3 = r2\<lparr>ar_alive_interval := alive, ar_max_duration := dur, ar_idle_timeout := idle\<rparr>;
                 cls = py_or (col row ''class'') (col row ''cookie'');
                 r4 = (if col_true cls then r3\<lparr>ar_cookie := Some (take 32 (col_str cls))\<rparr> else r3)
             in Inr (if col_true (col row ''no_accounting'') then r4\<lparr>ar_no_accounting := True\<rparr> else r4)))))"


section \<open>The backend operations\<close>

text \<open>What one call meets: the worker thread it runs in, the attempts, the clock of the bookkeeping.\<close>

record 'r mysql_env =
  me_thread :: nat
  me_attempts :: "nat \<Rightarrow> 'r attempt_env"
  me_clock :: clock

definition mysql_open :: "rat \<Rightarrow> mysql_backend \<Rightarrow> bool \<times> mysql_backend" where
  "mysql_open now mb = (let (opened, b) = is_circuit_open now (mb_base mb) in (opened, mb\<lparr>mb_base := b\<rparr>))"

definition mb_record :: "bool \<Rightarrow> clock \<Rightarrow> mysql_backend \<Rightarrow> mysql_backend" where
  "mb_record success ck mb = mb\<lparr>mb_base := record_call success ck (mb_base mb)\<rparr>"

definition mysql_authenticate :: "db_row option mysql_env \<Rightarrow> nl_event \<Rightarrow> mysql_backend \<Rightarrow> auth_result res \<times> mysql_backend" where
  "mysql_authenticate env ev mb =
     (case long2ip (e_ipaddr ev) of
        Inl e \<Rightarrow> (Inl e, mb)
      | Inr ip \<Rightarrow>
          (case execute (me_thread env) (query_of Auth_query mb) [(''ip'', RStr ip), (''nas_ip'', RStr (mb_nas_ip mb))]
                  (me_attempts env) mb of
             (Inl (Operational n), mb1) \<Rightarrow> (Inl BackendUnavailable, mb_record False (me_clock env) mb1)
           | (Inl OtherDb, mb1) \<Rightarrow> (Inl OtherError, mb1)
           | (Inr row, mb1) \<Rightarrow>
               let mb2 = mb_record True (me_clock env) mb1 in
               (case row of
                  None \<Rightarrow> (Inr (new_auth_result False), mb2)
                | Some r \<Rightarrow> (if r = [] then Inr (new_auth_result False) else row_to_result r, mb2))))"

definition acct_params :: "nl_event \<Rightarrow> mysql_backend \<Rightarrow> db_params res" where
  "acct_params ev mb =
     bindE (long2ip (e_ipaddr ev)) (\<lambda>ip.
     bindE (long2ip (e_nat_ipaddr ev)) (\<lambda>nat_ip.
       Inr [(''session_id'', RStr (e_session_id ev)), (''ip'', RStr ip), (''nat_ip'', RStr nat_ip),
            (''port_number'', RInt (e_port_number ev)), (''duration'', RInt (e_duration ev)),
            (''in_bytes'', RInt (e_in_bytes ev)), (''out_bytes'', RInt (e_out_bytes ev)),
            (''in_packets'', RInt (e_in_packets ev)), (''out_packets'', RInt (e_out_packets ev)),
            (''service_name'', RStr (case e_service_name ev of None \<Rightarrow> [] | Some s \<Rightarrow> s)),
            (''nas_ip'', RStr (mb_nas_ip mb)), (''nas_id'', RStr (mb_nas_id mb))]))"

definition acct_type :: "int \<Rightarrow> mysql_backend \<Rightarrow> string \<times> string" where
  "acct_type evt mb =
     (if evt = EVENT_SESS_START then (''Start'', query_of Acct_start_query mb)
      else if evt = EVENT_SESS_UPDATE then (''Alive'', query_of Acct_update_query mb)
      else if evt = EVENT_SESS_STOP then (''Stop'', query_of Acct_stop_query mb)
      else (''Unknown'', []))"

definition mysql_account :: "unit mysql_env \<Rightarrow> nl_event \<Rightarrow> mysql_backend \<Rightarrow> unit res \<times> mysql_backend" where
  "mysql_account env ev mb =
     (case acct_params ev mb of
        Inl e \<Rightarrow> (Inl e, mb)
      | Inr params \<Rightarrow>
          let (type_name, query) = acct_type (e_type ev) mb in
          if query = [] then (Inr (), mb)
          else
            (case execute (me_thread env) query (params @ [(''acct_type'', RStr type_name)]) (me_attempts env) mb of
               (Inr _, mb1) \<Rightarrow> (Inr (), mb_record True (me_clock env) mb1)
             | (Inl (Operational n), mb1) \<Rightarrow> (Inr (), mb_record False (me_clock env) mb1)
             | (Inl OtherDb, mb1) \<Rightarrow> (Inl OtherError, mb1)))"


section \<open>What a statement asks of the database\<close>

fun is_exec :: "db_op \<Rightarrow> bool" where
  "is_exec (DbExec c q ps) = True" | "is_exec _ = False"

definition new_ops :: "mysql_backend \<Rightarrow> mysql_backend \<Rightarrow> db_op list" where
  "new_ops mb mb' = drop (length (mb_ops mb)) (mb_ops mb')"

lemma new_ops_eq: "mb_ops mb' = mb_ops mb @ ops \<Longrightarrow> new_ops mb mb' = ops"
  by (simp add: new_ops_def)

lemma log_op_simps [simp]:
  "mb_ops (log_op op mb) = mb_ops mb @ [op]" "mb_conn (log_op op mb) = mb_conn mb" "mb_born (log_op op mb) = mb_born mb"
  "mb_base (log_op op mb) = mb_base mb" "mb_entry (log_op op mb) = mb_entry mb" "mb_mysql (log_op op mb) = mb_mysql mb"
  by (simp_all add: log_op_def)

lemma drop_conn_simps [simp]:
  "mb_ops (drop_conn t mb) = mb_ops mb" "mb_conn (drop_conn t mb) = (mb_conn mb)(t := None)" "mb_born (drop_conn t mb) = mb_born mb"
  "mb_base (drop_conn t mb) = mb_base mb" "mb_entry (drop_conn t mb) = mb_entry mb" "mb_mysql (drop_conn t mb) = mb_mysql mb"
  by (simp_all add: drop_conn_def)

lemma mb_record_simps [simp]:
  "mb_ops (mb_record s ck mb) = mb_ops mb" "mb_conn (mb_record s ck mb) = mb_conn mb" "mb_born (mb_record s ck mb) = mb_born mb"
  "mb_base (mb_record s ck mb) = record_call s ck (mb_base mb)" "mb_entry (mb_record s ck mb) = mb_entry mb"
  "mb_mysql (mb_record s ck mb) = mb_mysql mb"
  by (simp_all add: mb_record_def)

text \<open>
  An attempt runs the statement on the connection of its thread if that is young enough, else on a
  new one, after closing the old one; if none can be opened, it runs nothing.
\<close>

definition closing :: "nat \<Rightarrow> mysql_backend \<Rightarrow> db_op list" where
  "closing t mb = (case mb_conn mb t of None \<Rightarrow> [] | Some c \<Rightarrow> [DbClose c])"

lemma closing_simps [simp]: "mb_conn mb t = None \<Longrightarrow> closing t mb = []" "mb_conn mb t = Some c \<Longrightarrow> closing t mb = [DbClose c]"
  "filter is_exec (closing t mb) = []"
  by (auto simp: closing_def split: option.splits)

lemma attempt_cases [consumes 1, case_names reuse fresh refused]:
  assumes "attempt t q ps env mb = (r, mb')"
  obtains c where "mb_conn mb t = Some c" "at_now env - mb_born mb t < max_age mb" "r = at_run env"
      "mb' = log_op (DbExec c q ps) mb"
  | c where "at_connect env = Inr c" "r = at_run env" "mb_conn mb t \<noteq> None \<Longrightarrow> max_age mb \<le> at_now env - mb_born mb t"
      "mb' = mb\<lparr>mb_conn := (mb_conn mb)(t := Some c), mb_born := (mb_born mb)(t := at_born env),
                mb_ops := mb_ops mb @ closing t mb @ [DbOpen c (db_login_of (mb_entry mb)), DbExec c q ps]\<rparr>"
  | e where "at_connect env = Inl e" "r = Inl e" "mb_conn mb t \<noteq> None \<Longrightarrow> max_age mb \<le> at_now env - mb_born mb t"
      "mb' = mb\<lparr>mb_ops := mb_ops mb @ closing t mb\<rparr>"
proof (cases "\<exists>c. mb_conn mb t = Some c \<and> at_now env - mb_born mb t < max_age mb")
  case True
  with assms show ?thesis by (auto simp: attempt_def conn_def intro: that(1))
next
  case False
  then have age: "mb_conn mb t \<noteq> None \<Longrightarrow> max_age mb \<le> at_now env - mb_born mb t" by (auto simp: not_less)
  have "conn t env mb = connect t env (mb\<lparr>mb_ops := mb_ops mb @ closing t mb\<rparr>)"
    using age by (cases "mb_conn mb t") (auto simp: conn_def log_op_def)
  with assms age show ?thesis
    by (cases "at_connect env") (auto simp: attempt_def connect_def log_op_def Let_def intro: that(2,3))
qed

lemma execute_eq:
  "execute t q ps envs mb =
     (case attempt t q ps (envs 0) mb of
        (Inl (Operational n), mb1) \<Rightarrow>
          (if n \<in> set CONN_LOST
           then (case attempt t q ps (envs 1) (drop_conn t mb1) of
                   (Inl (Operational n'), mb2) \<Rightarrow> (Inl (Operational n'), drop_conn t mb2) | res \<Rightarrow> res)
           else (Inl (Operational n), drop_conn t mb1))
      | res \<Rightarrow> res)"
  by (simp add: execute_def Let_def split: prod.splits sum.splits db_exn.splits)

text \<open>The ways through \<^verbatim>\<open>_execute\<close>: one attempt decides, or a lost connection leads to a second.\<close>

lemma execute_cases [consumes 1, case_names once twice]:
  assumes "execute t q ps envs mb = (r, mb')"
  obtains mb1 where "attempt t q ps (envs 0) mb = (r, mb1)" "mb' = (case r of Inl (Operational n) \<Rightarrow> drop_conn t mb1 | _ \<Rightarrow> mb1)"
      "\<And>n. r = Inl (Operational n) \<Longrightarrow> n \<notin> set CONN_LOST"
  | n mb1 mb2 where "attempt t q ps (envs 0) mb = (Inl (Operational n), mb1)" "n \<in> set CONN_LOST"
      "attempt t q ps (envs 1) (drop_conn t mb1) = (r, mb2)" "mb' = (case r of Inl (Operational n) \<Rightarrow> drop_conn t mb2 | _ \<Rightarrow> mb2)"
proof -
  obtain r1 mb1 where a: "attempt t q ps (envs 0) mb = (r1, mb1)" by (cases "attempt t q ps (envs 0) mb")
  show ?thesis
  proof (cases "\<exists>n. r1 = Inl (Operational n) \<and> n \<in> set CONN_LOST")
    case True
    then obtain n where n: "r1 = Inl (Operational n)" "n \<in> set CONN_LOST" by blast
    obtain r2 mb2 where "attempt t q ps (envs 1) (drop_conn t mb1) = (r2, mb2)"
      by (cases "attempt t q ps (envs 1) (drop_conn t mb1)")
    with assms a n that(2) [of n mb1 mb2] show ?thesis
      by (auto simp: execute_eq split: sum.splits db_exn.splits)
  next
    case False
    with assms a that(1) [of mb1] show ?thesis
      by (auto simp: execute_eq split: sum.splits db_exn.splits if_splits)
  qed
qed

section \<open>The backend contract\<close>

lemma row_to_result_wf: "row_to_result row = Inr r \<Longrightarrow> auth_result_wf r"
proof -
  assume p: "row_to_result row = Inr r"
  have upd: "auth_result_wf (a\<lparr>ar_nat_ip := w\<rparr>) \<longleftrightarrow> auth_result_wf a"
    "auth_result_wf (a\<lparr>ar_alive_interval := x, ar_max_duration := y, ar_idle_timeout := z\<rparr>) \<longleftrightarrow> auth_result_wf a"
    "auth_result_wf (a\<lparr>ar_cookie := u\<rparr>) \<longleftrightarrow> auth_result_wf a" "auth_result_wf (a\<lparr>ar_no_accounting := n\<rparr>) \<longleftrightarrow> auth_result_wf a"
    for a w x y z u n by (simp_all add: auth_result_wf_def)
  show ?thesis
    using p by (auto simp: row_to_result_def Let_def bindE_eq_Inr upd new_auth_result_wf apply_account_info_wf split: if_splits)
qed

lemma row_to_result_accept: "row_to_result row = Inr r \<Longrightarrow> ar_accept r \<longleftrightarrow> row_accepted row"
  using apply_account_info_other
  by (auto simp: row_to_result_def Let_def bindE_eq_Inr new_auth_result_def split: if_splits)

text \<open>Every result of \<^verbatim>\<open>authenticate\<close> comes from an answer of the database.\<close>

lemma mysql_authenticate_Inr:
  assumes "mysql_authenticate env ev mb = (Inr r, mb')"
  obtains ip row mb1 where "long2ip (e_ipaddr ev) = Inr ip"
    "execute (me_thread env) (query_of Auth_query mb) [(''ip'', RStr ip), (''nas_ip'', RStr (mb_nas_ip mb))]
       (me_attempts env) mb = (Inr row, mb1)" "mb' = mb_record True (me_clock env) mb1"
    "(row = None \<or> row = Some []) \<and> r = new_auth_result False \<or> (\<exists>cols. row = Some cols \<and> cols \<noteq> [] \<and> row_to_result cols = Inr r)"
  using assms
  by (auto simp: mysql_authenticate_def Let_def split: sum.splits prod.splits db_exn.splits option.splits if_splits)

lemma long2ip_exception: "long2ip n = Inl e \<Longrightarrow> e = StructError"
  by (auto simp: long2ip_def bindE_eq_Inl pack_be_eq_Inl dest: pack_be_eq_Inl split: if_splits)

interpretation my: backend_iface mysql_open mysql_authenticate mysql_account
proof
  fix env ev b r b'
  assume "mysql_authenticate env ev b = (Inr r, b')"
  then show "auth_result_wf r" by (rule mysql_authenticate_Inr) (auto simp: new_auth_result_wf dest: row_to_result_wf)
next
  fix env ev b e b'
  assume "mysql_account env ev b = (Inl e, b')"
  then show "is_exception e"
    by (auto simp: mysql_account_def acct_params_def bindE_eq_Inl is_exception_def Let_def dest: long2ip_exception
        split: sum.splits prod.splits db_exn.splits if_splits)
qed


section \<open>Statements and connections\<close>

lemma attempt_ops:
  assumes "attempt t q ps env mb = (r, mb')"
  obtains (nothing) pre e where "mb_ops mb' = mb_ops mb @ pre" "filter is_exec pre = []" "at_connect env = Inl e" "r = Inl e"
  | (ran) pre c where "mb_ops mb' = mb_ops mb @ pre @ [DbExec c q ps]" "filter is_exec pre = []" "r = at_run env"
      "mb_conn mb t = None \<Longrightarrow> at_connect env = Inr c \<and> pre = [DbOpen c (db_login_of (mb_entry mb))]"
  using assms
proof (cases rule: attempt_cases)
  case (reuse c)
  then show ?thesis by (intro ran [of "[]" c]) simp_all
next
  case (fresh c)
  then show ?thesis
    by (intro ran [of "closing t mb @ [DbOpen c (db_login_of (mb_entry mb))]" c]) auto
next
  case (refused e)
  from refused(4) have "mb_ops mb' = mb_ops mb @ closing t mb" by simp
  from this closing_simps(3) refused(1,2) show ?thesis by (rule nothing)
qed

lemma attempt_keeps:
  assumes "attempt t q ps env mb = (r, mb')"
  shows "mb_entry mb' = mb_entry mb" "mb_mysql mb' = mb_mysql mb" "mb_base mb' = mb_base mb"
    "t' \<noteq> t \<Longrightarrow> mb_conn mb' t' = mb_conn mb t'" "t' \<noteq> t \<Longrightarrow> mb_born mb' t' = mb_born mb t'"
  using assms by (cases rule: attempt_cases; auto)+

lemma after_execute:
  "mb_ops (case r of Inl (Operational n) \<Rightarrow> drop_conn t mb | _ \<Rightarrow> mb) = mb_ops mb"
  "mb_base (case r of Inl (Operational n) \<Rightarrow> drop_conn t mb | _ \<Rightarrow> mb) = mb_base mb"
  by (auto split: sum.splits db_exn.splits)

lemma execute_statements:
  assumes "execute t q ps envs mb = (r, mb')"
  shows "\<exists>ops. mb_ops mb' = mb_ops mb @ ops \<and> length (filter is_exec ops) \<le> 2
    \<and> (\<forall>op \<in> set ops. is_exec op \<longrightarrow> (\<exists>c. op = DbExec c q ps))
    \<and> (length (filter is_exec ops) = 2 \<longrightarrow> (\<exists>n c. at_run (envs 0) = Inl (Operational n) \<and> n \<in> {2006, 2013}
        \<and> at_connect (envs 1) = Inr c \<and> (\<exists>pre. ops = pre @ [DbOpen c (db_login_of (mb_entry mb)), DbExec c q ps])))"
  using assms
proof (cases rule: execute_cases)
  case (once mb1)
  have "mb_ops mb' = mb_ops mb1" by (simp add: once(2) after_execute)
  with once(1) show ?thesis by (auto elim!: attempt_ops simp: filter_empty_conv)
next
  case (twice n mb1 mb2)
  have entry: "mb_entry mb1 = mb_entry mb" by (rule attempt_keeps [OF twice(1)])
  obtain ops1 where ops1: "mb_ops mb1 = mb_ops mb @ ops1" "length (filter is_exec ops1) \<le> 1"
      "\<forall>op \<in> set ops1. is_exec op \<longrightarrow> (\<exists>c. op = DbExec c q ps)" "filter is_exec ops1 \<noteq> [] \<longrightarrow> at_run (envs 0) = Inl (Operational n)"
    using twice(1) by (rule attempt_ops) (auto simp: filter_empty_conv)
  obtain ops2 where ops2: "mb_ops mb2 = mb_ops mb1 @ ops2"
      "filter is_exec ops2 = [] \<or> (\<exists>c. at_connect (envs 1) = Inr c \<and> ops2 = [DbOpen c (db_login_of (mb_entry mb)), DbExec c q ps])"
    using twice(3) by (rule attempt_ops) (auto simp: entry)
  show ?thesis
    using ops1 ops2 twice(2,4) by (intro exI [of _ "ops1 @ ops2"]) (auto simp: after_execute CONN_LOST_def filter_empty_conv)
qed

text \<open>
  A statement is sent to the database at most twice, the second time only after the first try
  lost its connection, and then on a newly opened connection; nothing but this statement is sent.
\<close>
theorem mysql_retry_bounded:
  assumes "execute t q ps envs mb = (r, mb')"
  shows "\<exists>ops. mb_ops mb' = mb_ops mb @ ops \<and> length (filter is_exec ops) \<le> 2
    \<and> (\<forall>op \<in> set ops. is_exec op \<longrightarrow> (\<exists>c. op = DbExec c q ps))
    \<and> (length (filter is_exec ops) = 2 \<longrightarrow> (\<exists>n c. at_run (envs 0) = Inl (Operational n) \<and> n \<in> {2006, 2013}
        \<and> at_connect (envs 1) = Inr c \<and> (\<exists>pre. ops = pre @ [DbOpen c (db_login_of (mb_entry mb)), DbExec c q ps])))"
  by (rule execute_statements [OF assms])

text \<open>
  The life of a backend: calls of its operations by worker threads, one after the other, on a clock
  that does not go back, with a handle of its own for every new connection.
\<close>

definition opened_conns :: "db_op list \<Rightarrow> nat set" where
  "opened_conns ops = {c. \<exists>l. DbOpen c l \<in> set ops}"

definition closed_conns :: "db_op list \<Rightarrow> nat set" where
  "closed_conns ops = {c. DbClose c \<in> set ops}"

definition timely :: "rat \<Rightarrow> (nat \<Rightarrow> 'r attempt_env) \<Rightarrow> rat \<Rightarrow> bool" where
  "timely now envs later \<longleftrightarrow> now \<le> at_now (envs 0) \<and> at_now (envs 0) \<le> at_born (envs 0) \<and> at_born (envs 0) \<le> at_now (envs 1)
     \<and> at_now (envs 1) \<le> at_born (envs 1) \<and> at_born (envs 1) \<le> later"

definition new_handles :: "db_op list \<Rightarrow> (nat \<Rightarrow> 'r attempt_env) \<Rightarrow> bool" where
  "new_handles ops envs \<longleftrightarrow> (\<forall>a c. at_connect (envs a) = Inr c \<longrightarrow> c \<notin> opened_conns ops) \<and> (at_connect (envs 0) = at_connect (envs 1) \<longrightarrow> (\<forall>c. at_connect (envs 0) \<noteq> Inr c))"

inductive my_reach :: "rat \<Rightarrow> mysql_backend \<Rightarrow> bool" where
  my_init: "my_reach now (new_mysql_backend entry cfg nas_ip nas_id)"
| my_open: "my_reach now mb \<Longrightarrow> my_reach now (snd (mysql_open time mb))"
| my_auth: "my_reach now mb \<Longrightarrow> timely now (me_attempts env) later \<Longrightarrow> new_handles (mb_ops mb) (me_attempts env)
    \<Longrightarrow> my_reach later (snd (mysql_authenticate env ev mb))"
| my_acct: "my_reach now mb \<Longrightarrow> timely now (me_attempts env') later \<Longrightarrow> new_handles (mb_ops mb) (me_attempts env')
    \<Longrightarrow> my_reach later (snd (mysql_account env' ev mb))"
| my_close: "my_reach now mb \<Longrightarrow> my_reach now (close t mb)"

text \<open>A trace in which no statement runs on a connection that was closed before, or never opened.\<close>

fun ops_ok :: "nat set \<Rightarrow> nat set \<Rightarrow> db_op list \<Rightarrow> bool" where
  "ops_ok op cl [] = True"
| "ops_ok op cl (DbOpen c l # ops) = (c \<notin> op \<and> ops_ok (insert c op) cl ops)"
| "ops_ok op cl (DbClose c # ops) = (c \<in> op \<and> ops_ok op (insert c cl) ops)"
| "ops_ok op cl (DbExec c q ps # ops) = (c \<in> op \<and> c \<notin> cl \<and> ops_ok op cl ops)"

lemma opened_simps [simp]: "opened_conns [] = {}" "opened_conns (xs @ ys) = opened_conns xs \<union> opened_conns ys"
  "opened_conns (DbOpen c l # ops) = insert c (opened_conns ops)" "opened_conns (DbClose c # ops) = opened_conns ops" "opened_conns (DbExec c q ps # ops) = opened_conns ops"
  by (auto simp: opened_conns_def)

lemma closed_simps [simp]: "closed_conns [] = {}" "closed_conns (xs @ ys) = closed_conns xs \<union> closed_conns ys"
  "closed_conns (DbOpen c l # ops) = closed_conns ops" "closed_conns (DbClose c # ops) = insert c (closed_conns ops)" "closed_conns (DbExec c q ps # ops) = closed_conns ops"
  by (auto simp: closed_conns_def)

lemma ops_ok_append: "ops_ok op cl (xs @ ys) \<longleftrightarrow> ops_ok op cl xs \<and> ops_ok (op \<union> opened_conns xs) (cl \<union> closed_conns xs) ys"
  by (induction op cl xs rule: ops_ok.induct) auto

definition my_inv :: "rat \<Rightarrow> mysql_backend \<Rightarrow> bool" where
  "my_inv now mb \<longleftrightarrow> ops_ok {} {} (mb_ops mb) \<and> closed_conns (mb_ops mb) \<subseteq> opened_conns (mb_ops mb)
     \<and> (\<forall>t c. mb_conn mb t = Some c \<longrightarrow> c \<in> opened_conns (mb_ops mb)
          \<and> (c \<in> closed_conns (mb_ops mb) \<longrightarrow> max_age mb \<le> now - mb_born mb t)
          \<and> (\<forall>t'. mb_conn mb t' = Some c \<longrightarrow> t' = t))"

lemma max_age_cong: "mb_mysql mb' = mb_mysql mb \<Longrightarrow> max_age mb' = max_age mb"
  by (simp add: max_age_def)

lemma my_inv_frame:
  assumes "my_inv now mb" "now \<le> now'" "mb_ops mb' = mb_ops mb" "mb_mysql mb' = mb_mysql mb" "mb_born mb' = mb_born mb"
    "\<And>t. mb_conn mb' t = None \<or> mb_conn mb' t = mb_conn mb t"
  shows "my_inv now' mb'"
proof -
  have held: "mb_conn mb t = Some c" if "mb_conn mb' t = Some c" for t c using assms(6) [of t] that by auto
  show ?thesis
    using assms(1,2) held unfolding my_inv_def assms(3,5) max_age_cong [OF assms(4)]
    by (metis diff_right_mono order_trans)
qed

lemma closing_inv:
  assumes "my_inv now mb"
  shows "closed_conns (mb_ops mb @ closing t mb) \<subseteq> opened_conns (mb_ops mb)" "ops_ok {} {} (mb_ops mb @ closing t mb)"
    "opened_conns (closing t mb) = {}" "\<And>c'. c' \<in> closed_conns (closing t mb) \<longleftrightarrow> mb_conn mb t = Some c'"
    "\<And>t' c'. mb_conn mb t' = Some c' \<Longrightarrow> mb_conn mb t = Some c' \<Longrightarrow> t' = t"
  using assms by (cases "mb_conn mb t"; auto simp: my_inv_def ops_ok_append)+

lemma attempt_inv:
  assumes inv: "my_inv now mb" and time: "now \<le> at_now env" "at_now env \<le> at_born env"
    and new: "\<And>c. at_connect env = Inr c \<Longrightarrow> c \<notin> opened_conns (mb_ops mb)"
    and run: "attempt t q ps env mb = (r, mb')"
  shows "my_inv (at_born env) mb'"
  using run
proof (cases rule: attempt_cases)
  case (reuse c)
  have "c \<in> opened_conns (mb_ops mb)" "c \<notin> closed_conns (mb_ops mb)" using inv reuse(1,2) time by (force simp: my_inv_def)+
  moreover have "my_inv (at_born env) mb" using time by (intro my_inv_frame [OF inv]) auto
  ultimately show ?thesis by (auto simp: my_inv_def reuse(4) ops_ok_append max_age_def)
next
  case (fresh c)
  note closing_inv [OF inv, where t = t]
  moreover have "my_inv (at_born env) mb" using time by (intro my_inv_frame [OF inv]) auto
  ultimately show ?thesis
    using new [OF fresh(1)] unfolding my_inv_def fresh(4) max_age_def
    by (auto simp: ops_ok_append)
next
  case (refused e)
  note closing_inv [OF inv, where t = t]
  moreover have "my_inv (at_born env) mb" using time by (intro my_inv_frame [OF inv]) auto
  moreover have "mb_conn mb t \<noteq> None \<Longrightarrow> max_age mb \<le> at_born env - mb_born mb t" using refused(3) time by force
  ultimately show ?thesis
    unfolding my_inv_def refused(4) max_age_def by (auto dest: closing_inv(5) [OF inv])
qed

lemma attempt_opened:
  "attempt t q ps env mb = (r, mb') \<Longrightarrow> c \<in> opened_conns (mb_ops mb') \<Longrightarrow> c \<in> opened_conns (mb_ops mb) \<or> at_connect env = Inr c"
  by (erule attempt_cases; cases "mb_conn mb t"; auto)

lemma drop_conn_inv: "my_inv now mb \<Longrightarrow> my_inv now (drop_conn t mb)"
  by (rule my_inv_frame) auto

lemma after_execute_inv:
  "my_inv now mb \<Longrightarrow> now \<le> later \<Longrightarrow> my_inv later (case r of Inl (Operational n) \<Rightarrow> drop_conn t mb | _ \<Rightarrow> mb)"
  by (erule my_inv_frame) (auto split: sum.splits db_exn.splits)

lemma execute_inv:
  assumes "my_inv now mb" "timely now envs later" "new_handles (mb_ops mb) envs" "execute t q ps envs mb = (r, mb')"
  shows "my_inv later mb'"
  using assms(4)
proof (cases rule: execute_cases)
  case (once mb1)
  have "my_inv (at_born (envs 0)) mb1"
    using assms(2,3) by (intro attempt_inv [OF assms(1) _ _ _ once(1)]) (auto simp: timely_def new_handles_def)
  then show ?thesis unfolding once(2) using assms(2) by (auto intro!: after_execute_inv simp: timely_def)
next
  case (twice n mb1 mb2)
  have "my_inv (at_born (envs 0)) (drop_conn t mb1)"
    using assms(2,3) by (intro drop_conn_inv attempt_inv [OF assms(1) _ _ _ twice(1)]) (auto simp: timely_def new_handles_def)
  then have "my_inv (at_born (envs 1)) mb2"
    using assms(2,3) attempt_opened [OF twice(1)]
    by (intro attempt_inv [OF _ _ _ _ twice(3)]) (force simp: timely_def new_handles_def)+
  then show ?thesis unfolding twice(4) using assms(2) by (auto intro!: after_execute_inv simp: timely_def)
qed

lemma same_base: "\<exists>b. mb = mb\<lparr>mb_base := b\<rparr>"
  by (rule exI [of _ "mb_base mb"]) simp

lemma mysql_authenticate_via:
  obtains "snd (mysql_authenticate env ev mb) = mb"
  | q ps r mb1 where "execute (me_thread env) q ps (me_attempts env) mb = (r, mb1)"
      "\<exists>b. snd (mysql_authenticate env ev mb) = mb1\<lparr>mb_base := b\<rparr>"
proof (cases "long2ip (e_ipaddr ev)")
  case (Inl e)
  then show ?thesis using that(1) by (simp add: mysql_authenticate_def)
next
  case (Inr ip)
  obtain r mb1 where run: "execute (me_thread env) (query_of Auth_query mb) [(''ip'', RStr ip), (''nas_ip'', RStr (mb_nas_ip mb))]
       (me_attempts env) mb = (r, mb1)" by fastforce
  with Inr same_base have "\<exists>b. snd (mysql_authenticate env ev mb) = mb1\<lparr>mb_base := b\<rparr>"
    by (auto simp: mysql_authenticate_def mb_record_def Let_def split: sum.splits db_exn.splits option.splits)
  with run show ?thesis by (rule that(2))
qed

lemma mysql_account_via:
  obtains "snd (mysql_account env ev mb) = mb"
  | q ps r mb1 where "execute (me_thread env) q ps (me_attempts env) mb = (r, mb1)"
      "\<exists>b. snd (mysql_account env ev mb) = mb1\<lparr>mb_base := b\<rparr>"
      "fst (acct_type (e_type ev) mb) \<noteq> ''Unknown''"
      "q = snd (acct_type (e_type ev) mb)" "q \<noteq> []"
      "\<exists>params. acct_params ev mb = Inr params \<and> ps = params @ [(''acct_type'', RStr (fst (acct_type (e_type ev) mb)))]"
proof (cases "acct_params ev mb")
  case (Inl e)
  then show ?thesis using that(1) by (simp add: mysql_account_def)
next
  case (Inr params)
  obtain n q where at: "acct_type (e_type ev) mb = (n, q)" by fastforce
  obtain r mb1 where run: "execute (me_thread env) q (params @ [(''acct_type'', RStr n)]) (me_attempts env) mb = (r, mb1)" by fastforce
  show ?thesis
  proof (cases "q = []")
    case True
    with Inr at show ?thesis using that(1) by (simp add: mysql_account_def)
  next
    case False
    then have "n \<noteq> ''Unknown''" using at by (auto simp: acct_type_def split: if_splits)
    moreover have "\<exists>b. snd (mysql_account env ev mb) = mb1\<lparr>mb_base := b\<rparr>"
      using Inr run at False same_base by (auto simp: mysql_account_def mb_record_def Let_def split: sum.splits db_exn.splits)
    ultimately show ?thesis using run at False Inr by (intro that(2)) auto
  qed
qed

lemma my_reach_inv: "my_reach now mb \<Longrightarrow> my_inv now mb"
proof (induction rule: my_reach.induct)
  case (my_init now entry cfg nas_ip nas_id)
  then show ?case by (simp add: my_inv_def new_mysql_backend_def)
next
  case (my_open now mb time)
  show ?case by (rule my_inv_frame [OF my_open.IH]) (auto simp: mysql_open_def Let_def split: prod.splits)
next
  case (my_auth now mb env later ev)
  have le: "now \<le> later" using my_auth(2) by (simp add: timely_def)
  show ?case
  proof (rule mysql_authenticate_via [of env ev mb])
    assume "snd (mysql_authenticate env ev mb) = mb"
    then show ?thesis using le by (intro my_inv_frame [OF my_auth.IH]) auto
  next
    fix q ps r mb1
    assume run: "execute (me_thread env) q ps (me_attempts env) mb = (r, mb1)"
      and b: "\<exists>b. snd (mysql_authenticate env ev mb) = mb1\<lparr>mb_base := b\<rparr>"
    have "my_inv later mb1" by (rule execute_inv [OF my_auth.IH my_auth(2,3) run])
    then show ?thesis using b by (auto elim: my_inv_frame)
  qed
next
  case (my_acct now mb env later ev)
  have le: "now \<le> later" using my_acct(2) by (simp add: timely_def)
  show ?case
  proof (rule mysql_account_via [of env ev mb])
    assume "snd (mysql_account env ev mb) = mb"
    then show ?thesis using le by (intro my_inv_frame [OF my_acct.IH]) auto
  next
    fix q ps r mb1
    assume run: "execute (me_thread env) q ps (me_attempts env) mb = (r, mb1)"
      and b: "\<exists>b. snd (mysql_account env ev mb) = mb1\<lparr>mb_base := b\<rparr>"
    have "my_inv later mb1" by (rule execute_inv [OF my_acct.IH my_acct(2,3) run])
    then show ?thesis using b by (auto elim: my_inv_frame)
  qed
next
  case (my_close now mb t)
  have "my_inv now (drop_conn t (log_op (DbClose c) mb))" if "mb_conn mb t = Some c" for c
    using my_close.IH closing_inv [OF my_close.IH, where t = t] that
    by (auto simp: my_inv_def max_age_def ops_ok_append)
  then show ?case
    by (cases "mb_conn mb t") (simp_all add: close_def my_close.IH)
qed


text \<open>
  C32: whatever the worker threads do, and even when connecting fails after an old connection was
  closed, no statement runs on a closed connection or on one that was never opened, and no two
  threads share a connection.
\<close>
theorem no_statement_on_closed_connection:
  assumes "my_reach now mb"
  shows "ops_ok {} {} (mb_ops mb) \<and> (\<forall>t t' c. mb_conn mb t = Some c \<and> mb_conn mb t' = Some c \<longrightarrow> t' = t)"
  using my_reach_inv [OF assms] by (auto simp: my_inv_def)

text \<open>
  The database backend accepts a session only for a row whose \<^verbatim>\<open>accepted\<close> column is missing or true;
  no row, an empty one and a NULL reject, and a rejection brings no rate and no service along.
\<close>
theorem mysql_result_origin:
  assumes "mysql_authenticate env ev mb = (Inr r, mb')"
  shows "\<exists>ip row mb1. long2ip (e_ipaddr ev) = Inr ip
    \<and> execute (me_thread env) (query_of Auth_query mb) [(''ip'', RStr ip), (''nas_ip'', RStr (mb_nas_ip mb))]
        (me_attempts env) mb = (Inr row, mb1)
    \<and> mb_base mb' = record_ok (me_clock env) (mb_base mb1)
    \<and> (ar_accept r \<longleftrightarrow> (\<exists>cols. row = Some cols \<and> cols \<noteq> [] \<and> row_accepted cols))
    \<and> (\<not> ar_accept r \<longrightarrow> r = new_auth_result False)"
proof -
  from assms obtain ip row mb1 where run: "long2ip (e_ipaddr ev) = Inr ip"
    "execute (me_thread env) (query_of Auth_query mb) [(''ip'', RStr ip), (''nas_ip'', RStr (mb_nas_ip mb))]
       (me_attempts env) mb = (Inr row, mb1)" "mb' = mb_record True (me_clock env) mb1"
    and row: "(row = None \<or> row = Some []) \<and> r = new_auth_result False \<or> (\<exists>cols. row = Some cols \<and> cols \<noteq> [] \<and> row_to_result cols = Inr r)"
    by (rule mysql_authenticate_Inr)
  have "ar_accept r \<longleftrightarrow> (\<exists>cols. row = Some cols \<and> cols \<noteq> [] \<and> row_accepted cols)"
    using row row_to_result_accept by (auto simp: new_auth_result_def)
  moreover have "\<not> ar_accept r \<longrightarrow> r = new_auth_result False"
    using row row_to_result_accept by (auto simp: row_to_result_def)
  ultimately show ?thesis using run by (auto simp: record_ok_def)
qed

text \<open>
  When the last attempt ends in an operational error, the backend is unavailable, exactly one
  error is recorded and the thread gives its connection up, so that its next statement opens a new one.
\<close>
theorem mysql_failure_recorded:
  assumes "long2ip (e_ipaddr ev) = Inr ip"
    and "execute (me_thread env) (query_of Auth_query mb) [(''ip'', RStr ip), (''nas_ip'', RStr (mb_nas_ip mb))]
           (me_attempts env) mb = (Inl (Operational n), mb1)"
  shows "\<exists>mb'. mysql_authenticate env ev mb = (Inl BackendUnavailable, mb') \<and> mb_conn mb' (me_thread env) = None
    \<and> mb_base mb' = record_err (me_clock env) (mb_base mb)"
proof -
  have "mb_base mb1 = mb_base mb \<and> mb_conn mb1 (me_thread env) = None"
    using assms(2)
  proof (cases rule: execute_cases)
    case (once mb0)
    then show ?thesis using attempt_keeps(3) [OF once(1)] by simp
  next
    case (twice n mb0 mb2)
    then show ?thesis using attempt_keeps(3) [OF twice(1)] attempt_keeps(3) [OF twice(3)] by simp
  qed
  with assms show ?thesis by (simp add: mysql_authenticate_def record_err_def)
qed

text \<open>
  Accounting runs no statement but the one configured for the kind of the event, with the exact
  addresses, session identifier and 64-bit counters of the event as its parameters; an event of another
  kind changes nothing.
\<close>
theorem mysql_account_statement:
  assumes "DbExec c q ps \<in> set (new_ops mb (snd (mysql_account env ev mb)))"
  shows "(e_type ev = EVENT_SESS_START \<and> q = query_of Acct_start_query mb \<or> e_type ev = EVENT_SESS_UPDATE \<and> q = query_of Acct_update_query mb
      \<or> e_type ev = EVENT_SESS_STOP \<and> q = query_of Acct_stop_query mb)
    \<and> map_of ps ''session_id'' = Some (RStr (e_session_id ev)) \<and> (\<exists>ip. long2ip (e_ipaddr ev) = Inr ip \<and> map_of ps ''ip'' = Some (RStr ip))
    \<and> map_of ps ''in_bytes'' = Some (RInt (e_in_bytes ev)) \<and> map_of ps ''out_bytes'' = Some (RInt (e_out_bytes ev))
    \<and> map_of ps ''duration'' = Some (RInt (e_duration ev))"
proof (rule mysql_account_via [of env ev mb])
  assume "snd (mysql_account env ev mb) = mb"
  with assms show ?thesis by (simp add: new_ops_def)
next
  fix q' ps' r mb1
  assume run: "execute (me_thread env) q' ps' (me_attempts env) mb = (r, mb1)"
    and mb': "\<exists>b. snd (mysql_account env ev mb) = mb1\<lparr>mb_base := b\<rparr>"
    and q': "q' = snd (acct_type (e_type ev) mb)" "q' \<noteq> []"
    and ps': "\<exists>params. acct_params ev mb = Inr params \<and> ps' = params @ [(''acct_type'', RStr (fst (acct_type (e_type ev) mb)))]"
  obtain ops where "mb_ops mb1 = mb_ops mb @ ops" and only: "\<forall>op \<in> set ops. is_exec op \<longrightarrow> (\<exists>c. op = DbExec c q' ps')"
    using execute_statements [OF run] by blast
  then have "new_ops mb (snd (mysql_account env ev mb)) = ops" using mb' by (auto intro: new_ops_eq)
  with assms only have "q = q'" "ps = ps'" by fastforce+
  then show ?thesis using q' ps' by (auto simp: acct_type_def acct_params_def bindE_eq_Inr split: if_splits)
qed



section \<open>A lost connection\<close>

definition sample_mysql :: mysql_backend where
  "sample_mysql = new_mysql_backend (default_entry\<lparr>se_type := ''mysql'', se_host := ''db''\<rparr>) (default_config [] []) ''10.0.0.2'' ''nas''"

text \<open>The first connection is lost while the statement runs; what the second one answers is a parameter.\<close>

definition lost_then :: "db_exn + 'r \<Rightarrow> nat \<Rightarrow> 'r attempt_env" where
  "lost_then second a =
     (if a = 0 then \<lparr>at_now = 1, at_connect = Inr 7, at_born = 1, at_run = Inl (Operational 2013)\<rparr>
      else \<lparr>at_now = 2, at_connect = Inr 8, at_born = 2, at_run = second\<rparr>)"

definition lost_env :: "db_exn + 'r \<Rightarrow> 'r mysql_env" where
  "lost_env second = \<lparr>me_thread = 4, me_attempts = lost_then second, me_clock = at_time 5\<rparr>"

lemma sample_execute:
  "\<exists>mb'. execute 4 q ps (lost_then second) sample_mysql = (second, mb')
     \<and> mb_ops mb' = [DbOpen 7 (db_login_of (mb_entry sample_mysql)), DbExec 7 q ps, DbOpen 8 (db_login_of (mb_entry sample_mysql)), DbExec 8 q ps]"
  by (auto simp: execute_eq attempt_def conn_def connect_def lost_then_def sample_mysql_def new_mysql_backend_def
      log_op_def drop_conn_def CONN_LOST_def Let_def split: sum.splits db_exn.splits)

theorem mysql_retry_bounded_witness:
  "\<exists>ops. mb_ops (snd (execute 4 ''SELECT 1'' [] (lost_then (Inr ())) sample_mysql)) = ops \<and> length (filter is_exec ops) = 2
    \<and> (\<exists>pre. ops = pre @ [DbOpen 8 (db_login_of (mb_entry sample_mysql)), DbExec 8 ''SELECT 1'' []])"
proof -
  obtain r mb' where run: "execute 4 ''SELECT 1'' [] (lost_then (Inr ())) sample_mysql = (r, mb')" by fastforce
  moreover have "mb_ops sample_mysql = []" by (simp add: sample_mysql_def new_mysql_backend_def)
  moreover have "length (filter is_exec (mb_ops mb')) = 2"
    using sample_execute [of "''SELECT 1''" "[]" "Inr ()"] run by auto
  ultimately show ?thesis
    using mysql_retry_bounded [OF run] by (auto simp: lost_then_def)
qed

theorem no_statement_on_closed_connection_witness:
  "ops_ok {} {} (mb_ops (snd (mysql_authenticate (lost_env (Inr None)) sample_event sample_mysql)))"
proof -
  have "my_reach 0 sample_mysql" unfolding sample_mysql_def by (rule my_init)
  then have "my_reach 9 (snd (mysql_authenticate (lost_env (Inr None)) sample_event sample_mysql))"
    by (rule my_auth) (auto simp: timely_def new_handles_def lost_env_def lost_then_def sample_mysql_def new_mysql_backend_def)
  from no_statement_on_closed_connection [OF this] show ?thesis by blast
qed

lemma sample_authenticate:
  "\<exists>mb'. mysql_authenticate (lost_env (Inr row)) sample_event sample_mysql =
     (case row of None \<Rightarrow> Inr (new_auth_result False) | Some r \<Rightarrow> if r = [] then Inr (new_auth_result False) else row_to_result r, mb')"
proof -
  obtain mb' where "execute 4 (query_of Auth_query sample_mysql) [(''ip'', RStr ''10.0.0.1''), (''nas_ip'', RStr (mb_nas_ip sample_mysql))]
      (lost_then (Inr row)) sample_mysql = (Inr row, mb')"
    using sample_execute by blast
  then show ?thesis by (auto simp: mysql_authenticate_def sample_event_ip lost_env_def Let_def split: option.splits)
qed

theorem mysql_result_origin_witness:
  "\<exists>r mb'. mysql_authenticate (lost_env (Inr (Some [(''accepted'', None)]))) sample_event sample_mysql = (Inr r, mb')
     \<and> r = new_auth_result False"
proof -
  have "\<not> row_accepted [(''accepted'', None)]" by (simp add: row_accepted_def col_true_def)
  with sample_authenticate [of "Some [(''accepted'', None)]"] obtain mb'
    where run: "mysql_authenticate (lost_env (Inr (Some [(''accepted'', None)]))) sample_event sample_mysql = (Inr (new_auth_result False), mb')"
    by (auto simp: row_to_result_def)
  from mysql_result_origin [OF run] run show ?thesis by auto
qed

theorem mysql_failure_recorded_witness:
  "\<exists>mb'. mysql_authenticate (lost_env (Inl (Operational 2006))) sample_event sample_mysql = (Inl BackendUnavailable, mb')
    \<and> mb_conn mb' 4 = None"
proof -
  let ?env = "lost_env (Inl (Operational 2006)) :: db_row option mysql_env"
  obtain mb1 where "execute (me_thread ?env) (query_of Auth_query sample_mysql)
      [(''ip'', RStr ''10.0.0.1''), (''nas_ip'', RStr (mb_nas_ip sample_mysql))] (me_attempts ?env) sample_mysql = (Inl (Operational 2006), mb1)"
    using sample_execute [of _ _ "Inl (Operational 2006)"] by (fastforce simp: lost_env_def)
  from mysql_failure_recorded [OF sample_event_ip this] show ?thesis by (auto simp: lost_env_def)
qed

theorem mysql_account_statement_witness:
  "\<exists>q ps. DbExec 7 q ps \<in> set (new_ops sample_mysql (snd (mysql_account (lost_env (Inr ()))
        (sample_event\<lparr>e_type := EVENT_SESS_STOP, e_in_bytes := 5000000000\<rparr>) sample_mysql)))
    \<and> q = DEFAULT_ACCT_STOP \<and> map_of ps ''in_bytes'' = Some (RInt 5000000000)"
proof -
  let ?ev = "sample_event\<lparr>e_type := EVENT_SESS_STOP, e_in_bytes := 5000000000\<rparr>"
  have q: "acct_type (e_type ?ev) sample_mysql = (''Stop'', DEFAULT_ACCT_STOP)" "DEFAULT_ACCT_STOP \<noteq> []"
    by (simp_all add: acct_type_def event_codes query_of_def sample_mysql_def new_mysql_backend_def default_config_def
        default_queries_def DEFAULT_ACCT_STOP_def)
  have "e_nat_ipaddr ?ev = 0"
    by (simp add: sample_event_def kernel_msg_event_def with_hdr_def isg_event.defs nl_event.defs event_of_def
        sample_msg_def sample_out_def)
  then obtain ps where ps: "acct_params ?ev sample_mysql = Inr ps"
    using sample_event_ip by (simp add: acct_params_def long2ip_def pack_be_def)
  obtain mb' where run: "execute 4 DEFAULT_ACCT_STOP (ps @ [(''acct_type'', RStr ''Stop'')]) (lost_then (Inr ())) sample_mysql = (Inr (), mb')"
    "DbExec 7 DEFAULT_ACCT_STOP (ps @ [(''acct_type'', RStr ''Stop'')]) \<in> set (mb_ops mb')"
    using sample_execute [of DEFAULT_ACCT_STOP "ps @ [(''acct_type'', RStr ''Stop'')]" "Inr ()"] by auto
  have "mb_ops sample_mysql = []" by (simp add: sample_mysql_def new_mysql_backend_def)
  with run q ps have ex: "DbExec 7 DEFAULT_ACCT_STOP (ps @ [(''acct_type'', RStr ''Stop'')])
      \<in> set (new_ops sample_mysql (snd (mysql_account (lost_env (Inr ())) ?ev sample_mysql)))"
    by (simp add: mysql_account_def lost_env_def new_ops_def)
  from mysql_account_statement [OF this] have "map_of (ps @ [(''acct_type'', RStr ''Stop'')]) ''in_bytes'' = Some (RInt 5000000000)" by simp
  with ex show ?thesis by blast
qed

end
