(* ===== verification/Coa_Server.thy ===== *)
theory Coa_Server
  imports Radius_Packet
begin

unbundle bit_operations_syntax

text \<open>
  The CoA server of \<^verbatim>\<open>app/src/coa_server.py\<close> (RFC 5176): verification of a request, the choice of the
  session it addresses, the change it asks for, the command to the kernel and the reply. pyrad's
  decoder is the argument \<open>parse\<close>. Handling a packet is an operation on the netlink socket whose
  result is the reply datagram, if one is sent.
\<close>

section \<open>Authenticators and replies\<close>

definition verify_coa_auth :: "bytes \<Rightarrow> bytes \<Rightarrow> bool" where
  "verify_coa_auth data secret =
     (if length data < 20 then False
      else let zeroed = take 4 data @ zeros 16 @ drop 20 data
           in pyslice 4 20 data = md5 (zeroed @ secret))"

definition one_byte :: "int \<Rightarrow> bytes res" where
  "one_byte n = (if 0 \<le> n \<and> n < 256 then Inr [word_of_int n] else Inl ValueError)"

definition error_attr :: "string option \<Rightarrow> bytes" where
  "error_attr out_err =
     (case out_err of
        None \<Rightarrow> []
      | Some err \<Rightarrow> if err = [] then []
          else let cause = ERROR_CAUSES err in if cause \<noteq> 0 then [101, 6] @ be_bytes 4 cause else [])"

definition coa_reply :: "int \<Rightarrow> bytes \<Rightarrow> string \<Rightarrow> string option \<Rightarrow> bytes \<Rightarrow> bytes res" where
  "coa_reply req_id req_auth out_code out_err secret =
     (let attrs = error_attr out_err in
      bindE (concatE [one_byte (CODES out_code), one_byte req_id, pack_be 2 (20 + int (length attrs))]) (\<lambda>header.
        Inr (header @ md5 (header @ req_auth @ attrs @ secret) @ attrs)))"


section \<open>The change a CoA-Request asks for\<close>

text \<open>\<^verbatim>\<open>re.match(r'^subscriber:([^=]+)=(.+)', ap)\<close> and \<^verbatim>\<open>re.match(r'(a|dea)ctivate-service', cmd)\<close>.\<close>

definition match_avpair :: "string \<Rightarrow> (string \<times> string) option" where
  "match_avpair ap =
     (let rest = drop 11 ap; k = takeWhile (\<lambda>c. c \<noteq> CHR ''='') rest;
          after = drop (length k) rest; v = takeWhile (\<lambda>c. c \<noteq> CHR 0x0A) (tl after)
      in if take 11 ap = ''subscriber:'' \<and> k \<noteq> [] \<and> after \<noteq> [] \<and> v \<noteq> [] then Some (k, v) else None)"

definition is_service_command :: "string \<Rightarrow> bool" where
  "is_service_command cmd \<longleftrightarrow> take 16 cmd = ''activate-service'' \<or> take 18 cmd = ''deactivate-service''"

definition avpairs :: "string list \<Rightarrow> (string, string) odict" where
  "avpairs aps = foldl (\<lambda>av ap. case match_avpair ap of Some (k, v) \<Rightarrow> AList.update k v av | None \<Rightarrow> av) [] aps"

definition last_rate :: "string list \<Rightarrow> int list" where
  "last_rate ais = foldl (\<lambda>q ai. if ai \<noteq> [] \<and> upper_char (hd ai) = CHR ''Q'' then parse_qos ai else q) [] ais"

fun scan_services :: "string \<Rightarrow> nl_event list \<Rightarrow> (string, string) odict \<times> bytes option
    \<Rightarrow> (string, string) odict \<times> bytes option" where
  "scan_services svc_name [] acc = acc"
| "scan_services svc_name (cev # evs) (srv_list, svc_sid) =
     (case e_service_name cev of
        None \<Rightarrow> scan_services svc_name evs (srv_list, svc_sid)
      | Some sn \<Rightarrow>
          if sn = [] then scan_services svc_name evs (srv_list, svc_sid)
          else scan_services svc_name evs
            (AList.update sn (if e_flags cev AND SERVICE_STATUS_ON \<noteq> 0 then ''A'' else ''N'') srv_list,
             if sn = svc_name then Some (session_id_to_bytes (e_session_id cev)) else svc_sid))"

definition with_coa_rates :: "int list \<Rightarrow> evdict \<Rightarrow> evdict" where
  "with_coa_rates q ev =
     (let ev1 = (if length q = 4
                 then ev(Kin_rate \<mapsto> VInt (q ! 0), Kin_burst \<mapsto> VInt (q ! 1),
                         Kout_rate \<mapsto> VInt (q ! 2), Kout_burst \<mapsto> VInt (q ! 3))
                 else ev)
      in case ev1 Ktype of None \<Rightarrow> ev1(Ktype \<mapsto> VInt EVENT_SESS_CHANGE) | Some _ \<Rightarrow> ev1)"

definition service_change :: "config \<Rightarrow> string \<Rightarrow> string \<Rightarrow> int list \<Rightarrow> evdict
    \<Rightarrow> (string, string) odict \<times> bytes option \<Rightarrow> (evdict \<times> string option) res" where
  "service_change cfg cmd svc_name rate_info ev found =
     (case snd found of
        None \<Rightarrow> Inr (ev, Some ''Session-Context-Not-Found'')
      | Some svc_sid \<Rightarrow>
          let flags_op = (if cmd = ''activate-service'' then FLAG_OP_SET else FLAG_OP_UNSET);
              srv_list = sanitize cfg
                (AList.update svc_name (if flags_op = FLAG_OP_SET then ''A'' else ''N'') (fst found))
          in if flags_op = FLAG_OP_SET \<and> map_of srv_list svc_name = Some ''N'' then Inr (ev, None)
             else bindE (build_event cfg svc_name) (\<lambda>ev1.
               Inr (with_coa_rates rate_info (ev1(Ksession_id \<mapsto> VBytes svc_sid,
                      Kflags \<mapsto> VInt (IS_SERVICE OR SERVICE_STATUS_ON), Kflags_op \<mapsto> VInt flags_op)), None)))"

definition serv_getlist :: evdict where
  "serv_getlist = [Ktype \<mapsto> VInt EVENT_SERV_GETLIST]"

definition parse_coa_change :: "config \<Rightarrow> rad_packet \<Rightarrow> evdict \<Rightarrow> (evdict \<times> string option) nl" where
  "parse_coa_change cfg pkt ev =
     nl_bind (nl_lift (attr_list pkt ''Cisco-Account-Info'')) (\<lambda>ais.
     nl_bind (nl_lift (attr_list pkt ''Cisco-AVPair'')) (\<lambda>aps.
       let rate_info = last_rate (map rad_str ais);
           av = avpairs (map rad_str aps);
           cmd = (case map_of av ''command'' of None \<Rightarrow> [] | Some c \<Rightarrow> c)
       in if is_service_command cmd then
            (case map_of av ''service-name'' of
               None \<Rightarrow> nl_return (ev, Some ''Missing-Attribute'')
             | Some svc_name \<Rightarrow>
                 nl_bind (nl_catch (nl_bind (get_list serv_getlist)
                            (\<lambda>(evs, _). nl_return (scan_services svc_name evs ([], None))))
                          (\<lambda>e. if is_oserror e then nl_return ([], None) else nl_lift (Inl e)))
                   (\<lambda>found. nl_lift (service_change cfg cmd svc_name rate_info ev found)))
          else if cmd \<noteq> [] then nl_return (ev, Some ''Unsupported-Attribute'')
          else nl_return (with_coa_rates rate_info ev, None)))"


section \<open>Handling a packet\<close>

definition nas_mismatch :: "string \<Rightarrow> string \<Rightarrow> rad_value option \<Rightarrow> rad_value option \<Rightarrow> bool" where
  "nas_mismatch nas_id nas_ip ident ipaddr \<longleftrightarrow>
     (ident = None \<and> ipaddr = None)
     \<or> (case ident of None \<Rightarrow> False | Some v \<Rightarrow> nas_id \<noteq> rad_str v)
     \<or> (case ipaddr of None \<Rightarrow> False | Some v \<Rightarrow> nas_ip \<noteq> rad_str v)"

definition opt_true :: "rad_value option \<Rightarrow> bool" where
  "opt_true v = (case v of None \<Rightarrow> False | Some x \<Rightarrow> rad_true x)"

text \<open>The key of the addressed session, \<^term>\<open>None\<close> when the request names none.\<close>

definition target_key :: "rad_value option \<Rightarrow> rad_value option \<Rightarrow> rad_value option \<Rightarrow> evdict option res" where
  "target_key session_id nas_port username0 =
     (let username = (if opt_true username0 \<and> \<not> re_quad (rad_str (the username0)) then None else username0)
      in if opt_true session_id
         then Inr (Some [Ksession_id \<mapsto> VBytes (session_id_to_bytes (rad_str (the session_id)))])
         else case nas_port of
           Some v \<Rightarrow> bindE (rad_int v) (\<lambda>n. Inr (Some [Kport_number \<mapsto> VInt n]))
         | None \<Rightarrow>
             if opt_true username
             then bindE (ip2long (rad_str (the username))) (\<lambda>n. Inr (Some [Kipaddr \<mapsto> VInt n]))
             else Inr None)"

definition command :: "string \<Rightarrow> string \<Rightarrow> evdict \<Rightarrow> (string \<times> string option) nl" where
  "command ack nak ev =
     nl_catch
       (nl_bind (send_event ev) (\<lambda>rep.
          nl_return (if e_type rep = EVENT_KERNEL_ACK then (ack, None)
                     else (nak, Some ''Session-Context-Not-Found''))))
       (\<lambda>e. if is_oserror e then nl_return (nak, Some ''Session-Context-Not-Found'') else nl_lift (Inl e))"

definition process_request :: "config \<Rightarrow> string \<Rightarrow> string \<Rightarrow> rad_packet \<Rightarrow> bool \<Rightarrow> string \<Rightarrow> string
    \<Rightarrow> (string \<times> string option) nl" where
  "process_request cfg nas_ip nas_id pkt disconnect ack nak =
     nl_bind (nl_lift (attr_get pkt ''NAS-Identifier'')) (\<lambda>ident.
     nl_bind (nl_lift (attr_get pkt ''NAS-IP-Address'')) (\<lambda>ipaddr.
       if nas_mismatch nas_id nas_ip ident ipaddr
       then nl_return (nak, Some ''NAS-Identification-Mismatch'')
       else
         nl_bind (nl_lift (attr_get pkt ''Acct-Session-Id'')) (\<lambda>session_id.
         nl_bind (nl_lift (attr_get pkt ''NAS-Port'')) (\<lambda>nas_port.
         nl_bind (nl_lift (attr_get pkt ''User-Name'')) (\<lambda>username.
         nl_bind (nl_lift (target_key session_id nas_port username)) (\<lambda>target.
           case target of
             None \<Rightarrow> nl_return (nak, Some ''Missing-Attribute'')
           | Some ev \<Rightarrow>
               nl_bind (if disconnect then nl_return (ev(Ktype \<mapsto> VInt EVENT_SESS_CLEAR), None)
                        else parse_coa_change cfg pkt ev) (\<lambda>(ev1, err).
                 case err of
                   Some e \<Rightarrow> nl_return (nak, Some e)
                 | None \<Rightarrow> command ack nak ev1)))))))"

definition denied_peer :: "config \<Rightarrow> string \<Rightarrow> bool" where
  "denied_peer cfg peer_ip = (case c_coa_server cfg of None \<Rightarrow> False | Some s \<Rightarrow> s \<noteq> [] \<and> peer_ip \<noteq> s)"

definition handle_packet :: "(bytes \<Rightarrow> bytes \<Rightarrow> rad_packet res) \<Rightarrow> config \<Rightarrow> string \<Rightarrow> string
    \<Rightarrow> bytes \<Rightarrow> string \<Rightarrow> bytes option nl" where
  "handle_packet parse cfg nas_ip nas_id data peer_ip =
     (let secret = c_coa_secret cfg in
      if denied_peer cfg peer_ip then nl_return None
      else if \<not> verify_coa_auth data secret then nl_return None
      else case parse secret data of
        Inl e \<Rightarrow> if is_exception e then nl_return None else nl_lift (Inl e)
      | Inr pkt \<Rightarrow>
          let answer = (\<lambda>disconnect ack nak.
                nl_bind (process_request cfg nas_ip nas_id pkt disconnect ack nak) (\<lambda>(out_code, out_err).
                nl_bind (nl_lift (coa_reply (pk_id pkt) (pk_authenticator pkt) out_code out_err secret))
                  (\<lambda>m. nl_return (Some m))))
          in if NAMES (pk_code pkt) = ''Disconnect-Request'' then answer True ''Disconnect-ACK'' ''Disconnect-NAK''
             else if NAMES (pk_code pkt) = ''CoA-Request'' then answer False ''CoA-ACK'' ''CoA-NAK''
             else nl_return None)"

text \<open>
  The receive loop: the outcomes of \<^verbatim>\<open>recvfrom\<close> until the stop event; the result are the replies.
  Whatever escapes from a packet ends the loop, and with it the thread.
\<close>

datatype coa_recv = CTimeout | CError | CPacket bytes string

fun coa_loop :: "(bytes \<Rightarrow> bytes \<Rightarrow> rad_packet res) \<Rightarrow> config \<Rightarrow> string \<Rightarrow> string \<Rightarrow> coa_recv list
    \<Rightarrow> bytes list \<Rightarrow> bytes list nl" where
  "coa_loop parse cfg nas_ip nas_id [] sent = nl_return sent"
| "coa_loop parse cfg nas_ip nas_id (CTimeout # q) sent = coa_loop parse cfg nas_ip nas_id q sent"
| "coa_loop parse cfg nas_ip nas_id (CError # q) sent = coa_loop parse cfg nas_ip nas_id q sent"
| "coa_loop parse cfg nas_ip nas_id (CPacket data peer # q) sent =
     nl_bind (handle_packet parse cfg nas_ip nas_id data peer) (\<lambda>r.
       coa_loop parse cfg nas_ip nas_id q (case r of None \<Rightarrow> sent | Some m \<Rightarrow> sent @ [m]))"

text \<open>\<^verbatim>\<open>CoAServer.run\<close>; \<open>created\<close> is the outcome of making and binding the UDP socket.\<close>

definition coa_run :: "unit res \<Rightarrow> (bytes \<Rightarrow> bytes \<Rightarrow> rad_packet res) \<Rightarrow> config \<Rightarrow> string \<Rightarrow> string \<Rightarrow> coa_recv list \<Rightarrow> bytes list nl" where
  "coa_run created parse cfg nas_ip nas_id recvs =
     (case created of
        Inl e \<Rightarrow> if is_oserror e then nl_return [] else nl_lift (Inl e)
      | Inr _ \<Rightarrow> coa_loop parse cfg nas_ip nas_id recvs [])"


lemma consumes_parse_coa_change [consume_rules]: "consumes (parse_coa_change cfg pkt ev)"
  unfolding parse_coa_change_def Let_def
  by (intro consume_rules) (auto split: option.splits prod.splits intro!: consume_rules)


section \<open>The kernel's answer decides\<close>

text \<open>
  \<open>acked s s'\<close>: the last datagram read between the two states is a kernel acknowledgement, and the
  last message sent is the one it answers.
\<close>

definition acked :: "nlsock \<Rightarrow> nlsock \<Rightarrow> bool" where
  "acked s s' \<longleftrightarrow> (\<exists>q d rep ev m. sk_recvs s = q @ RData d # sk_recvs s'
     \<and> parse_event (take 16384 d) = Inr rep \<and> e_type rep = EVENT_KERNEL_ACK
     \<and> frame (sk_portid s') ev = Inr m \<and> sk_sent s' \<noteq> [] \<and> last (sk_sent s') = m)"

lemma acked_later: "sk_recvs s = q @ sk_recvs t \<Longrightarrow> acked t s' \<Longrightarrow> acked s s'"
  unfolding acked_def by fastforce

lemma command_ack:
  assumes "command ack nak ev s = (Inr (ack, err), s')" "ack \<noteq> nak"
  shows "acked s s'"
proof -
  from assms obtain rep where ev: "send_event ev s = (Inr rep, s')" and rep: "e_type rep = EVENT_KERNEL_ACK"
    by (auto simp: command_def nl_catch_def nl_bind_def nl_return_def nl_lift_def split: prod.splits sum.splits if_splits)
  from ev obtain s1 where s1: "send_only ev s = (Inr (), s1)"
    and r: "nl_bind (nl_recv 16384) (\<lambda>data. nl_lift (parse_event data)) s1 = (Inr rep, s')"
    by (auto simp: send_event_def nl_bind_def split: prod.splits sum.splits)
  from s1 obtain m where m: "frame (sk_portid s) ev = Inr m" "sk_sent s1 = sk_sent s @ [m]" "sk_portid s1 = sk_portid s"
    "sk_recvs s1 = sk_recvs s" by (rule send_only_Inr)
  from r obtain d where "sk_recvs s1 = RData d # sk_recvs s'" "parse_event (take 16384 d) = Inr rep"
    "sk_sent s' = sk_sent s1" "sk_portid s' = sk_portid s1"
    by (auto simp: nl_bind_def nl_lift_def nl_recv.simps sk_portid_def split: list.splits recv_outcome.splits)
  with m rep show ?thesis
    unfolding acked_def
    by (rule_tac exI [of _ "[]"], rule_tac exI [of _ d], rule_tac exI [of _ rep], rule_tac exI [of _ ev], rule_tac exI [of _ m]) simp
qed

lemma process_ack:
  assumes "process_request cfg nas_ip nas_id pkt disc ack nak s = (Inr (ack, err), s')" "ack \<noteq> nak"
  shows "acked s s'"
proof -
  from assms obtain ev1 ev t where
    chg: "(if disc then nl_return (ev(Ktype \<mapsto> VInt EVENT_SESS_CLEAR), None) else parse_coa_change cfg pkt ev) s
      = (Inr (ev1, None), t)"
    and cmd: "command ack nak ev1 t = (Inr (ack, err), s')"
    unfolding process_request_def
    by (auto elim!: bind_Inr simp: lift_Inr return_eq split: if_splits option.splits prod.splits)
  have "consumes (if disc then nl_return (ev(Ktype \<mapsto> VInt EVENT_SESS_CLEAR), None) else parse_coa_change cfg pkt ev)"
    by (auto intro: consume_rules)
  then obtain q where "sk_recvs s = q @ sk_recvs t" unfolding consumes_def using chg by (metis snd_conv)
  then show ?thesis using command_ack [OF cmd assms(2)] by (rule acked_later)
qed

lemma CODES_values:
  "CODES ''Disconnect-ACK'' = 41" "CODES ''Disconnect-NAK'' = 42" "CODES ''CoA-ACK'' = 44" "CODES ''CoA-NAK'' = 45"
  by (simp_all add: CODES_def code_names_def)

lemma NAMES_values:
  "NAMES c = ''Disconnect-Request'' \<longleftrightarrow> c = 40" "NAMES c = ''CoA-Request'' \<longleftrightarrow> c = 43"
  by (simp_all add: NAMES_def code_names_def)

lemma coa_reply_Inr:
  assumes "coa_reply rid auth code err secret = Inr m"
  shows "length m = 20 + length (error_attr err) \<and> hd m = word_of_int (CODES code) \<and> 0 \<le> rid \<and> rid < 256
    \<and> m ! 1 = word_of_int rid \<and> be_val (pyslice 2 4 m) = int (length m) \<and> drop 20 m = error_attr err
    \<and> pyslice 4 20 m = md5 (take 4 m @ auth @ drop 20 m @ secret)"
proof -
  have l: "length (error_attr err) < 7"
    by (auto simp: error_attr_def Let_def split: option.split)
  from assms obtain h where h: "h = [word_of_int (CODES code), word_of_int rid] @ be_bytes 2 (20 + int (length (error_attr err)))"
    and m: "m = h @ md5 (h @ auth @ error_attr err @ secret) @ error_attr err" and rid: "0 \<le> rid" "rid < 256"
    by (auto simp: coa_reply_def Let_def bindE_eq_Inr concatE_eq_Inr one_byte_def pack_be_eq_Inr split: if_splits)
  have "length h = 4" by (simp add: h)
  then have "take 4 m = h" "drop 20 m = error_attr err" "pyslice 4 20 m = md5 (h @ auth @ error_attr err @ secret)"
    "pyslice 2 4 m = pyslice 2 4 h" "length m = 20 + length (error_attr err)"
    by (simp_all add: m pyslice_def)
  moreover have "be_val (pyslice 2 4 h) = 20 + int (length (error_attr err))"
    using l by (simp add: h pyslice_def be_val_be_bytes)
  ultimately show ?thesis using rid m h by simp
qed

lemma handle_packet_reply:
  assumes "handle_packet parse cfg nas_ip nas_id data peer s = (Inr (Some m), s')"
  obtains pkt disc ack nak code err where "\<not> denied_peer cfg peer" "verify_coa_auth data (c_coa_secret cfg)"
    "parse (c_coa_secret cfg) data = Inr pkt"
    "process_request cfg nas_ip nas_id pkt disc ack nak s = (Inr (code, err), s')"
    "coa_reply (pk_id pkt) (pk_authenticator pkt) code err (c_coa_secret cfg) = Inr m"
    "disc \<and> pk_code pkt = 40 \<and> ack = ''Disconnect-ACK'' \<and> nak = ''Disconnect-NAK''
     \<or> \<not> disc \<and> pk_code pkt = 43 \<and> ack = ''CoA-ACK'' \<and> nak = ''CoA-NAK''"
  using assms unfolding handle_packet_def Let_def
  by (auto elim!: bind_Inr simp: lift_Inr return_eq NAMES_values split: if_splits sum.splits prod.splits)

lemma command_codes: "command ack nak ev s = (Inr (code, err), s') \<Longrightarrow> code = ack \<or> code = nak"
  by (auto simp: command_def nl_catch_def nl_bind_def nl_return_def nl_lift_def split: prod.splits sum.splits if_splits)

lemma process_codes:
  "process_request cfg nas_ip nas_id pkt disc ack nak s = (Inr (code, err), s') \<Longrightarrow> code = ack \<or> code = nak"
  unfolding process_request_def
  by (auto elim!: bind_Inr dest!: command_codes simp: lift_Inr return_eq split: if_splits option.splits prod.splits)


section \<open>Properties of the CoA server\<close>

text \<open>
  RFC 5176: a request is signed when its 16 authenticator octets, after a header of four, are the MD5 of
  the packet with these octets zero, followed by the secret.
\<close>

definition signed_by :: "bytes \<Rightarrow> bytes \<Rightarrow> bool" where
  "signed_by secret data \<longleftrightarrow>
     (\<exists>hdr attrs. length hdr = 4 \<and> data = hdr @ md5 (hdr @ zeros 16 @ attrs @ secret) @ attrs)"

definition genuine :: "config \<Rightarrow> coa_recv \<Rightarrow> bool" where
  "genuine cfg r = (case r of
     CPacket data peer \<Rightarrow> c_coa_server cfg \<in> {None, Some [], Some peer} \<and> signed_by (c_coa_secret cfg) data
   | _ \<Rightarrow> False)"

lemma verify_signed: "verify_coa_auth data secret \<longleftrightarrow> signed_by secret data"
proof
  assume v: "verify_coa_auth data secret"
  then have l: "20 \<le> length data" by (auto simp: verify_coa_auth_def split: if_splits)
  have parts: "data = take 4 data @ pyslice 4 20 data @ drop 20 data"
    using append_take_drop_id [of 4 data] append_take_drop_id [of 16 "drop 4 data"] by (simp add: pyslice_def)
  from v l have "pyslice 4 20 data = md5 (take 4 data @ zeros 16 @ drop 20 data @ secret)" by (simp add: verify_coa_auth_def)
  with parts l have "length (take 4 data) = 4 \<and> data = take 4 data @ md5 (take 4 data @ zeros 16 @ drop 20 data @ secret) @ drop 20 data"
    by simp
  then show "signed_by secret data" unfolding signed_by_def by blast
next
  assume "signed_by secret data"
  then obtain hdr attrs where "length hdr = 4" "data = hdr @ md5 (hdr @ zeros 16 @ attrs @ secret) @ attrs"
    by (auto simp: signed_by_def)
  then show "verify_coa_auth data secret" by (simp add: verify_coa_auth_def pyslice_def)
qed

lemma genuine_nothing [simp]: "\<not> genuine cfg CTimeout" "\<not> genuine cfg CError"
  by (simp_all add: genuine_def)

lemma handle_packet_forged:
  "\<not> genuine cfg (CPacket data peer) \<Longrightarrow> handle_packet parse cfg nas_ip nas_id data peer = nl_return None"
  by (auto simp: handle_packet_def genuine_def verify_signed denied_peer_def Let_def split: option.splits)

text \<open>
  C7: forged packets do not interfere: whatever arrives, in any order, the receive loop sends the same
  messages to the kernel and the same replies as if only the genuine requests had arrived, those from the
  configured peer whose authenticator is the MD5 of the request under the shared secret.
\<close>
theorem coa_unauthenticated_ignored:
  "coa_loop parse cfg nas_ip nas_id q sent = coa_loop parse cfg nas_ip nas_id (filter (genuine cfg) q) sent"
proof (induction q arbitrary: sent)
  case (Cons r q)
  show ?case
  proof (cases r)
    case (CPacket data peer)
    with Cons show ?thesis by (cases "genuine cfg r") (simp_all add: handle_packet_forged nl_bind_return)
  qed (simp_all add: Cons)
qed simp


text \<open>
  Every reply is well-formed and authentic: its length field is its length, it echoes the
  identifier of the request, its code answers the kind of the request, and its authenticator is the
  MD5 of the reply with the request's authenticator and the shared secret.
\<close>
theorem coa_reply_authentic:
  assumes "handle_packet parse cfg nas_ip nas_id data peer s = (Inr (Some m), s')"
  shows "\<exists>pkt. parse (c_coa_secret cfg) data = Inr pkt \<and> be_val (pyslice 2 4 m) = int (length m)
    \<and> uint (m ! 1) = pk_id pkt
    \<and> (pk_code pkt = 40 \<and> hd m \<in> {41, 42} \<or> pk_code pkt = 43 \<and> hd m \<in> {44, 45})
    \<and> pyslice 4 20 m = md5 (take 4 m @ pk_authenticator pkt @ drop 20 m @ c_coa_secret cfg)"
proof -
  from assms obtain pkt disc ack nak code err where pkt: "parse (c_coa_secret cfg) data = Inr pkt"
    and p: "process_request cfg nas_ip nas_id pkt disc ack nak s = (Inr (code, err), s')"
    and m: "coa_reply (pk_id pkt) (pk_authenticator pkt) code err (c_coa_secret cfg) = Inr m"
    and k: "disc \<and> pk_code pkt = 40 \<and> ack = ''Disconnect-ACK'' \<and> nak = ''Disconnect-NAK''
     \<or> \<not> disc \<and> pk_code pkt = 43 \<and> ack = ''CoA-ACK'' \<and> nak = ''CoA-NAK''"
    by (rule handle_packet_reply)
  note r = coa_reply_Inr [OF m]
  have "uint (m ! 1) = pk_id pkt" using r by (simp add: uint_byte_of_int)
  moreover have "pk_code pkt = 40 \<and> hd m \<in> {41, 42} \<or> pk_code pkt = 43 \<and> hd m \<in> {44, 45}"
    using process_codes [OF p] k r by (auto simp: CODES_values)
  ultimately show ?thesis using pkt r by (intro exI [of _ pkt]) simp
qed

text \<open>The events a CoA request can lead to.\<close>

definition coa_event :: "evdict \<Rightarrow> bool" where
  "coa_event ev \<longleftrightarrow> ev_type (blank ++ ev) \<in>
     {VInt 0, VInt EVENT_SESS_CLEAR, VInt EVENT_SESS_CHANGE, VInt EVENT_SERV_GETLIST}"

lemma coa_event_key: "coa_event [Ksession_id \<mapsto> v]" "coa_event [Kport_number \<mapsto> v]" "coa_event [Kipaddr \<mapsto> v]"
  by (simp_all add: coa_event_def ev_type_def ev_get_def blank_def)

lemma coa_event_clear: "coa_event (ev(Ktype \<mapsto> VInt EVENT_SESS_CLEAR))"
  by (simp add: coa_event_def ev_type_def ev_get_def)

definition untyped :: "evdict \<Rightarrow> bool" where
  "untyped ev \<longleftrightarrow> ev Ktype = None"

lemma target_key_Inr:
  "target_key a b c = Inr (Some ev) \<Longrightarrow> (\<exists>v. ev = [Ksession_id \<mapsto> v] \<or> ev = [Kport_number \<mapsto> v] \<or> ev = [Kipaddr \<mapsto> v])"
  by (auto simp: target_key_def Let_def bindE_eq_Inr split: if_splits option.splits)

lemma with_coa_rates_event: "untyped ev \<Longrightarrow> coa_event (with_coa_rates q ev)"
  by (auto simp: untyped_def with_coa_rates_def coa_event_def ev_type_def ev_get_def Let_def)

lemma service_change_event:
  assumes "service_change cfg cmd n q ev found = Inr (ev1, None)" "coa_event ev" "untyped ev"
  shows "coa_event ev1"
  using assms
  by (auto simp: service_change_def Let_def bindE_eq_Inr build_event_def untyped_def split: option.splits if_splits
      intro!: with_coa_rates_event)

lemma parse_coa_change_sends: "sends coa_event (parse_coa_change cfg pkt ev)"
proof -
  have g: "coa_event serv_getlist" by (simp add: coa_event_def serv_getlist_def ev_type_def ev_get_def)
  show ?thesis
    unfolding parse_coa_change_def Let_def
    by (auto intro!: nl_rules g split: option.splits prod.splits)
qed

lemma parse_coa_change_event:
  assumes "parse_coa_change cfg pkt ev s = (Inr (ev1, None), t)" "coa_event ev" "untyped ev"
  shows "coa_event ev1"
  using assms(1) unfolding parse_coa_change_def
  by (auto elim!: bind_Inr simp: lift_Inr return_eq Let_def with_coa_rates_event [OF assms(3)] split: if_splits option.splits
      dest!: service_change_event [OF _ assms(2,3)])

lemma command_sends: "coa_event ev \<Longrightarrow> sends coa_event (command ack nak ev)"
  unfolding command_def by (auto intro!: nl_rules)

lemma process_sends: "sends coa_event (process_request cfg nas_ip nas_id pkt disc ack nak)"
proof -
  have cmd: "sends coa_event (nl_bind (if disc then nl_return (ev(Ktype \<mapsto> VInt EVENT_SESS_CLEAR), None)
      else parse_coa_change cfg pkt ev) (\<lambda>(ev1, err). case err of Some e \<Rightarrow> nl_return (nak, Some e) | None \<Rightarrow> command ack nak ev1))"
    if "coa_event ev" "untyped ev" for ev
  proof (rule sends_bind_post [where Q = "\<lambda>(ev1, err). err = None \<longrightarrow> coa_event ev1"])
    show "sends coa_event (if disc then nl_return (ev(Ktype \<mapsto> VInt EVENT_SESS_CLEAR), None) else parse_coa_change cfg pkt ev)"
      by (auto intro: nl_rules parse_coa_change_sends)
    show "case x of (ev1, err) \<Rightarrow> err = None \<longrightarrow> coa_event ev1"
      if "(if disc then nl_return (ev(Ktype \<mapsto> VInt EVENT_SESS_CLEAR), None) else parse_coa_change cfg pkt ev) s = (Inr x, t)" for s x t
      using that parse_coa_change_event [OF _ \<open>coa_event ev\<close> \<open>untyped ev\<close>]
      by (cases x) (auto simp: return_eq coa_event_clear split: if_splits)
  qed (auto intro!: nl_rules command_sends split: option.splits)
  have key: "sends coa_event (nl_bind (nl_lift (target_key a b c)) (\<lambda>target. case target of
      None \<Rightarrow> nl_return (nak, Some ''Missing-Attribute'')
    | Some ev \<Rightarrow> nl_bind (if disc then nl_return (ev(Ktype \<mapsto> VInt EVENT_SESS_CLEAR), None)
        else parse_coa_change cfg pkt ev) (\<lambda>(ev1, err). case err of Some e \<Rightarrow> nl_return (nak, Some e) | None \<Rightarrow> command ack nak ev1)))"
    for a b c
  proof (rule sends_bind_post [where Q = "\<lambda>t. \<forall>ev. t = Some ev \<longrightarrow> coa_event ev \<and> untyped ev"])
    show "\<forall>ev. x = Some ev \<longrightarrow> coa_event ev \<and> untyped ev" if "nl_lift (target_key a b c) s = (Inr x, t)" for s x t
      using that target_key_Inr [of a b c] coa_event_key by (fastforce simp: lift_Inr untyped_def)
    show "sends coa_event (case x of None \<Rightarrow> nl_return (nak, Some ''Missing-Attribute'')
      | Some ev \<Rightarrow> nl_bind (if disc then nl_return (ev(Ktype \<mapsto> VInt EVENT_SESS_CLEAR), None)
          else parse_coa_change cfg pkt ev) (\<lambda>(ev1, err). case err of Some e \<Rightarrow> nl_return (nak, Some e) | None \<Rightarrow> command ack nak ev1))"
      if "\<forall>ev. x = Some ev \<longrightarrow> coa_event ev \<and> untyped ev" for x
      using that cmd by (cases x) (auto intro: nl_rules)
  qed (rule sends_lift)
  show ?thesis
    unfolding process_request_def by (intro nl_rules key)
qed

text \<open>
  Whatever a CoA packet contains, the only events it sends to the kernel are the service listing,
  a session change, a session clear and the untyped event of a conflicting activation; it can never
  approve a session or install a service description.
\<close>
theorem coa_sends_only:
  "sends coa_event (handle_packet parse cfg nas_ip nas_id data peer)"
  unfolding handle_packet_def Let_def
  by (auto intro!: nl_rules process_sends split: sum.splits prod.splits)



section \<open>A Disconnect-Request that succeeds\<close>

definition coa_key :: bytes where
  "coa_key = encode ''s''"

definition coa_config :: config where
  "coa_config = (default_config ''d'' ''t'')\<lparr>c_coa_secret := coa_key, c_coa_server := Some ''10.0.0.9''\<rparr>"

definition sample_coa :: bytes where
  "sample_coa = (let h = [40, 9, 0, 20] in h @ md5 (h @ zeros 16 @ coa_key))"

definition coa_packet :: "string \<Rightarrow> rad_packet" where
  "coa_packet user = \<lparr>pk_code = 40, pk_id = 9, pk_authenticator = zeros 16,
     pk_attrs = (\<lambda>n. if n = ''NAS-Identifier'' then Inr [RStr ''nas'']
                     else if n = ''User-Name'' then Inr [RStr user] else Inl KeyError)\<rparr>"

definition ack_msg :: kernel_msg where
  "ack_msg = (sample_msg 0 1)\<lparr>km_event := (sample_out 1)\<lparr>ko_type := word_of_int EVENT_KERNEL_ACK\<rparr>\<rparr>"

definition coa_socket :: nlsock where
  "coa_socket = open_socket 77 1 [] [datagram [ack_msg]]"

lemma sample_coa_verified: "verify_coa_auth sample_coa coa_key"
  by (simp add: verify_coa_auth_def sample_coa_def Let_def pyslice_def)

lemma coa_config_fields: "c_coa_secret coa_config = coa_key" "\<not> denied_peer coa_config ''10.0.0.9''"
  "denied_peer coa_config ''10.0.0.8''"
  by (simp_all add: coa_config_def denied_peer_def)

lemma handle_disconnect:
  assumes "\<not> denied_peer cfg peer" "verify_coa_auth data (c_coa_secret cfg)" "parse (c_coa_secret cfg) data = Inr pkt"
    "pk_code pkt = 40"
  shows "handle_packet parse cfg nas_ip nas_id data peer s =
    nl_bind (process_request cfg nas_ip nas_id pkt True ''Disconnect-ACK'' ''Disconnect-NAK'') (\<lambda>(out_code, out_err).
      nl_bind (nl_lift (coa_reply (pk_id pkt) (pk_authenticator pkt) out_code out_err (c_coa_secret cfg)))
        (\<lambda>m. nl_return (Some m))) s"
  using assms by (simp add: handle_packet_def NAMES_values Let_def)

lemma coa_packet_fields [simp]:
  "pk_code (coa_packet u) = 40" "pk_id (coa_packet u) = 9" "pk_authenticator (coa_packet u) = zeros 16"
  by (simp_all add: coa_packet_def)

lemma coa_command_run:
  "\<exists>s'. command ack nak [Kipaddr \<mapsto> VInt 0x0A000001, Ktype \<mapsto> VInt EVENT_SESS_CLEAR] coa_socket = (Inr (ack, None), s')"
proof -
  let ?ev = "[Kipaddr \<mapsto> VInt 0x0A000001, Ktype \<mapsto> VInt EVENT_SESS_CLEAR]"
  have "\<exists>m. frame 77 ?ev = Inr m"
    by (rule frame_ok) (simp_all add: ev_type_def ev_get_def event_codes session_fits_def blank_def)
  then obtain m where "frame (sk_portid coa_socket) ?ev = Inr m" by (auto simp: coa_socket_def open_socket_def sk_portid_def)
  then have s: "send_only ?ev coa_socket = (Inr (), coa_socket\<lparr>sk_sent := [m]\<rparr>)"
    by (subst send_only_ok) (simp_all add: coa_socket_def open_socket_def)
  have ok: "kernel_msg_ok ack_msg"
    by (simp add: ack_msg_def kernel_msg_ok_def sample_msg_def hdr_ok_def sample_hdr_def kernel_out_ok_def sample_out_def)
  have "length (kernel_msg_bytes ack_msg) = 200"
    using parse_kernel_msg(1) [OF ok] by (simp add: msg_sz_def nl_consts)
  moreover have "e_type (kernel_msg_event ack_msg) = EVENT_KERNEL_ACK"
    by (simp add: kernel_msg_event_def with_hdr_def isg_event.defs nl_event.defs event_of_def ack_msg_def sample_out_def event_codes)
  ultimately show ?thesis
    using s parse_kernel_msg(2) [OF ok]
    by (simp add: command_def send_event_def nl_catch_def nl_bind_def nl_return_def nl_lift_def nl_recv.simps
        coa_socket_def open_socket_def datagram_def)
qed

lemma good_address: "ip2long ''10.0.0.1'' = Inr 0x0A000001" "re_quad ''10.0.0.1''"
proof -
  have "long2ip 0x0A000001 = Inr ''10.0.0.1''" by code_simp
  with ip2long_long2ip [of "0x0A000001"] show "ip2long ''10.0.0.1'' = Inr 0x0A000001" by simp
  show "re_quad ''10.0.0.1''" by code_simp
qed

lemma bad_address: "ip2long ''999.0.0.1'' = Inl OSError" "re_quad ''999.0.0.1''"
proof -
  have "strtoul0 ''999.0.0.1'' = (999, ''.0.0.1'')"
    by (simp add: strtoul0_def dec_val_def digit_val_def is_digit_def)
  then show "ip2long ''999.0.0.1'' = Inl OSError"
    by (simp add: ip2long_def inet_aton_def aton_go.simps [of 3] is_digit_def split: nat.split)
  show "re_quad ''999.0.0.1''" by code_simp
qed

lemma coa_disconnect_run:
  "\<exists>m s'. handle_packet (\<lambda>_ _. Inr (coa_packet ''10.0.0.1'')) coa_config ''10.0.0.2'' ''nas'' sample_coa ''10.0.0.9'' coa_socket
     = (Inr (Some m), s') \<and> hd m = 41"
proof -
  note ip = good_address
  have "process_request coa_config ''10.0.0.2'' ''nas'' (coa_packet ''10.0.0.1'') True ''Disconnect-ACK'' ''Disconnect-NAK'' coa_socket
     = command ''Disconnect-ACK'' ''Disconnect-NAK'' [Kipaddr \<mapsto> VInt 0x0A000001, Ktype \<mapsto> VInt EVENT_SESS_CLEAR] coa_socket"
    by (simp add: process_request_def attr_get_def coa_packet_def nl_bind_def nl_lift_def nl_return_def nas_mismatch_def
        target_key_def opt_true_def ip)
  moreover have "\<exists>m. coa_reply 9 (zeros 16) ''Disconnect-ACK'' None coa_key = Inr m \<and> hd m = 41"
    by (simp add: coa_reply_def CODES_values one_byte_def pack_be_def error_attr_def)
  moreover obtain s' where "command ''Disconnect-ACK'' ''Disconnect-NAK''
      [Kipaddr \<mapsto> VInt 0x0A000001, Ktype \<mapsto> VInt EVENT_SESS_CLEAR] coa_socket = (Inr (''Disconnect-ACK'', None), s')"
    using coa_command_run [of "''Disconnect-ACK''" "''Disconnect-NAK''"] by blast
  ultimately show ?thesis
    by (subst handle_disconnect [where pkt = "coa_packet ''10.0.0.1''"])
      (auto simp: coa_config_fields sample_coa_verified nl_bind_def nl_lift_def nl_return_def)
qed


theorem coa_reply_authentic_witness:
  "\<exists>m. be_val (pyslice 2 4 m) = int (length m) \<and> uint (m ! 1) = 9
    \<and> pyslice 4 20 m = md5 (take 4 m @ zeros 16 @ drop 20 m @ coa_key)"
proof -
  obtain m s' where "handle_packet (\<lambda>_ _. Inr (coa_packet ''10.0.0.1'')) coa_config ''10.0.0.2'' ''nas'' sample_coa ''10.0.0.9'' coa_socket
     = (Inr (Some m), s')" using coa_disconnect_run by blast
  from coa_reply_authentic [OF this] show ?thesis by (auto simp: coa_config_fields)
qed


end
