(* ===== verification/Tc_Conf.thy ===== *)
theory Tc_Conf
  imports Nl_Trace Md5
begin

unbundle bit_operations_syntax

text \<open>
  The traffic classification table of \<^verbatim>\<open>app/src/tc.py\<close>: parsing \<^verbatim>\<open>tc.conf\<close> into prefixes and loading
  them into the kernel. The file is an argument: \<^term>\<open>None\<close> when it does not exist, its content
  otherwise. An exception of \<^verbatim>\<open>ip2long\<close> leaves the function, an invalid line makes it return None.
\<close>

section \<open>Lines\<close>

text \<open>
  \<^verbatim>\<open>str.splitlines()\<close> on the line ends of ASCII text: LF, CR, CR LF, VT, FF and the separators
  1C to 1E.
\<close>

definition is_line_end :: "char \<Rightarrow> bool" where
  "is_line_end c \<longleftrightarrow> (10 \<le> (of_char c :: nat) \<and> (of_char c :: nat) \<le> 13)
     \<or> (28 \<le> (of_char c :: nat) \<and> (of_char c :: nat) \<le> 30)"

fun splitlines_go :: "string \<Rightarrow> string \<Rightarrow> string list" where
  "splitlines_go acc [] = (if acc = [] then [] else [rev acc])"
| "splitlines_go acc [c] = (if is_line_end c then [rev acc] else [rev (c # acc)])"
| "splitlines_go acc (c # d # s) =
     (if c = CHR 0x0D \<and> d = CHR 0x0A then rev acc # splitlines_go [] s
      else if is_line_end c then rev acc # splitlines_go [] (d # s)
      else splitlines_go (c # acc) (d # s))"

definition splitlines :: "string \<Rightarrow> string list" where
  "splitlines s = splitlines_go [] s"

text \<open>
  \<^verbatim>\<open>re.match(r'^([^#\s]\S*)\s+(\S+)/(\d{1,2})$', line)\<close> on a stripped line: a word, blanks, and a word
  whose last slash is followed by one or two digits.
\<close>

definition match_tc_line :: "string \<Rightarrow> (string \<times> string \<times> nat) option" where
  "match_tc_line line =
     (let cls = takeWhile (\<lambda>c. \<not> is_space c) line;
          rest = dropWhile (\<lambda>c. \<not> is_space c) line;
          word = dropWhile is_space rest;
          (net, sep, plen) = rpartition CHR ''/'' word
      in if cls \<noteq> [] \<and> hd cls \<noteq> CHR ''#'' \<and> rest \<noteq> [] \<and> list_all (\<lambda>c. \<not> is_space c) word
            \<and> sep \<noteq> [] \<and> net \<noteq> [] \<and> 1 \<le> length plen \<and> length plen \<le> 2 \<and> list_all is_digit plen
         then Some (cls, net, dec_val plen) else None)"

definition prefix_mask :: "nat \<Rightarrow> int" where
  "prefix_mask plen = (if plen \<noteq> 0 then NOT (push_bit (32 - plen) 1 - 1) AND 0xFFFFFFFF else 0)"


section \<open>Parsing the table\<close>

type_synonym prefixes = "(int \<times> int, string) odict"
type_synonym tc_counts = "(string, int) odict"

definition count_class :: "string \<Rightarrow> tc_counts \<Rightarrow> tc_counts" where
  "count_class cls m = AList.update cls ((case map_of m cls of None \<Rightarrow> 0 | Some n \<Rightarrow> n) + 1) m"

text \<open>
  The loop body: it goes on with the updated state, returns None from the function, or raises. The
  counters are changed as the lines are read, also when a later line is invalid.
\<close>

datatype line_outcome = Go_on prefixes tc_counts | Bad_line | Raise exn

definition tc_line :: "prefixes \<Rightarrow> tc_counts \<Rightarrow> string \<Rightarrow> line_outcome" where
  "tc_line pfx counts raw =
     (let line = strip raw in
      if line = [] \<or> hd line = CHR ''#'' then Go_on pfx counts
      else case match_tc_line line of
        None \<Rightarrow> Bad_line
      | Some (cls, net_str, plen) \<Rightarrow>
          if 32 < plen then Bad_line
          else (case ip2long net_str of
                  Inl e \<Rightarrow> Raise e
                | Inr net_int \<Rightarrow>
                    let mask = prefix_mask plen in
                    if net_int AND NOT mask \<noteq> 0 then Bad_line
                    else if (net_int, mask) \<in> dom (map_of pfx) then Bad_line
                    else Go_on (AList.update (net_int, mask) cls pfx) (count_class cls counts)))"

fun tc_lines :: "prefixes \<Rightarrow> tc_counts \<Rightarrow> string list \<Rightarrow> prefixes option res \<times> tc_counts" where
  "tc_lines pfx counts [] = (Inr (Some pfx), counts)"
| "tc_lines pfx counts (l # ls) =
     (case tc_line pfx counts l of
        Go_on pfx' counts' \<Rightarrow> tc_lines pfx' counts' ls
      | Bad_line \<Rightarrow> (Inr None, counts)
      | Raise e \<Rightarrow> (Inl e, counts))"


section \<open>Loading the kernel\<close>

definition ne_event :: "(int \<times> int) \<times> string \<Rightarrow> evdict" where
  "ne_event entry =
     (let ((net_int, mask_int), cls) = entry in
      [Ktype \<mapsto> VInt EVENT_NE_ADD_QUEUE, Knehash_pfx \<mapsto> VInt net_int, Knehash_mask \<mapsto> VInt mask_int,
       Knehash_tc_name \<mapsto> VStr cls])"

fun add_prefixes :: "prefixes \<Rightarrow> unit nl" where
  "add_prefixes [] = nl_return ()"
| "add_prefixes (e # es) = nl_bind (send_event (ne_event e)) (\<lambda>_. add_prefixes es)"

definition sweep_event :: evdict where "sweep_event = [Ktype \<mapsto> VInt EVENT_NE_SWEEP_QUEUE]"
definition commit_event :: evdict where "commit_event = [Ktype \<mapsto> VInt EVENT_NE_COMMIT]"

definition load_prefixes :: "prefixes \<Rightarrow> unit nl" where
  "load_prefixes pfx =
     nl_bind (send_event sweep_event) (\<lambda>_.
     nl_bind (add_prefixes pfx) (\<lambda>_.
     nl_bind (send_event commit_event) (\<lambda>_. nl_return ())))"

text \<open>
  \<open>collect\<close> is the dictionary the caller passes, \<^term>\<open>None\<close> if it passes none; \<open>sk\<close> is the socket
  \<^verbatim>\<open>open_socket\<close> returns.
\<close>

definition reload :: "bytes option \<Rightarrow> bytes option \<Rightarrow> tc_counts option \<Rightarrow> nlsock
    \<Rightarrow> bytes option res \<times> tc_counts option \<times> nlsock" where
  "reload file prev_md5 collect sk =
     (case file of
        None \<Rightarrow> (Inr None, collect, sk)
      | Some content \<Rightarrow>
          let curr_md5 = md5 content in
          if prev_md5 = Some curr_md5 then (Inr None, collect, sk)
          else
            let (r, counts) = tc_lines [] (case collect of None \<Rightarrow> [] | Some m \<Rightarrow> m) (splitlines (decode_replace content));
                collect' = map_option (\<lambda>_. counts) collect
            in (case r of
                  Inl e \<Rightarrow> (Inl e, collect', sk)
                | Inr None \<Rightarrow> (Inr None, collect', sk)
                | Inr (Some pfx) \<Rightarrow>
                    (case load_prefixes pfx sk of
                       (Inr _, sk') \<Rightarrow> (Inr (Some curr_md5), collect', sk')
                     | (Inl e, sk') \<Rightarrow> (if is_oserror e then Inr None else Inl e, collect', sk'))))"


section \<open>Prefixes\<close>

lemma prefix_mask_eq:
  assumes "plen \<le> 32"
  shows "prefix_mask plen = 2 ^ 32 - 2 ^ (32 - plen)"
proof (cases "plen = 0")
  case False
  have m: "push_bit (32 - plen) 1 - 1 = (mask (32 - plen) :: int)"
    by (simp add: push_bit_eq_mult mask_eq_exp_minus_1)
  have "(0xFFFFFFFF :: int) = mask 32" by (simp add: mask_eq_exp_minus_1)
  then have "prefix_mask plen = mask 32 AND NOT (mask (32 - plen))"
    using False m by (simp add: prefix_mask_def and.commute)
  also have "\<dots> = 2 ^ (32 - plen) * (mask 32 div 2 ^ (32 - plen))" by (rule and_not_mask_eq)
  also have "(mask 32 :: int) div 2 ^ (32 - plen) = 2 ^ plen - 1"
  proof -
    have "(mask 32 :: int) = (2 ^ (32 - plen) - 1) + (2 ^ plen - 1) * 2 ^ (32 - plen)"
      using assms by (simp add: mask_eq_exp_minus_1 algebra_simps flip: power_add)
    moreover have "((2 :: int) ^ (32 - plen) - 1) div 2 ^ (32 - plen) = 0"
      by (rule div_pos_pos_trivial) simp_all
    ultimately show ?thesis by (simp del: mask_eq_exp_minus_1)
  qed
  finally show ?thesis using assms by (simp add: algebra_simps flip: power_add)
qed (simp add: prefix_mask_def)

lemma host_bits_zero:
  assumes "plen \<le> 32" "0 \<le> n" "n < 2 ^ 32"
  shows "n AND NOT (prefix_mask plen) = n mod 2 ^ (32 - plen)"
proof (cases "plen = 0")
  case True
  then show ?thesis using assms by (simp add: prefix_mask_def)
next
  case False
  have "NOT (prefix_mask plen) = mask (32 - plen) OR NOT (mask 32)"
  proof -
    have "push_bit (32 - plen) 1 - 1 = (mask (32 - plen) :: int)"
      by (simp add: push_bit_eq_mult mask_eq_exp_minus_1)
    moreover have "(0xFFFFFFFF :: int) = mask 32" by (simp add: mask_eq_exp_minus_1)
    ultimately show ?thesis using False by (simp add: prefix_mask_def)
  qed
  moreover have "n AND NOT (mask 32) = 0" using assms(2,3) by (simp add: and_not_mask_eq)
  ultimately have "n AND NOT (prefix_mask plen) = n AND mask (32 - plen)"
    by (simp add: bit.conj_disj_distrib)
  then show ?thesis by (simp add: take_bit_eq_mod flip: take_bit_eq_mask)
qed

lemma ip2long_bounds: "ip2long s = Inr n \<Longrightarrow> 0 \<le> n \<and> n < 2 ^ 32"
proof -
  assume "ip2long s = Inr n"
  then obtain b where "inet_aton s = Inr b" "n = be_val b" by (auto simp: ip2long_def bindE_eq_Inr)
  then have "length b = 4" by (auto simp: inet_aton_def split: if_splits option.splits)
  with \<open>n = be_val b\<close> be_val_bounds [of b] show ?thesis by simp
qed

text \<open>A valid entry of the table: a network address without host bits under a contiguous mask.\<close>

definition valid_prefix :: "(int \<times> int) \<Rightarrow> bool" where
  "valid_prefix nm \<longleftrightarrow> (\<exists>plen \<le> 32. snd nm = 2 ^ 32 - 2 ^ (32 - plen) \<and> 0 \<le> fst nm \<and> fst nm < 2 ^ 32
     \<and> 2 ^ (32 - plen) dvd fst nm)"

definition table_ok :: "prefixes \<Rightarrow> bool" where
  "table_ok pfx \<longleftrightarrow> distinct (map fst pfx) \<and> (\<forall>(nm, cls) \<in> set pfx. valid_prefix nm \<and> cls \<noteq> [])"

lemma match_tc_line_class: "match_tc_line l = Some (cls, net, plen) \<Longrightarrow> cls \<noteq> []"
  by (auto simp: match_tc_line_def Let_def split: prod.splits if_splits)

lemma tc_line_Go_on:
  assumes "tc_line pfx counts l = Go_on pfx' counts'"
  obtains (skip) "pfx' = pfx" "counts' = counts"
  | (entry) cls net plen n where "match_tc_line (strip l) = Some (cls, net, plen)" "plen \<le> 32" "ip2long net = Inr n"
      "n AND NOT (prefix_mask plen) = 0" "(n, prefix_mask plen) \<notin> dom (map_of pfx)"
      "pfx' = AList.update (n, prefix_mask plen) cls pfx" "counts' = count_class cls counts"
proof (cases "strip l = [] \<or> hd (strip l) = CHR ''#''")
  case True
  with assms skip show ?thesis by (simp add: tc_line_def)
next
  case False
  with assms obtain cls net plen where m: "match_tc_line (strip l) = Some (cls, net, plen)"
    by (cases "match_tc_line (strip l)") (auto simp: tc_line_def)
  with False assms have p: "plen \<le> 32" by (simp add: tc_line_def split: if_splits)
  with False assms m obtain n where n: "ip2long net = Inr n"
    by (cases "ip2long net") (simp_all add: tc_line_def)
  have "(if n AND NOT (prefix_mask plen) \<noteq> 0 then Bad_line
      else if (n, prefix_mask plen) \<in> dom (map_of pfx) then Bad_line
      else Go_on (AList.update (n, prefix_mask plen) cls pfx) (count_class cls counts)) = Go_on pfx' counts'"
    using assms False m p n by (simp add: tc_line_def Let_def)
  then show ?thesis using entry [OF m p n] by (simp split: if_splits)
qed

lemma tc_line_ok:
  assumes "table_ok pfx" "tc_line pfx counts l = Go_on pfx' counts'"
  shows "table_ok pfx' \<and> ((pfx' = pfx \<and> counts' = counts)
    \<or> (\<exists>nm cls. nm \<notin> set (map fst pfx) \<and> pfx' = pfx @ [(nm, cls)] \<and> counts' = count_class cls counts))"
  using assms(2)
proof (cases rule: tc_line_Go_on)
  case skip
  with assms(1) show ?thesis by simp
next
  case (entry cls net plen n)
  have new: "(n, prefix_mask plen) \<notin> set (map fst pfx)" using entry(5) by (simp add: dom_map_of_conv_image_fst)
  then have pfx': "pfx' = pfx @ [((n, prefix_mask plen), cls)]" using entry(6) by (simp add: update_new)
  have "valid_prefix (n, prefix_mask plen)"
    unfolding valid_prefix_def
    using entry(2,4) ip2long_bounds [OF entry(3)] host_bits_zero [of plen n]
    by (intro exI [of _ plen]) (simp add: prefix_mask_eq mod_eq_0_iff_dvd)
  then have "table_ok pfx'"
    using assms(1) new match_tc_line_class [OF entry(1)] by (simp add: table_ok_def pfx')
  then show ?thesis using new pfx' entry(7) by blast
qed

lemma tc_lines_ok:
  "table_ok pfx \<Longrightarrow> tc_lines pfx counts ls = (Inr (Some pfx'), counts') \<Longrightarrow> table_ok pfx'"
  by (induction ls arbitrary: pfx counts) (auto split: line_outcome.splits dest: tc_line_ok)

text \<open>The counters are the sizes of the classes.\<close>

definition class_size :: "prefixes \<Rightarrow> string \<Rightarrow> int" where
  "class_size pfx cls = int (length (filter (\<lambda>e. snd e = cls) pfx))"

definition counts_ok :: "prefixes \<Rightarrow> tc_counts \<Rightarrow> bool" where
  "counts_ok pfx counts \<longleftrightarrow>
     (\<forall>cls. map_of counts cls = (if class_size pfx cls = 0 then None else Some (class_size pfx cls)))"

lemma counts_ok_new: "counts_ok pfx counts \<Longrightarrow> counts_ok (pfx @ [(nm, cls)]) (count_class cls counts)"
  by (auto simp: counts_ok_def count_class_def class_size_def update_conv')

lemma tc_lines_counts:
  "table_ok pfx \<Longrightarrow> counts_ok pfx counts \<Longrightarrow> tc_lines pfx counts ls = (Inr (Some pfx'), counts') \<Longrightarrow> counts_ok pfx' counts'"
proof (induction ls arbitrary: pfx counts)
  case (Cons l ls)
  then obtain p c where g: "tc_line pfx counts l = Go_on p c" and r: "tc_lines p c ls = (Inr (Some pfx'), counts')"
    by (auto split: line_outcome.splits)
  from tc_line_ok [OF Cons.prems(1) g] counts_ok_new Cons.prems(2) have "table_ok p" "counts_ok p c" by auto
  from Cons.IH [OF this r] show ?case .
qed simp


section \<open>Loading\<close>

text \<open>The events of a load, in order; every one of them waits for the kernel's answer.\<close>

definition load_events :: "prefixes \<Rightarrow> evdict list" where
  "load_events pfx = [sweep_event] @ map ne_event pfx @ [commit_event]"

lemma add_prefixes_ask: "add_prefixes pfx = ask_all (map ne_event pfx)"
  by (induction pfx) auto

lemma load_prefixes_ask: "load_prefixes pfx = ask_all (load_events pfx)"
  by (simp add: load_prefixes_def load_events_def add_prefixes_ask ask_all_append)


lemma load_prefixes_trace:
  assumes "load_prefixes pfx sk = (r, sk')"
  shows "sk_sent sk' = sk_sent sk @ new_messages sk sk' \<and> frames_prefix (sk_portid sk) (load_events pfx) (new_messages sk sk')
    \<and> (r = Inr () \<longrightarrow> length (new_messages sk sk') = length (load_events pfx))"
proof -
  from ask_all_prefix [of "load_events pfx" sk] assms obtain ms where "sk_sent sk' = sk_sent sk @ ms"
    "frames_prefix (sk_portid sk) (load_events pfx) ms" "r = Inr () \<longrightarrow> length ms = length (load_events pfx)"
    by (auto simp: load_prefixes_ask)
  then show ?thesis using new_messages_eq [of sk' sk ms] by simp
qed

lemma reload_cases:
  assumes "reload file prev_md5 collect sk = (r, collect', sk')"
  obtains (idle) "sk' = sk" "\<And>d. r \<noteq> Inr (Some d)"
  | (load) content pfx counts u where "file = Some content" "prev_md5 \<noteq> Some (md5 content)"
      "tc_lines [] (case collect of None \<Rightarrow> [] | Some m \<Rightarrow> m) (splitlines (decode_replace content)) = (Inr (Some pfx), counts)"
      "load_prefixes pfx sk = (u, sk')" "\<And>d. r = Inr (Some d) \<Longrightarrow> u = Inr () \<and> d = md5 content"
proof (cases "file")
  case None
  with assms idle show ?thesis by (auto simp: reload_def)
next
  case (Some content)
  show ?thesis
  proof (cases "prev_md5 = Some (md5 content)")
    case True
    with assms Some idle show ?thesis by (auto simp: reload_def)
  next
    case False
    obtain t counts where t: "tc_lines [] (case collect of None \<Rightarrow> [] | Some m \<Rightarrow> m) (splitlines (decode_replace content)) = (t, counts)"
      by fastforce
    show ?thesis
    proof (cases "\<exists>pfx. t = Inr (Some pfx)")
      case False
      then have "sk' = sk" "\<And>d. r \<noteq> Inr (Some d)"
        using assms Some \<open>prev_md5 \<noteq> Some (md5 content)\<close> t
        by (auto simp: reload_def Let_def split: sum.splits option.splits)
      then show ?thesis by (rule idle)
    next
      case True
      then obtain pfx where pfx: "t = Inr (Some pfx)" by blast
      obtain u s1 where u: "load_prefixes pfx sk = (u, s1)" by fastforce
      have "sk' = s1" "\<And>d. r = Inr (Some d) \<Longrightarrow> u = Inr () \<and> d = md5 content"
        using assms Some \<open>prev_md5 \<noteq> Some (md5 content)\<close> t pfx u
        by (auto simp: reload_def Let_def split: sum.splits if_splits)
      with load Some \<open>prev_md5 \<noteq> Some (md5 content)\<close> t pfx u show ?thesis by blast
    qed
  qed
qed

section \<open>Properties of the classification table\<close>

text \<open>
  A table is accepted only if every line is a network without host bits under a contiguous mask,
  no network is listed twice, and every entry has a class; the reference counts are the sizes of the
  classes.
\<close>
theorem tc_table_valid:
  assumes "tc_lines [] [] ls = (Inr (Some pfx), counts)"
  shows "table_ok pfx \<and> counts_ok pfx counts"
proof -
  have "table_ok []" "counts_ok [] []" by (simp_all add: table_ok_def counts_ok_def class_size_def)
  with tc_lines_ok tc_lines_counts assms show ?thesis by blast
qed

text \<open>
  C39: the kernel's table is touched only when the whole file is valid and has changed; then a prefix
  of sweep, additions in file order and commit is sent. The digest is returned only if all of them
  were sent and answered, so a failed load is tried again.
\<close>
theorem reload_all_or_nothing:
  assumes "reload file prev_md5 collect sk = (r, collect', sk')"
    and "new_messages sk sk' \<noteq> [] \<or> r = Inr (Some d)"
  shows "\<exists>content pfx. file = Some content \<and> prev_md5 \<noteq> Some (md5 content) \<and> table_ok pfx
    \<and> fst (tc_lines [] (case collect of None \<Rightarrow> [] | Some m \<Rightarrow> m) (splitlines (decode_replace content))) = Inr (Some pfx)
    \<and> frames_prefix (sk_portid sk) (load_events pfx) (new_messages sk sk')
    \<and> (r = Inr (Some d) \<longrightarrow> d = md5 content \<and> length (new_messages sk sk') = length (load_events pfx))"
  using assms(1)
proof (cases rule: reload_cases)
  case idle
  with assms(2) show ?thesis by (simp add: new_messages_def)
next
  case (load content pfx counts u)
  have "table_ok pfx" using tc_lines_ok [OF _ load(3)] by (simp add: table_ok_def)
  moreover note load_prefixes_trace [OF load(4)]
  moreover have "r = Inr (Some d) \<longrightarrow> u = Inr () \<and> d = md5 content" using load(5) [of d] by blast
  ultimately show ?thesis
    using load(1-3) by (intro exI [of _ content] exI [of _ pfx]) simp
qed

text \<open>
  An entry of a valid table can be sent, and the kernel reads in it exactly the network, the mask
  and the class name, padded to its 32 bytes.
\<close>
theorem prefix_reaches_kernel:
  assumes "valid_prefix (net, msk)" "0 \<le> port" "port < 2 ^ 32"
  shows "\<exists>m. frame port (ne_event ((net, msk), cls)) = Inr m \<and> kernel_ne_read (drop 16 m) =
    \<lparr>kn_type = EVENT_NE_ADD_QUEUE, kn_pfx = net, kn_mask = msk, kn_tc_name = take 32 (encode cls @ zeros 32)\<rparr>"
proof -
  let ?ev = "blank ++ ne_event ((net, msk), cls)"
  have fields: "ev_get ?ev Ktype d = VInt EVENT_NE_ADD_QUEUE" "ev_get ?ev Knehash_pfx d = VInt net"
    "ev_get ?ev Knehash_mask d = VInt msk" "ev_get ?ev Knehash_tc_name d = VStr cls" for d
    by (simp_all add: ev_get_def ne_event_def)
  from assms(1) obtain plen where "plen \<le> 32" and msk: "msk = 2 ^ 32 - 2 ^ (32 - plen)" and "0 \<le> net" "net < 2 ^ 32"
    by (auto simp: valid_prefix_def)
  moreover have "(2 :: int) ^ (32 - plen) \<le> 2 ^ 32" by (rule power_increasing) simp_all
  ultimately have fit: "0 \<le> net" "net < 256 ^ 4" "0 \<le> msk" "msk < 256 ^ 4" by simp_all
  have parts: "ne_parts ?ev = [pack_le_val 4 (VInt EVENT_NE_ADD_QUEUE), Inr (zeros 4), pack_be_val 4 (VInt net),
      pack_be_val 4 (VInt msk), pad (VStr cls) 32]"
    by (simp only: ne_parts_def fields)
  have "\<exists>p. concatE (ne_parts ?ev) = Inr p"
    unfolding parts using fit by (simp add: pack_be_def pack_le_def event_codes)
  then obtain p where p: "concatE (ne_parts ?ev) = Inr p" by blast
  then have pk: "pack_event ?ev = Inr p" by (simp add: pack_event_ne_parts fields)
  have len: "length p = 48" "kernel_ne_read p = kernel_ne_of ?ev" using pack_event_ne [OF p] by simp_all
  from pack_nlmsg_ok [OF assms(2,3), of p] len obtain m where "pack_nlmsg p port = Inr m" by auto
  with pk have m: "frame port (ne_event ((net, msk), cls)) = Inr m" by (simp add: frame_def)
  then obtain p' where "pack_event ?ev = Inr p'" "drop 16 m = p'" by (rule frame_Inr)
  with pk have "drop 16 m = p" by simp
  with m len show ?thesis by (simp add: kernel_ne_of_def fields)
qed


section \<open>A small table\<close>

definition sample_tc :: bytes where
  "sample_tc = encode (''# classes'' @ [CHR 0x0A] @ ''world 0.0.0.0/0'' @ [CHR 0x0A] @ ''local  10.0.0.0/8'')"

lemma sample_networks: "ip2long ''0.0.0.0'' = Inr 0" "ip2long ''10.0.0.0'' = Inr 0x0A000000"
proof -
  have "long2ip 0 = Inr ''0.0.0.0''" "long2ip 0x0A000000 = Inr ''10.0.0.0''" by code_simp+
  with ip2long_long2ip [of 0] ip2long_long2ip [of "0x0A000000"]
  show "ip2long ''0.0.0.0'' = Inr 0" "ip2long ''10.0.0.0'' = Inr 0x0A000000" by simp_all
qed

lemma sample_lines:
  "splitlines (decode_replace sample_tc) = [''# classes'', ''world 0.0.0.0/0'', ''local  10.0.0.0/8'']"
  by code_simp

lemma sample_table:
  "tc_lines [] [] (splitlines (decode_replace sample_tc)) =
     (Inr (Some [((0, 0), ''world''), ((0x0A000000, 0xFF000000), ''local'')]), [(''world'', 1), (''local'', 1)])"
proof -
  have st: "strip ''# classes'' = ''# classes''" "strip ''world 0.0.0.0/0'' = ''world 0.0.0.0/0''"
    "strip ''local  10.0.0.0/8'' = ''local  10.0.0.0/8''" by code_simp+
  have m: "match_tc_line ''world 0.0.0.0/0'' = Some (''world'', ''0.0.0.0'', 0)"
    "match_tc_line ''local  10.0.0.0/8'' = Some (''local'', ''10.0.0.0'', 8)" by code_simp+
  have k: "prefix_mask 0 = 0" "prefix_mask 8 = 0xFF000000" by (simp_all add: prefix_mask_eq)
  show ?thesis
    by (simp add: sample_lines tc_line_def st m k sample_networks count_class_def)
qed

theorem tc_table_valid_witness:
  "table_ok [((0, 0), ''world''), ((0x0A000000, 0xFF000000), ''local'')]
    \<and> counts_ok [((0, 0), ''world''), ((0x0A000000, 0xFF000000), ''local'')] [(''world'', 1), (''local'', 1)]"
  by (rule tc_table_valid [OF sample_table])

theorem reload_all_or_nothing_witness:
  "\<exists>content pfx. Some sample_tc = Some content \<and> table_ok pfx
    \<and> frames_prefix 77 (load_events pfx)
        (new_messages (open_socket 77 1 [] []) (snd (snd (reload (Some sample_tc) None None (open_socket 77 1 [] [])))))"
proof -
  let ?sk = "open_socket 77 1 [] []"
  obtain r c sk' where run: "reload (Some sample_tc) None None ?sk = (r, c, sk')" by (cases "reload (Some sample_tc) None None ?sk") auto
  have "\<exists>m. frame 77 sweep_event = Inr m"
    by (rule frame_ok) (simp_all add: sweep_event_def ev_type_def ev_get_def event_codes session_fits_def blank_def)
  then obtain m where m: "frame (sk_portid ?sk) sweep_event = Inr m" by (auto simp: open_socket_def sk_portid_def)
  have "send_only sweep_event ?sk = (Inr (), ?sk\<lparr>sk_sent := [m]\<rparr>)"
    by (subst send_only_ok [OF _ m]) (simp_all add: open_socket_def)
  then have "load_prefixes pfx ?sk = (Inl SocketTimeout, ?sk\<lparr>sk_sent := [m]\<rparr>)" for pfx
    by (simp add: load_prefixes_def send_event_def nl_bind_def nl_recv.simps open_socket_def)
  then have "sk' = ?sk\<lparr>sk_sent := [m]\<rparr>" using run by (simp add: reload_def sample_table)
  then have "new_messages ?sk sk' \<noteq> []" by (simp add: new_messages_def open_socket_def)
  with reload_all_or_nothing [OF run] have "\<exists>content pfx. Some sample_tc = Some content \<and> table_ok pfx
      \<and> frames_prefix (sk_portid ?sk) (load_events pfx) (new_messages ?sk sk')" by blast
  then show ?thesis using run by (simp add: open_socket_def sk_portid_def)
qed

theorem prefix_reaches_kernel_witness:
  "\<exists>m. frame 77 (ne_event ((0x0A000000, 0xFF000000), ''local'')) = Inr m \<and> kn_mask (kernel_ne_read (drop 16 m)) = 0xFF000000"
proof -
  have "valid_prefix (0x0A000000, 0xFF000000)"
    unfolding valid_prefix_def by (rule exI [of _ 8]) simp
  from prefix_reaches_kernel [OF this, of 77 "''local''"] show ?thesis by auto
qed

end
