(* ===== verification/Daemon.thy ===== *)
theory Daemon
  imports Mysql Coa_Server Tc_Conf "HOL-Library.Multiset"
begin

text \<open>
  The daemon of \<^verbatim>\<open>app/ISGd.py\<close>: the pools of backends, the start of the kernel side, the job that
  follows \<^verbatim>\<open>tc.conf\<close> and the shutdown. A backend is a RADIUS or a MySQL backend, so that the session
  server runs on the real pools here.
\<close>

section \<open>Backends of both kinds\<close>

datatype any_backend = RadiusB radius_backend | MySQLB mysql_backend

definition any_open :: "rat \<Rightarrow> any_backend \<Rightarrow> bool \<times> any_backend" where
  "any_open now b = (case b of
       RadiusB rb \<Rightarrow> map_prod id RadiusB (radius_open now rb)
     | MySQLB mb \<Rightarrow> map_prod id MySQLB (mysql_open now mb))"

definition any_authenticate :: "((string, rad_value list) odict \<Rightarrow> bytes) \<Rightarrow> (bytes \<Rightarrow> bytes \<Rightarrow> rad_packet res)
    \<Rightarrow> radius_env \<times> db_row option mysql_env \<Rightarrow> nl_event \<Rightarrow> any_backend \<Rightarrow> auth_result res \<times> any_backend" where
  "any_authenticate encode_attrs parse env ev b = (case b of
       RadiusB rb \<Rightarrow> map_prod id RadiusB (radius_authenticate encode_attrs parse (fst env) ev rb)
     | MySQLB mb \<Rightarrow> map_prod id MySQLB (mysql_authenticate (snd env) ev mb))"

definition any_account :: "(rad_request \<Rightarrow> bytes) \<Rightarrow> radius_env \<times> unit mysql_env \<Rightarrow> nl_event \<Rightarrow> any_backend
    \<Rightarrow> unit res \<times> any_backend" where
  "any_account encode_request env ev b = (case b of
       RadiusB rb \<Rightarrow> map_prod id RadiusB (radius_account encode_request (fst env) ev rb)
     | MySQLB mb \<Rightarrow> map_prod id MySQLB (mysql_account (snd env) ev mb))"

text \<open>\<^verbatim>\<open>close\<close>: only the MySQL backend overrides it; \<open>t\<close> is the thread that calls it.\<close>

definition any_close :: "nat \<Rightarrow> any_backend \<Rightarrow> any_backend" where
  "any_close t b = (case b of RadiusB rb \<Rightarrow> RadiusB rb | MySQLB mb \<Rightarrow> MySQLB (close t mb))"

definition entry_of :: "any_backend \<Rightarrow> server_entry" where
  "entry_of b = (case b of RadiusB rb \<Rightarrow> rb_entry rb | MySQLB mb \<Rightarrow> mb_entry mb)"


section \<open>The pools\<close>

definition make_backend :: "config \<Rightarrow> string \<Rightarrow> string \<Rightarrow> server_entry \<Rightarrow> any_backend option" where
  "make_backend cfg nas_ip nas_id entry =
     (if se_type entry = ''radius'' then Some (RadiusB (new_radius_backend entry nas_ip nas_id))
      else if se_type entry = ''mysql'' then
        if \<not> (se_host entry \<noteq> [] \<or> se_unix_socket entry \<noteq> []) then None
        else Some (MySQLB (new_mysql_backend entry cfg nas_ip nas_id))
      else None)"

definition make_pool :: "config \<Rightarrow> (int, server_entry) odict \<Rightarrow> string \<Rightarrow> string \<Rightarrow> any_backend list" where
  "make_pool cfg section nas_ip nas_id =
     List.map_filter (\<lambda>prio. Option.bind (map_of section prio) (make_backend cfg nas_ip nas_id)) (sort (map fst section))"

record daemon =
  d_cfg :: config
  d_nas_ip :: string
  d_nas_id :: string
  d_auth_pool :: "any_backend list"
  d_acct_pool :: "any_backend list"

definition or_else :: "string option \<Rightarrow> string \<Rightarrow> string" where
  "or_else s d = (case s of None \<Rightarrow> d | Some x \<Rightarrow> if x = [] then d else x)"

text \<open>\<open>host_ip\<close> is the result of \<^verbatim>\<open>isg.get_nas_ip()\<close>, a lookup of the host's own address.\<close>

definition new_daemon :: "config \<Rightarrow> string option \<Rightarrow> daemon" where
  "new_daemon cfg host_ip =
     (let nas_ip = or_else (c_nas_ip cfg) (or_else host_ip ''127.0.0.1'');
          nas_id = or_else (c_nas_identifier cfg) nas_ip
      in \<lparr>d_cfg = cfg, d_nas_ip = nas_ip, d_nas_id = nas_id,
          d_auth_pool = make_pool cfg (c_auth cfg) nas_ip nas_id,
          d_acct_pool = make_pool cfg (c_accounting cfg) nas_ip nas_id\<rparr>)"

text \<open>\<^verbatim>\<open>isg.get_nas_ip\<close>, with the outcome of the lookup, and \<^verbatim>\<open>Daemon.__init__\<close>, which asks only if no address is configured.\<close>

definition get_nas_ip :: "string res \<Rightarrow> string res" where
  "get_nas_ip lookup = (case lookup of Inl e \<Rightarrow> if is_oserror e then Inr [] else Inl e | Inr ip \<Rightarrow> Inr ip)"

definition daemon_init :: "config \<Rightarrow> string res \<Rightarrow> daemon res" where
  "daemon_init cfg lookup =
     (case c_nas_ip cfg of
        Some (c # cs) \<Rightarrow> Inr (new_daemon cfg None)
      | _ \<Rightarrow> bindE (get_nas_ip lookup) (\<lambda>ip. Inr (new_daemon cfg (Some ip))))"


section \<open>Start\<close>

text \<open>
  \<open>pid_file\<close> is what opening and reading the file gives, \<^term>\<open>None\<close> if there is none; \<open>alive\<close> tells for
  which process ids \<^verbatim>\<open>/proc/<pid>/stat\<close> exists.
\<close>

definition check_pid :: "string res option \<Rightarrow> (int \<Rightarrow> bool) \<Rightarrow> unit res" where
  "check_pid pid_file alive =
     (case pid_file of
        None \<Rightarrow> Inr ()
      | Some r \<Rightarrow>
          (case bindE r (\<lambda>s. py_int (strip s)) of
             Inl e \<Rightarrow> if e = ValueError \<or> is_oserror e then Inr () else Inl e
           | Inr pid \<Rightarrow> if alive pid then Inl SystemExit else Inr ()))"

definition class_event :: "string \<Rightarrow> string \<Rightarrow> evdict" where
  "class_event tc_name svc_name =
     [Ktype \<mapsto> VInt EVENT_SDESC_ADD, Knehash_tc_name \<mapsto> VStr tc_name, Kservice_name \<mapsto> VStr svc_name]"

definition sdesc_sweep :: evdict where "sdesc_sweep = [Ktype \<mapsto> VInt EVENT_SDESC_SWEEP_TC]"

fun link_services :: "string \<Rightarrow> (string, service) odict \<Rightarrow> unit nl" where
  "link_services tc_name [] = nl_return ()"
| "link_services tc_name ((svc_name, svc) # rest) =
     (if tc_name \<in> set (s_traffic_classes svc)
      then nl_bind (send_event (class_event tc_name svc_name)) (\<lambda>_. link_services tc_name rest)
      else link_services tc_name rest)"

fun link_classes :: "string list \<Rightarrow> (string, service) odict \<Rightarrow> unit nl" where
  "link_classes [] svcs = nl_return ()"
| "link_classes (tc_name # rest) svcs = nl_bind (link_services tc_name svcs) (\<lambda>_. link_classes rest svcs)"

text \<open>
  \<open>file\<close> is the content of \<^verbatim>\<open>tc.conf\<close>; \<open>sk1\<close> and \<open>sk2\<close> are the sockets that \<^verbatim>\<open>tc.reload\<close> and
  \<^verbatim>\<open>_init_kernel\<close> open.
\<close>

definition init_kernel :: "bytes option \<Rightarrow> nlsock \<Rightarrow> nlsock \<Rightarrow> config \<Rightarrow> unit res \<times> config \<times> nlsock \<times> nlsock" where
  "init_kernel file sk1 sk2 cfg =
     (let cfg1 = prepare_all cfg in
      (case reload file None (Some []) sk1 of
         (Inl e, tc_names, sk1') \<Rightarrow> (Inl e, cfg1, sk1', sk2)
       | (Inr _, tc_names, sk1') \<Rightarrow>
           (case nl_bind (send_event sdesc_sweep) (\<lambda>_. link_classes (map fst (case tc_names of None \<Rightarrow> [] | Some m \<Rightarrow> m)) (c_services cfg1)) sk2 of
              (Inr _, sk2') \<Rightarrow> (Inr (), cfg1, sk1', sk2')
            | (Inl e, sk2') \<Rightarrow> (Inl (if is_oserror e then SystemExit else e), cfg1, sk1', sk2'))))"

text \<open>The start of \<^verbatim>\<open>run\<close>, up to the threads.\<close>

definition daemon_start :: "string res option \<Rightarrow> (int \<Rightarrow> bool) \<Rightarrow> bytes option \<Rightarrow> nlsock \<Rightarrow> nlsock \<Rightarrow> daemon
    \<Rightarrow> unit res \<times> daemon \<times> nlsock \<times> nlsock" where
  "daemon_start pid_file alive file sk1 sk2 d =
     (case check_pid pid_file alive of
        Inl e \<Rightarrow> (Inl e, d, sk1, sk2)
      | Inr _ \<Rightarrow>
          let (r, cfg, sk1', sk2') = init_kernel file sk1 sk2 (d_cfg d) in (r, d\<lparr>d_cfg := cfg\<rparr>, sk1', sk2'))"


section \<open>Jobs\<close>

text \<open>
  \<^verbatim>\<open>job_reload_tc\<close>: each element of \<open>rounds\<close> is one pass of the loop before the stop event is seen,
  with the file it finds and the socket it gets.
\<close>

fun reload_tc_loop :: "(bytes option \<times> nlsock) list \<Rightarrow> bytes option \<Rightarrow> unit res \<times> bytes option \<times> nlsock list" where
  "reload_tc_loop [] prev = (Inr (), prev, [])"
| "reload_tc_loop ((file, sk) # rounds) prev =
     (case reload file prev None sk of
        (Inl e, _, sk') \<Rightarrow> (Inl e, prev, [sk'])
      | (Inr result, _, sk') \<Rightarrow>
          let (r, prev', sks) = reload_tc_loop rounds (case result of None \<Rightarrow> prev | Some d \<Rightarrow> if d \<noteq> [] then Some d else prev)
          in (r, prev', sk' # sks))"

definition job_reload_tc :: "bytes option \<times> nlsock \<Rightarrow> (bytes option \<times> nlsock) list \<Rightarrow> unit res \<times> bytes option \<times> nlsock list" where
  "job_reload_tc first rounds =
     (case reload (fst first) None None (snd first) of
        (Inl e, _, sk') \<Rightarrow> (Inl e, None, [sk'])
      | (Inr prev, _, sk') \<Rightarrow>
          let (r, prev', sks) = reload_tc_loop rounds prev in (r, prev', sk' # sks))"

text \<open>The end of \<^verbatim>\<open>run\<close>: the main thread \<open>t\<close> closes the backends of both pools.\<close>

definition shutdown :: "nat \<Rightarrow> daemon \<Rightarrow> daemon" where
  "shutdown t d = d\<lparr>d_auth_pool := map (any_close t) (d_auth_pool d), d_acct_pool := map (any_close t) (d_acct_pool d)\<rparr>"


section \<open>The contract of a backend holds for both kinds\<close>

interpretation any: backend_iface any_open "any_authenticate encode_attrs parse" "any_account encode_request"
  for encode_attrs parse encode_request
proof
  fix env ev b r b'
  assume "any_authenticate encode_attrs parse env ev b = (Inr r, b')"
  then show "auth_result_wf r"
    by (auto simp: any_authenticate_def map_prod_def intro: rad.auth_wf my.auth_wf split: any_backend.splits prod.splits)
next
  fix env ev b e b'
  assume "any_account encode_request env ev b = (Inl e, b')"
  then show "is_exception e"
    by (auto simp: any_account_def map_prod_def intro: rad.acct_exception my.acct_exception split: any_backend.splits prod.splits)
qed

section \<open>The pools\<close>

text \<open>The usable entries: a RADIUS server, or a database with an address.\<close>

definition usable :: "server_entry \<Rightarrow> bool" where
  "usable e \<longleftrightarrow> se_type e = ''radius'' \<or> se_type e = ''mysql'' \<and> (se_host e \<noteq> [] \<or> se_unix_socket e \<noteq> [])"

lemma make_backend_usable: "make_backend cfg ip nid e = None \<longleftrightarrow> \<not> usable e"
  "make_backend cfg ip nid e = Some b \<Longrightarrow> entry_of b = e" "make_backend cfg ip nid e = Some b \<Longrightarrow> usable e"
  by (auto simp: make_backend_def usable_def entry_of_def new_radius_backend_def new_mysql_backend_def split: if_splits)

lemma map_filter_snoc: "List.map_filter f (xs @ [x]) = List.map_filter f xs @ (case f x of None \<Rightarrow> [] | Some y \<Rightarrow> [y])"
  by (auto simp: List.map_filter_def split: option.splits)

lemma map_filter_entries:
  "\<forall>(p, e) \<in> set ps. map_of section p = Some e \<Longrightarrow>
   map entry_of (List.map_filter (\<lambda>p. Option.bind (map_of section p) (make_backend cfg ip nid)) (map fst ps))
     = filter usable (map snd ps)"
proof (induction ps)
  case (Cons a ps)
  then show ?case
    by (cases a; cases "make_backend cfg ip nid (snd a)")
      (auto simp: List.map_filter_def make_backend_usable)
qed (simp add: List.map_filter_def)

text \<open>
  A pool holds a backend for exactly the usable entries of its section, in ascending order of
  priority, whatever the order of the file; an unusable entry is left out and does not disturb others.
\<close>
theorem pool_in_priority_order:
  assumes "distinct (map fst section)"
  shows "map entry_of (make_pool cfg section nas_ip nas_id) = filter usable (map snd (sort_key fst section))
    \<and> sorted (map fst (sort_key fst section)) \<and> mset (sort_key fst section) = mset section"
proof -
  have "sort (map fst section) = map fst (sort_key fst section)"
    by (rule properties_for_sort) simp_all
  moreover have "\<forall>(p, e) \<in> set (sort_key fst section). map_of section p = Some e" using assms by auto
  ultimately show ?thesis by (simp add: make_pool_def map_filter_entries)
qed

theorem pool_in_priority_order_witness:
  "map entry_of (make_pool (default_config [] []) [(20, default_entry\<lparr>se_server := ''b''\<rparr>), (10, default_entry\<lparr>se_server := ''a''\<rparr>)] [] [])
    = [default_entry\<lparr>se_server := ''a''\<rparr>, default_entry\<lparr>se_server := ''b''\<rparr>]"
proof -
  have "sort_key fst [(20 :: int, default_entry\<lparr>se_server := ''b''\<rparr>), (10, default_entry\<lparr>se_server := ''a''\<rparr>)]
      = [(10, default_entry\<lparr>se_server := ''a''\<rparr>), (20, default_entry\<lparr>se_server := ''b''\<rparr>)]" by simp
  with pool_in_priority_order [of "[(20, default_entry\<lparr>se_server := ''b''\<rparr>), (10, default_entry\<lparr>se_server := ''a''\<rparr>)]" "default_config [] []" "[]" "[]"]
  show ?thesis by (simp add: usable_def default_entry_def)
qed

section \<open>From the answer of a server to the kernel\<close>

text \<open>What a server said for an accepted session: an Access-Accept to this request, or an accepted row.\<close>

definition server_accepts :: "(bytes \<Rightarrow> bytes \<Rightarrow> rad_packet res) \<Rightarrow> radius_env \<times> db_row option mysql_env \<Rightarrow> any_backend \<Rightarrow> bool" where
  "server_accepts parse env b = (case b of
       RadiusB rb \<Rightarrow> \<exists>d reply. re_net (fst env) = UData d \<and> parse (se_secret (rb_entry rb)) (take 4096 d) = Inr reply
         \<and> pk_code reply = 2 \<and> pk_id reply = int (re_counter (fst env) mod 256)
     | MySQLB mb \<Rightarrow> \<exists>a cols. at_run (me_attempts (snd env) a) = Inr (Some cols) \<and> cols \<noteq> [] \<and> row_accepted cols)"

lemma execute_Inr: "execute t q ps envs mb = (Inr r, mb') \<Longrightarrow> \<exists>a. at_run (envs a) = Inr r"
  by (erule execute_cases; erule attempt_cases) auto

lemma any_authenticate_accepts:
  assumes "any_authenticate encode_attrs parse env ev b = (Inr r, b')" "ar_accept r"
  shows "server_accepts parse env b"
proof (cases b)
  case (RadiusB rb)
  with assms obtain rb' where "radius_authenticate encode_attrs parse (fst env) ev rb = (Inr r, rb')"
    by (auto simp: any_authenticate_def map_prod_def split: prod.splits)
  then show ?thesis
    by (rule radius_authenticate_Inr) (use assms(2) RadiusB parse_auth_reply_result(1) in \<open>auto simp: server_accepts_def\<close>)
next
  case (MySQLB mb)
  with assms obtain mb' where "mysql_authenticate (snd env) ev mb = (Inr r, mb')"
    by (auto simp: any_authenticate_def map_prod_def split: prod.splits)
  then show ?thesis
  proof (rule mysql_authenticate_Inr)
    fix ip row mb1
    assume run: "execute (me_thread (snd env)) (query_of Auth_query mb) [(''ip'', RStr ip), (''nas_ip'', RStr (mb_nas_ip mb))]
        (me_attempts (snd env)) mb = (Inr row, mb1)"
      and "(row = None \<or> row = Some []) \<and> r = new_auth_result False \<or> (\<exists>cols. row = Some cols \<and> cols \<noteq> [] \<and> row_to_result cols = Inr r)"
    with assms(2) obtain cols where "row = Some cols" "cols \<noteq> []" "row_accepted cols"
      using row_to_result_accept by (auto simp: new_auth_result_def)
    with execute_Inr [OF run] show ?thesis by (auto simp: server_accepts_def MySQLB)
  qed
qed


text \<open>A rejection of either backend is the plain reject, which leaves only the walled garden.\<close>

lemma any_authenticate_rejects:
  assumes "any_authenticate encode_attrs parse env ev b = (Inr r, b')" "\<not> ar_accept r"
  shows "r = new_auth_result False"
proof (cases b)
  case (RadiusB rb)
  with assms obtain rb' where "radius_authenticate encode_attrs parse (fst env) ev rb = (Inr r, rb')"
    by (auto simp: any_authenticate_def map_prod_def split: prod.splits)
  then obtain reply where "parse_auth_reply reply = Inr r" by (rule radius_authenticate_Inr)
  then show ?thesis using assms(2) by (rule parse_auth_reply_result)
next
  case (MySQLB mb)
  with assms obtain mb' where "mysql_authenticate (snd env) ev mb = (Inr r, mb')"
    by (auto simp: any_authenticate_def map_prod_def split: prod.splits)
  then show ?thesis
    by (rule mysql_authenticate_Inr) (use assms(2) row_to_result_accept in \<open>auto simp: row_to_result_def\<close>)
qed

lemma any_open_accepts: "server_accepts parse env (snd (any_open now b)) \<longleftrightarrow> server_accepts parse env b"
  by (auto simp: server_accepts_def any_open_def radius_open_def mysql_open_def map_prod_def Let_def split: any_backend.splits prod.splits)

lemma auth_loop_origin:
  assumes "fst (auth_loop any_open (any_authenticate encode_attrs parse) ev pool) = Inr (Some r)"
  shows "if ar_accept r then \<exists>(b, now, env) \<in> set pool. server_accepts parse env b else r = new_auth_result False"
  using assms
proof (induction pool)
  case (Cons p pool)
  obtain b now env where p: "p = (b, now, env)" by (cases p)
  obtain opened b1 where o: "any_open now b = (opened, b1)" by fastforce
  have acc: "server_accepts parse env b1 \<longleftrightarrow> server_accepts parse env b" using any_open_accepts [of parse env now b] o by simp
  obtain res b2 where a: "any_authenticate encode_attrs parse env ev b1 = (res, b2)" by fastforce
  show ?case
  proof (cases "opened \<or> res = Inl BackendUnavailable")
    case True
    with Cons show ?thesis by (auto simp: p o a Let_def split: prod.splits if_splits)
  next
    case False
    with Cons.prems have "res = Inr r" by (auto simp: p o a split: sum.splits)
    with a have run: "any_authenticate encode_attrs parse env ev b1 = (Inr r, b2)" by simp
    show ?thesis
    proof (cases "ar_accept r")
      case True
      with any_authenticate_accepts [OF run] acc show ?thesis by (simp add: p)
    next
      case rej: False
      with any_authenticate_rejects [OF run] show ?thesis by simp
    qed
  qed
qed simp

lemma plan_of_reject:
  "plan_config cfg (new_auth_result False) = cfg"
  "plan_services cfg (new_auth_result False) = walled_garden (c_unauth_service_name_list cfg) []"
  by (simp_all add: plan_config_def plan_services_def requested_services_def new_auth_result_def)



definition sample_server :: "any_backend isg_server" where
  "sample_server = new_isg_server gold_config [RadiusB sample_radius] [] auth_socket"

definition sample_envs :: "nat \<Rightarrow> rat \<times> radius_env \<times> db_row option mysql_env" where
  "sample_envs i = (0, sample_env (UData [1]), lost_env (Inr None))"

lemma sample_loop:
  "fst (auth_loop any_open (any_authenticate (\<lambda>_. ma_old) (sample_parse 3)) sample_event (with_env sample_envs (sv_auth_pool sample_server)))
   = Inr (Some reject_result)"
proof -
  obtain rb' where run: "radius_authenticate (\<lambda>_. ma_old) (sample_parse 3) (sample_env (UData [1])) sample_event sample_radius
      = (Inr (new_auth_result False), rb')"
    using radius_run [of 3] by (cases "radius_authenticate (\<lambda>_. ma_old) (sample_parse 3) (sample_env (UData [1])) sample_event sample_radius")
      (simp add: parse_auth_reply_def NAMES_accept)
  have "any_open 0 (RadiusB sample_radius) = (False, RadiusB sample_radius)"
    by (simp add: any_open_def radius_open_def sample_radius_def new_radius_backend_def is_circuit_open_def new_backend_def)
  then show ?thesis
    by (simp add: sample_server_def new_isg_server_def with_env_def sample_envs_def any_authenticate_def run reject_result_def)
qed



section \<open>Start of the kernel side\<close>

definition link_events :: "string list \<Rightarrow> (string, service) odict \<Rightarrow> evdict list" where
  "link_events tcs svcs = concat (map (\<lambda>tc. map (\<lambda>(n, svc). class_event tc n) (filter (\<lambda>(n, svc). tc \<in> set (s_traffic_classes svc)) svcs)) tcs)"

lemma link_services_ask:
  "link_services tc svcs = ask_all (map (\<lambda>(n, svc). class_event tc n) (filter (\<lambda>(n, svc). tc \<in> set (s_traffic_classes svc)) svcs))"
  by (induction tc svcs rule: link_services.induct) simp_all

lemma link_classes_ask: "link_classes tcs svcs = ask_all (link_events tcs svcs)"
  by (induction tcs svcs rule: link_classes.induct) (simp_all add: link_events_def link_services_ask ask_all_append)

definition tc_names :: "bytes option \<Rightarrow> string list" where
  "tc_names file = (case file of None \<Rightarrow> [] | Some content \<Rightarrow> map fst (snd (tc_lines [] [] (splitlines (decode_replace content)))))"

lemma reload_names:
  "reload file None (Some []) sk = (r, names, sk') \<Longrightarrow> map fst (case names of None \<Rightarrow> [] | Some m \<Rightarrow> m) = tc_names file"
  by (auto simp: reload_def tc_names_def Let_def split: option.splits prod.splits sum.splits)

text \<open>
  The start links exactly the prepared services with the classes of the parsed table: after a sweep,
  one description for every class of the file and every service that lists it, in order. If it does not
  get through them all the daemon does not start, and a netlink error ends the process.
\<close>
theorem init_kernel_links:
  assumes "init_kernel file sk1 sk2 cfg = (r, cfg', sk1', sk2')"
  shows "cfg' = prepare_all cfg
    \<and> frames_prefix (sk_portid sk2) (sdesc_sweep # link_events (tc_names file) (c_services cfg')) (new_messages sk2 sk2')
    \<and> (r = Inr () \<longrightarrow> length (new_messages sk2 sk2') = length (sdesc_sweep # link_events (tc_names file) (c_services cfg')))
    \<and> (\<forall>e. r = Inl e \<and> is_oserror e \<longrightarrow> new_messages sk2 sk2' = [])"
proof -
  obtain rr names s1 where rl: "reload file None (Some []) sk1 = (rr, names, s1)" by (metis prod_cases3)
  have cfg': "cfg' = prepare_all cfg" using assms by (auto simp: init_kernel_def rl Let_def split: sum.splits prod.splits)
  show ?thesis
  proof (cases rr)
    case (Inl e)
    with assms have "sk2' = sk2" "r = Inl e" by (auto simp: init_kernel_def rl Let_def)
    with cfg' show ?thesis by (simp add: new_messages_def)
  next
    case (Inr x)
    let ?evs = "sdesc_sweep # link_events (tc_names file) (c_services cfg')"
    obtain u s2 where ask: "ask_all ?evs sk2 = (u, s2)" by fastforce
    with assms Inr reload_names [OF rl] have r: "sk2' = s2" "r = (case u of Inr _ \<Rightarrow> Inr () | Inl e \<Rightarrow> Inl (if is_oserror e then SystemExit else e))"
      by (auto simp: init_kernel_def rl Let_def cfg' link_classes_ask split: sum.splits)
    from ask_all_prefix [of ?evs sk2] ask obtain ms where ms: "sk_sent s2 = sk_sent sk2 @ ms" "frames_prefix (sk_portid sk2) ?evs ms"
      "u = Inr () \<longrightarrow> length ms = length ?evs" by auto
    moreover have "r = Inr () \<longleftrightarrow> u = Inr ()" "\<And>e. r = Inl e \<Longrightarrow> \<not> is_oserror e"
      by (auto simp: r(2) is_oserror_def split: sum.splits if_splits)
    ultimately show ?thesis using cfg' r(1) new_messages_eq [OF ms(1)] by auto
  qed
qed

text \<open>
  A second daemon exits before it touches the kernel or its configuration, and a stale, unreadable
  or malformed pid file does not keep the daemon from starting.
\<close>
theorem second_daemon_exits:
  "daemon_start (Some (Inr s)) alive file sk1 sk2 d =
     (if \<exists>pid. py_int (strip s) = Inr pid \<and> alive pid then (Inl SystemExit, d, sk1, sk2)
      else daemon_start None alive file sk1 sk2 d)"
proof -
  have "e = ValueError" if "py_int t = Inl e" for t e using that by (auto simp: py_int_def Let_def split: if_splits list.splits)
  then show ?thesis by (auto simp: daemon_start_def check_pid_def split: sum.splits)
qed


section \<open>The reload job\<close>

text \<open>The table of \<open>content\<close> went to the kernel entirely.\<close>

definition loaded :: "bytes \<Rightarrow> nlsock \<Rightarrow> nlsock \<Rightarrow> bool" where
  "loaded content sk sk' \<longleftrightarrow> (\<exists>pfx. fst (tc_lines [] [] (splitlines (decode_replace content))) = Inr (Some pfx)
     \<and> length (new_messages sk sk') = length (load_events pfx) \<and> frames_prefix (sk_portid sk) (load_events pfx) (new_messages sk sk'))"

lemma reload_loaded:
  assumes "reload file prev None sk = (Inr (Some d), c, sk')"
  shows "\<exists>content. file = Some content \<and> d = md5 content \<and> prev \<noteq> Some d \<and> loaded content sk sk'"
  using assms
proof (cases rule: reload_cases)
  case (load content pfx counts u)
  then show ?thesis using load_prefixes_trace [OF load(4)] by (auto simp: loaded_def)
qed blast

lemma reload_unchanged: "reload (Some content) (Some (md5 content)) None sk = (Inr None, None, sk)"
  by (simp add: reload_def)

text \<open>
  The job never reloads an unchanged file, and the digest it remembers is always that of a file
  version which it loaded completely: sweep, every entry, commit.
\<close>
theorem reload_job_remembers:
  assumes "reload_tc_loop rounds prev = (r, prev', sks)"
  shows "(prev' = prev \<or> (\<exists>i < length sks. \<exists>content. fst (rounds ! i) = Some content \<and> prev' = Some (md5 content)
        \<and> loaded content (snd (rounds ! i)) (sks ! i)))
    \<and> (\<forall>content. prev = Some (md5 content) \<and> (\<forall>x \<in> set rounds. fst x = Some content) \<longrightarrow> sks = map snd rounds \<and> prev' = prev)"
  using assms
proof (induction rounds prev arbitrary: prev' sks rule: reload_tc_loop.induct)
  case (2 "file" sk rounds prev)
  obtain rr c s1 where rl: "reload file prev None sk = (rr, c, s1)" by (metis prod_cases3)
  have same: "file = Some content \<Longrightarrow> prev = Some (md5 content) \<Longrightarrow> s1 = sk \<and> rr = Inr None" for content
    using rl reload_unchanged by auto
  show ?case
  proof (cases rr)
    case (Inl e)
    with 2(2) rl same show ?thesis by auto
  next
    case (Inr result)
    let ?p = "case result of None \<Rightarrow> prev | Some d \<Rightarrow> if d \<noteq> [] then Some d else prev"
    obtain sks1 where rec: "reload_tc_loop rounds ?p = (r, prev', sks1)" and sks: "sks = s1 # sks1"
      using 2(2) rl Inr by (auto simp: Let_def split: prod.splits)
    note IH = 2(1) [OF rl [symmetric] Inr, OF refl rec]
    have "?p = prev \<or> (\<exists>content. file = Some content \<and> ?p = Some (md5 content) \<and> loaded content sk s1)"
      using rl Inr by (auto split: option.splits dest: reload_loaded)
    then have here: "prev' = ?p \<Longrightarrow> prev' = prev \<or> (\<exists>i < length sks. \<exists>content. fst (((file, sk) # rounds) ! i) = Some content
        \<and> prev' = Some (md5 content) \<and> loaded content (snd (((file, sk) # rounds) ! i)) (sks ! i))"
      unfolding sks by (auto intro!: exI [of _ "0 :: nat"])
    have later: "\<exists>i < length sks1. \<exists>content. fst (rounds ! i) = Some content \<and> prev' = Some (md5 content)
        \<and> loaded content (snd (rounds ! i)) (sks1 ! i)
      \<Longrightarrow> \<exists>i < length sks. \<exists>content. fst (((file, sk) # rounds) ! i) = Some content
        \<and> prev' = Some (md5 content) \<and> loaded content (snd (((file, sk) # rounds) ! i)) (sks ! i)"
      unfolding sks by (metis Suc_less_eq length_Cons nth_Cons_Suc)
    have "prev' = prev \<or> (\<exists>i < length sks. \<exists>content. fst (((file, sk) # rounds) ! i) = Some content
        \<and> prev' = Some (md5 content) \<and> loaded content (snd (((file, sk) # rounds) ! i)) (sks ! i))"
      using IH here later by blast
    moreover have "sks = map snd ((file, sk) # rounds) \<and> prev' = prev"
      if "prev = Some (md5 content) \<and> (\<forall>x \<in> set ((file, sk) # rounds). fst x = Some content)" for content
      using that same [of content] conjunct2 [OF IH, rule_format, of content] Inr sks by simp
    ultimately show ?thesis by blast
  qed
qed simp


theorem reload_job_remembers_witness:
  "reload_tc_loop [(Some sample_tc, open_socket 77 1 [] []), (Some sample_tc, open_socket 78 1 [] [])] (Some (md5 sample_tc))
     = (Inr (), Some (md5 sample_tc), [open_socket 77 1 [] [], open_socket 78 1 [] []])"
proof -
  let ?rounds = "[(Some sample_tc, open_socket 77 1 [] []), (Some sample_tc, open_socket 78 1 [] [])]"
  obtain r prev' sks where run: "reload_tc_loop ?rounds (Some (md5 sample_tc)) = (r, prev', sks)" by (metis prod_cases3)
  then have "r = Inr ()" by (simp add: reload_unchanged)
  moreover from reload_job_remembers [OF run, THEN conjunct2, rule_format, of sample_tc]
  have "sks = [open_socket 77 1 [] [], open_socket 78 1 [] []]" "prev' = Some (md5 sample_tc)" by simp_all
  ultimately show ?thesis using run by (simp only:)
qed

text \<open>A start that finds no \<^verbatim>\<open>tc.conf\<close> and whose sweep is not answered.\<close>

theorem init_kernel_links_witness:
  "\<exists>m. frames_prefix 77 [sdesc_sweep] [m] \<and> fst (init_kernel None (open_socket 77 1 [] []) (open_socket 77 1 [] []) gold_config) = Inl SystemExit"
proof -
  let ?sk = "open_socket 77 1 [] []"
  have "\<exists>m. frame 77 sdesc_sweep = Inr m"
    by (rule frame_ok) (simp_all add: sdesc_sweep_def ev_type_def ev_get_def event_codes session_fits_def blank_def)
  then obtain m where m: "frame (sk_portid ?sk) sdesc_sweep = Inr m" by (auto simp: open_socket_def sk_portid_def)
  have "send_only sdesc_sweep ?sk = (Inr (), ?sk\<lparr>sk_sent := [m]\<rparr>)"
    by (subst send_only_ok [OF _ m]) (simp_all add: open_socket_def)
  then have "nl_bind (send_event sdesc_sweep) f ?sk = (Inl SocketTimeout, ?sk\<lparr>sk_sent := [m]\<rparr>)" for f :: "nl_event \<Rightarrow> unit nl"
    by (simp add: send_event_def nl_bind_def nl_recv.simps open_socket_def)
  then have run: "init_kernel None ?sk ?sk gold_config = (Inl SystemExit, prepare_all gold_config, ?sk, ?sk\<lparr>sk_sent := [m]\<rparr>)"
    by (simp add: init_kernel_def reload_def)
  have "link_events (tc_names None) svcs = []" for svcs by (simp add: link_events_def tc_names_def)
  with init_kernel_links [OF run] run show ?thesis
    by (auto simp: new_messages_def open_socket_def sk_portid_def)
qed


section \<open>Identification\<close>

text \<open>
  Whatever the configuration says and the lookup gives, the daemon has an address and an identifier to put
  into its requests, and every backend of both pools uses this pair.
\<close>

lemma or_else_nonempty: "d \<noteq> [] \<Longrightarrow> or_else s d \<noteq> []"
  by (auto simp: or_else_def split: option.splits)

lemma daemon_identified:
  assumes "daemon_init cfg lookup = Inr d"
  shows "d_nas_ip d \<noteq> []" "d_nas_id d \<noteq> []"
    "d_auth_pool d = make_pool cfg (c_auth cfg) (d_nas_ip d) (d_nas_id d)" "d_acct_pool d = make_pool cfg (c_accounting cfg) (d_nas_ip d) (d_nas_id d)"
proof -
  obtain host where "d = new_daemon cfg host"
    using assms by (auto simp: daemon_init_def bindE_eq_Inr split: option.splits list.splits)
  then show "d_nas_ip d \<noteq> []" "d_nas_id d \<noteq> []"
    "d_auth_pool d = make_pool cfg (c_auth cfg) (d_nas_ip d) (d_nas_id d)" "d_acct_pool d = make_pool cfg (c_accounting cfg) (d_nas_ip d) (d_nas_id d)"
    by (simp_all add: new_daemon_def Let_def or_else_nonempty)
qed


section \<open>Shutdown\<close>

text \<open>
  The main thread closes the connections that it opened itself, and those only: the connections of the
  worker threads stay open until the process ends.
\<close>

lemma shutdown_closes_own:
  assumes "MySQLB mb \<in> set (d_auth_pool d)"
  shows "\<exists>mb'. MySQLB mb' \<in> set (d_auth_pool (shutdown t d)) \<and> mb_conn mb' t = None \<and> (\<forall>t'. t' \<noteq> t \<longrightarrow> mb_conn mb' t' = mb_conn mb t')
    \<and> new_ops mb mb' = closing t mb"
proof -
  have "mb_conn (close t mb) t = None" "\<forall>t'. t' \<noteq> t \<longrightarrow> mb_conn (close t mb) t' = mb_conn mb t'" "new_ops mb (close t mb) = closing t mb"
    by (auto simp: close_def new_ops_def split: option.splits)
  moreover have "MySQLB (close t mb) \<in> set (d_auth_pool (shutdown t d))"
    using assms by (force simp: shutdown_def any_close_def)
  ultimately show ?thesis by blast
qed

end
