(* ===== verification/Arp.thy ===== *)
theory Arp
  imports Backend_Base Netlink
begin

unbundle bit_operations_syntax

text \<open>
  The ARP prober of the REST interface, \<^verbatim>\<open>app/src/api/arp.py\<close>: the search of the routing table, the
  request frame, the test for a reply and the sending loop. The lines of \<^verbatim>\<open>/proc/net/route\<close>, the
  \<^verbatim>\<open>ioctl\<close> call, the clock and the packet socket are arguments. Times are rational numbers of seconds.
\<close>

definition ETH_P_ARP :: int where "ETH_P_ARP = 0x0806"
definition ARP_REQUEST :: int where "ARP_REQUEST = 1"
definition ARP_REPLY :: int where "ARP_REPLY = 2"
definition SIOCGIFADDR :: int where "SIOCGIFADDR = 0x8915"
definition SIOCGIFHWADDR :: int where "SIOCGIFHWADDR = 0x8927"


section \<open>Routing table\<close>

text \<open>\<^verbatim>\<open>int(s, 16)\<close>: like \<^const>\<open>py_int\<close>, with an optional prefix \<^verbatim>\<open>0x\<close> that an underscore may follow.\<close>

fun hex_us :: "string \<Rightarrow> bool" where
  "hex_us [] = False"
| "hex_us [c] = is_hex c"
| "hex_us (c # d # s) = (is_hex c \<and> (if d = CHR ''_'' then hex_us s else hex_us (d # s)))"

definition hex_body :: "string \<Rightarrow> string" where
  "hex_body s =
     (if 2 \<le> length s \<and> s ! 0 = CHR ''0'' \<and> (s ! 1 = CHR ''x'' \<or> s ! 1 = CHR ''X'')
      then let r = drop 2 s in if r \<noteq> [] \<and> hd r = CHR ''_'' then tl r else r
      else s)"

definition py_int16 :: "string \<Rightarrow> int res" where
  "py_int16 s0 =
     (let s = strip s0;
          neg = (s \<noteq> [] \<and> hd s = CHR ''-'');
          body = hex_body (if s \<noteq> [] \<and> (hd s = CHR ''-'' \<or> hd s = CHR ''+'') then tl s else s)
      in if hex_us body
         then let n = int (hex_val (filter is_hex body)) in Inr (if neg then - n else n)
         else Inl ValueError)"

text \<open>\<^verbatim>\<open>bin(mask).count('1')\<close>: the ones of the absolute value.\<close>

fun ones :: "nat \<Rightarrow> nat" where
  "ones n = (if n = 0 then 0 else n mod 2 + ones (n div 2))"

declare ones.simps [simp del]

definition bin_ones :: "int \<Rightarrow> int" where
  "bin_ones n = int (ones (nat \<bar>n\<bar>))"

text \<open>One line of the table: nothing if it is short or has a gateway, else the interface, the network and
  the mask.\<close>

definition route_line :: "string \<Rightarrow> (string \<times> int \<times> int) option res" where
  "route_line line =
     (let parts = split_ws line in
      if length parts < 8 then Inr None
      else bindE (py_int16 (parts ! 2)) (\<lambda>gateway.
           if gateway \<noteq> 0 then Inr None
           else bindE (py_int16 (parts ! 1)) (\<lambda>dest.
                bindE (py_int16 (parts ! 7)) (\<lambda>netmask.
                  Inr (Some (parts ! 0, dest, netmask))))))"

definition route_better :: "int \<Rightarrow> int \<times> string \<Rightarrow> (string \<times> int \<times> int) option \<Rightarrow> int \<times> string" where
  "route_better target best row =
     (case row of
        None \<Rightarrow> best
      | Some (iface, dest, netmask) \<Rightarrow>
          if target AND netmask = dest \<and> fst best < bin_ones netmask then (bin_ones netmask, iface) else best)"

fun route_scan :: "int \<Rightarrow> string list \<Rightarrow> int \<times> string \<Rightarrow> (int \<times> string) res" where
  "route_scan target [] best = Inr best"
| "route_scan target (line # lines) best =
     bindE (route_line line) (\<lambda>row. route_scan target lines (route_better target best row))"

definition route_iface :: "string list res \<Rightarrow> string \<Rightarrow> string res" where
  "route_iface proc_route dst_ip =
     bindE (inet_aton dst_ip) (\<lambda>b.
     bindE proc_route (\<lambda>f.
       case f of
         [] \<Rightarrow> Inl OtherError
       | _ # lines \<Rightarrow>
           bindE (route_scan (le_val b) lines (-1, [])) (\<lambda>(_, best_iface).
             if best_iface = [] then Inl OSError else Inr best_iface)))"


section \<open>Interface addresses\<close>

type_synonym ioctl = "int \<Rightarrow> bytes \<Rightarrow> bytes res"

text \<open>\<^verbatim>\<open>struct.pack('<n>s', b)\<close>\<close>

definition pack_s :: "nat \<Rightarrow> bytes \<Rightarrow> bytes" where
  "pack_s n b = take n (b @ zeros n)"

lemma length_pack_s [simp]: "length (pack_s n b) = n"
  by (simp add: pack_s_def)

lemma pack_s_exact: "length b = n \<Longrightarrow> pack_s n b = b"
  by (simp add: pack_s_def)

definition iface_mac :: "ioctl \<Rightarrow> string \<Rightarrow> bytes res" where
  "iface_mac ioctl iface =
     bindE (ioctl SIOCGIFHWADDR (pack_s 256 (encode (take 15 iface)))) (\<lambda>buf. Inr (pyslice 18 24 buf))"

definition iface_ip :: "ioctl \<Rightarrow> string \<Rightarrow> string res" where
  "iface_ip ioctl iface =
     bindE (ioctl SIOCGIFADDR (pack_s 256 (encode (take 15 iface)))) (\<lambda>buf.
       let a = pyslice 20 24 buf in if length a \<noteq> 4 then Inl OSError else Inr (inet_ntoa a))"


section \<open>Frames\<close>

definition build_arp_request :: "bytes \<Rightarrow> string \<Rightarrow> string \<Rightarrow> bytes res" where
  "build_arp_request src_mac src_ip dst_ip =
     concatE [Inr (replicate 6 0xFF @ src_mac), pack_be 2 ETH_P_ARP,
       bindE (inet_aton src_ip) (\<lambda>sip.
       bindE (inet_aton dst_ip) (\<lambda>dip.
         concatE [pack_be 2 1, pack_be 2 0x0800, pack_be 1 6, pack_be 1 4, pack_be 2 ARP_REQUEST,
           Inr (pack_s 6 src_mac @ pack_s 4 sip @ zeros 6 @ pack_s 4 dip)]))]"

definition is_arp_reply :: "bytes \<Rightarrow> bytes \<Rightarrow> bool" where
  "is_arp_reply dst data \<longleftrightarrow>
     42 \<le> length data \<and> pyslice 12 14 data = be_bytes 2 ETH_P_ARP
     \<and> be_val (pyslice 20 22 data) = ARP_REPLY \<and> pyslice 28 32 data = dst"


section \<open>Probing\<close>

text \<open>
  One turn of the waiting loop: the clock reading, what \<^verbatim>\<open>recv\<close> gives if it is called (\<^verbatim>\<open>TimeoutError\<close> is
  \<^const>\<open>SocketTimeout\<close>), and the second clock reading. The loop ends only if a turn ends it.
\<close>

record arp_round =
  ro_now :: rat
  ro_recv :: "bytes res"
  ro_end :: rat

partial_function (option) arp_wait :: "(nat \<Rightarrow> arp_round) \<Rightarrow> bytes \<Rightarrow> rat \<Rightarrow> rat \<Rightarrow> nat \<Rightarrow> (rat option res \<times> nat) option" where
  "arp_wait rounds dst t0 deadline i =
     (if deadline - ro_now (rounds i) \<le> 0 then Some (Inr None, Suc i)
      else case ro_recv (rounds i) of
             Inl e \<Rightarrow> Some (if e = SocketTimeout then Inr None else Inl e, Suc i)
           | Inr data \<Rightarrow>
               if is_arp_reply dst (take 60 data)
               then Some (Inr (Some (py_round 3 ((ro_end (rounds i) - t0) * 1000))), Suc i)
               else arp_wait rounds dst t0 deadline (Suc i))"

text \<open>
  What a run sees: the routing table, the interface, the outcomes of creating and binding the packet
  socket, and for each probe its start and the outcome of \<^verbatim>\<open>send\<close>.
\<close>

record arp_world =
  aw_route :: "string list res"
  aw_ioctl :: ioctl
  aw_socket :: "unit res"
  aw_bind :: "unit res"
  aw_start :: "nat \<Rightarrow> rat"
  aw_send :: "nat \<Rightarrow> bytes \<Rightarrow> unit res"
  aw_rounds :: "nat \<Rightarrow> arp_round"

fun arp_probes :: "arp_world \<Rightarrow> bytes \<Rightarrow> bytes \<Rightarrow> rat \<Rightarrow> nat \<Rightarrow> nat \<Rightarrow> nat \<Rightarrow> rat list \<Rightarrow> rat list res option" where
  "arp_probes w frm dst timeout k 0 i rtts = Some (Inr rtts)"
| "arp_probes w frm dst timeout k (Suc n) i rtts =
     (case aw_send w k frm of
        Inl e \<Rightarrow> Some (Inl e)
      | Inr _ \<Rightarrow>
          (case arp_wait (aw_rounds w) dst (aw_start w k) (aw_start w k + timeout) i of
             None \<Rightarrow> None
           | Some (Inl e, _) \<Rightarrow> Some (Inl e)
           | Some (Inr None, j) \<Rightarrow> arp_probes w frm dst timeout (Suc k) n j rtts
           | Some (Inr (Some rtt), j) \<Rightarrow> arp_probes w frm dst timeout (Suc k) n j (rtts @ [rtt])))"

record arping_result =
  ap_ip :: string
  ap_iface :: "string option"
  ap_reachable :: bool
  ap_packets_sent :: int
  ap_packets_received :: int
  ap_rtt_ms :: "rat list"
  ap_avg_rtt_ms :: "rat option"

definition arping_report :: "string \<Rightarrow> string \<Rightarrow> nat \<Rightarrow> rat list \<Rightarrow> arping_result" where
  "arping_report ip iface count rtts =
     \<lparr>ap_ip = ip, ap_iface = Some iface, ap_reachable = (rtts \<noteq> []), ap_packets_sent = int count,
      ap_packets_received = int (length rtts), ap_rtt_ms = rtts,
      ap_avg_rtt_ms = (if rtts \<noteq> [] then Some (py_round 3 (sum_list rtts / of_nat (length rtts))) else None)\<rparr>"

definition arping_prepare :: "arp_world \<Rightarrow> string \<Rightarrow> (string \<times> bytes \<times> bytes) res" where
  "arping_prepare w ip =
     bindE (route_iface (aw_route w) ip) (\<lambda>iface.
     bindE (iface_mac (aw_ioctl w) iface) (\<lambda>src_mac.
     bindE (iface_ip (aw_ioctl w) iface) (\<lambda>src_ip.
     bindE (build_arp_request src_mac src_ip ip) (\<lambda>frm.
     bindE (inet_aton ip) (\<lambda>dst.
     bindE (aw_socket w) (\<lambda>_.
     bindE (aw_bind w) (\<lambda>_. Inr (iface, frm, dst))))))))"

definition arping_sync :: "arp_world \<Rightarrow> string \<Rightarrow> nat \<Rightarrow> rat \<Rightarrow> arping_result res option" where
  "arping_sync w ip count timeout =
     (case arping_prepare w ip of
        Inl e \<Rightarrow> Some (Inl e)
      | Inr (iface, frm, dst) \<Rightarrow>
          map_option (\<lambda>r. bindE r (\<lambda>rtts. Inr (arping_report ip iface count rtts)))
            (arp_probes w frm dst timeout 0 count 0 []))"


section \<open>The search finds the longest prefix\<close>

definition route_reaches :: "int \<Rightarrow> (string \<times> int \<times> int) option \<Rightarrow> bool" where
  "route_reaches target row = (case row of None \<Rightarrow> False | Some (_, dest, netmask) \<Rightarrow> target AND netmask = dest)"

definition row_iface :: "(string \<times> int \<times> int) option \<Rightarrow> string" where
  "row_iface row = (case row of None \<Rightarrow> [] | Some (iface, _) \<Rightarrow> iface)"

definition row_bits :: "(string \<times> int \<times> int) option \<Rightarrow> int" where
  "row_bits row = (case row of None \<Rightarrow> -1 | Some (_, _, netmask) \<Rightarrow> bin_ones netmask)"

lemma bin_ones_nonneg [simp]: "0 \<le> bin_ones n"
  by (simp add: bin_ones_def)

lemma split_ws_nonempty: "s \<in> set (split_ws t) \<Longrightarrow> s \<noteq> []"
proof (induction t rule: split_ws.induct)
  case (1 t)
  let ?t = "dropWhile is_space t"
  show ?case
  proof (cases "?t = []")
    case True
    then have "split_ws t = []" by (subst split_ws.simps) (simp add: Let_def)
    with 1 show ?thesis by simp
  next
    case False
    then have "\<not> is_space (hd ?t)" by (rule hd_dropWhile)
    with False have "takeWhile (\<lambda>c. \<not> is_space c) ?t \<noteq> []" by (cases ?t) auto
    moreover have "split_ws t = takeWhile (\<lambda>c. \<not> is_space c) ?t # split_ws (dropWhile (\<lambda>c. \<not> is_space c) ?t)"
      using False by (subst split_ws.simps) (simp add: Let_def)
    ultimately show ?thesis using 1 False by auto
  qed
qed

lemma route_line_iface: "route_line line = Inr (Some (iface, dest, netmask)) \<Longrightarrow> iface \<noteq> []"
proof -
  assume r: "route_line line = Inr (Some (iface, dest, netmask))"
  then have "8 \<le> length (split_ws line)" "iface = split_ws line ! 0"
    by (auto simp: route_line_def Let_def bindE_eq_Inr split: if_splits)
  then show ?thesis using split_ws_nonempty [of iface line] nth_mem [of 0 "split_ws line"] by fastforce
qed

lemma route_scan_foldl:
  "list_all2 (\<lambda>l r. route_line l = Inr r) lines rows \<Longrightarrow>
   route_scan t lines best = Inr (foldl (route_better t) best rows)"
  by (induction arbitrary: best rule: list_all2_induct) auto

text \<open>The state of the scan after a number of rows: nothing yet, or the first of the longest matches.\<close>

definition scan_inv :: "int \<Rightarrow> (string \<times> int \<times> int) option list \<Rightarrow> int \<times> string \<Rightarrow> bool" where
  "scan_inv t rows best \<longleftrightarrow>
     (if \<exists>r \<in> set rows. route_reaches t r
      then \<exists>i < length rows. route_reaches t (rows ! i) \<and> best = (row_bits (rows ! i), row_iface (rows ! i))
         \<and> (\<forall>j < length rows. route_reaches t (rows ! j) \<longrightarrow> row_bits (rows ! j) \<le> row_bits (rows ! i)
              \<and> (j < i \<longrightarrow> row_bits (rows ! j) < row_bits (rows ! i)))
      else best = (-1, []))"

lemma scan_inv_skip:
  assumes "scan_inv t rows best" "\<not> route_reaches t r"
  shows "scan_inv t (rows @ [r]) best"
  using assms unfolding scan_inv_def by (auto simp: nth_append less_Suc_eq split: if_splits)

lemma scan_inv_step: "scan_inv t rows best \<Longrightarrow> scan_inv t (rows @ [r]) (route_better t best r)"
proof (cases "route_reaches t r")
  case False
  moreover assume "scan_inv t rows best"
  moreover have "route_better t best r = best"
    using False by (auto simp: route_better_def route_reaches_def split: option.splits)
  ultimately show ?thesis by (simp add: scan_inv_skip)
next
  case True
  assume inv: "scan_inv t rows best"
  from True have new: "route_better t best r = (if fst best < row_bits r then (row_bits r, row_iface r) else best)"
    by (auto simp: route_better_def route_reaches_def row_bits_def row_iface_def split: option.splits)
  from True have nn: "0 \<le> row_bits r" by (auto simp: route_reaches_def row_bits_def split: option.splits)
  show ?thesis
  proof (cases "\<exists>x \<in> set rows. route_reaches t x")
    case None: False
    then have "\<forall>j < length rows. \<not> route_reaches t (rows ! j)" by auto
    moreover from None inv have "best = (-1, [])" by (simp add: scan_inv_def)
    ultimately show ?thesis using True nn new
      by (auto simp: scan_inv_def nth_append less_Suc_eq intro!: exI [of _ "length rows"])
  next
    case Some: True
    with inv obtain i where i: "i < length rows" "route_reaches t (rows ! i)"
      "best = (row_bits (rows ! i), row_iface (rows ! i))"
      "\<And>j. j < length rows \<Longrightarrow> route_reaches t (rows ! j) \<Longrightarrow> row_bits (rows ! j) \<le> row_bits (rows ! i)
          \<and> (j < i \<longrightarrow> row_bits (rows ! j) < row_bits (rows ! i))"
      by (auto simp: scan_inv_def)
    let ?k = "if fst best < row_bits r then length rows else i"
    have "?k < length (rows @ [r]) \<and> route_reaches t ((rows @ [r]) ! ?k)
      \<and> route_better t best r = (row_bits ((rows @ [r]) ! ?k), row_iface ((rows @ [r]) ! ?k))
      \<and> (\<forall>j < length (rows @ [r]). route_reaches t ((rows @ [r]) ! j) \<longrightarrow>
           row_bits ((rows @ [r]) ! j) \<le> row_bits ((rows @ [r]) ! ?k)
           \<and> (j < ?k \<longrightarrow> row_bits ((rows @ [r]) ! j) < row_bits ((rows @ [r]) ! ?k)))"
      using i True new by (fastforce simp: nth_append less_Suc_eq)
    moreover have "\<exists>x \<in> set (rows @ [r]). route_reaches t x" using True by simp
    ultimately show ?thesis unfolding scan_inv_def by meson
  qed
qed

lemma scan_inv_foldl: "scan_inv t done best \<Longrightarrow> scan_inv t (done @ rows) (foldl (route_better t) best rows)"
proof (induction rows arbitrary: "done" best)
  case (Cons r rows)
  from Cons.IH [OF scan_inv_step [OF Cons.prems]] show ?case by simp
qed simp



section \<open>The prober returns\<close>

text \<open>The loop ends as soon as a turn finds the deadline past, or earlier.\<close>

lemma arp_wait_returns:
  "deadline \<le> ro_now (rounds (i + n)) \<Longrightarrow> \<exists>r j. arp_wait rounds dst t0 deadline i = Some (r, j) \<and> i < j \<and> j \<le> Suc (i + n)"
proof (induction n arbitrary: i)
  case 0
  then show ?case by (subst arp_wait.simps) simp
next
  case (Suc n)
  show ?case
  proof (cases "deadline - ro_now (rounds i) \<le> 0")
    case True
    then show ?thesis by (subst arp_wait.simps) simp
  next
    case False
    from Suc.IH [of "Suc i"] Suc.prems obtain r j
      where "arp_wait rounds dst t0 deadline (Suc i) = Some (r, j)" "Suc i < j" "j \<le> Suc (Suc (i + n))" by auto
    then show ?thesis by (subst arp_wait.simps) (use False in \<open>auto split: sum.split\<close>)
  qed
qed

definition clock_runs :: "(nat \<Rightarrow> arp_round) \<Rightarrow> bool" where
  "clock_runs rounds \<longleftrightarrow> (\<forall>t i. \<exists>n. t \<le> ro_now (rounds (i + n)))"

lemma arp_probes_return:
  "clock_runs (aw_rounds w) \<Longrightarrow> \<exists>r. arp_probes w frm dst timeout k n i rtts = Some r"
proof (induction n arbitrary: k i rtts)
  case 0
  show ?case by simp
next
  case (Suc n)
  from Suc.prems obtain m where "aw_start w k + timeout \<le> ro_now (aw_rounds w (i + m))"
    unfolding clock_runs_def by meson
  from arp_wait_returns [of _ "aw_rounds w" i m, OF this] obtain r j
    where "arp_wait (aw_rounds w) dst (aw_start w k) (aw_start w k + timeout) i = Some (r, j)" by blast
  with Suc show ?case by (auto split: sum.split option.split)
qed

text \<open>
  C20: however many frames the network delivers, a probe returns: the waiting loop ends for every
  request as soon as its clock has passed the deadline, so the call gives a report or an exception
  whenever the clock keeps running.
\<close>
theorem arping_terminates:
  assumes "clock_runs (aw_rounds w)"
  shows "\<exists>r. arping_sync w ip count timeout = Some r"
  using arp_probes_return [OF assms] by (auto simp: arping_sync_def split: sum.split)


section \<open>What a report says\<close>

text \<open>A round-trip time stands for a reply of the probed address that arrived before the deadline.\<close>

definition measured :: "(nat \<Rightarrow> arp_round) \<Rightarrow> bytes \<Rightarrow> rat \<Rightarrow> rat \<Rightarrow> rat \<Rightarrow> bool" where
  "measured rounds dst t0 deadline rtt \<longleftrightarrow>
     (\<exists>k data. ro_recv (rounds k) = Inr data \<and> is_arp_reply dst (take 60 data) \<and> ro_now (rounds k) < deadline
        \<and> rtt = py_round 3 ((ro_end (rounds k) - t0) * 1000))"

definition wait_ok :: "(nat \<Rightarrow> arp_round) \<Rightarrow> bytes \<Rightarrow> rat \<Rightarrow> rat \<Rightarrow> nat \<Rightarrow> rat option res \<times> nat \<Rightarrow> bool" where
  "wait_ok rounds dst t0 deadline i r = (case fst r of Inr (Some rtt) \<Rightarrow> measured rounds dst t0 deadline rtt | _ \<Rightarrow> True)"

lemma arp_wait_ok: "arp_wait rounds dst t0 deadline i = Some r \<Longrightarrow> wait_ok rounds dst t0 deadline i r"
proof (rule arp_wait.raw_induct [where P = wait_ok])
  fix rec rounds dst t0 deadline i r
  assume rec: "\<And>rounds dst t0 deadline i r. rec rounds dst t0 deadline i = Some r \<Longrightarrow> wait_ok rounds dst t0 deadline i r"
    and step: "(if deadline - ro_now (rounds i) \<le> 0 then Some (Inr None, Suc i)
      else case ro_recv (rounds i) of
             Inl e \<Rightarrow> Some (if e = SocketTimeout then Inr None else Inl e, Suc i)
           | Inr data \<Rightarrow>
               if is_arp_reply dst (take 60 data)
               then Some (Inr (Some (py_round 3 ((ro_end (rounds i) - t0) * 1000))), Suc i)
               else rec rounds dst t0 deadline (Suc i)) = Some r"
  show "wait_ok rounds dst t0 deadline i r"
  proof (cases "deadline - ro_now (rounds i) \<le> 0")
    case True
    with step show ?thesis by (auto simp: wait_ok_def)
  next
    case False
    show ?thesis
    proof (cases "ro_recv (rounds i)")
      case (Inl e)
      with step False show ?thesis by (auto simp: wait_ok_def)
    next
      case (Inr data)
      show ?thesis
      proof (cases "is_arp_reply dst (take 60 data)")
        case True
        with Inr False have "measured rounds dst t0 deadline (py_round 3 ((ro_end (rounds i) - t0) * 1000))"
          unfolding measured_def by force
        with step False Inr True show ?thesis by (auto simp: wait_ok_def)
      next
        case no: False
        with step False Inr have "rec rounds dst t0 deadline (Suc i) = Some r" by simp
        from rec [OF this] show ?thesis by (simp add: wait_ok_def)
      qed
    qed
  qed
qed

lemma arp_probes_measured:
  assumes "arp_probes w frm dst timeout k n i rtts = Some (Inr out)"
  shows "\<exists>new. out = rtts @ new \<and> length new \<le> n
           \<and> (\<forall>x \<in> set new. \<exists>p. k \<le> p \<and> p < k + n \<and> measured (aw_rounds w) dst (aw_start w p) (aw_start w p + timeout) x)"
  using assms
proof (induction n arbitrary: k i rtts)
  case 0
  then show ?case by simp
next
  case (Suc n)
  show ?case
  proof (cases "aw_send w k frm")
    case (Inl e)
    with Suc.prems show ?thesis by simp
  next
    case (Inr u)
    then obtain r j where wait: "arp_wait (aw_rounds w) dst (aw_start w k) (aw_start w k + timeout) i = Some (r, j)"
      using Suc.prems by (cases "arp_wait (aw_rounds w) dst (aw_start w k) (aw_start w k + timeout) i") auto
    from wait Inr Suc.prems obtain o' where r: "r = Inr o'" by (cases r) auto
    show ?thesis
    proof (cases o')
      case None
      with wait Inr r Suc.prems have "arp_probes w frm dst timeout (Suc k) n j rtts = Some (Inr out)" by simp
      from Suc.IH [OF this] obtain new where new: "out = rtts @ new" "length new \<le> n"
        "\<And>x. x \<in> set new \<Longrightarrow> \<exists>p. Suc k \<le> p \<and> p < Suc k + n \<and> measured (aw_rounds w) dst (aw_start w p) (aw_start w p + timeout) x"
        by auto
      have "\<exists>p. k \<le> p \<and> p < k + Suc n \<and> measured (aw_rounds w) dst (aw_start w p) (aw_start w p + timeout) x"
        if "x \<in> set new" for x
        using new(3) [OF that] by (metis Suc_leD add_Suc add_Suc_right)
      with new(1,2) show ?thesis by (intro exI [of _ new]) simp
    next
      case (Some rtt)
      with wait Inr r Suc.prems have "arp_probes w frm dst timeout (Suc k) n j (rtts @ [rtt]) = Some (Inr out)" by simp
      from Suc.IH [OF this] obtain new where new: "out = rtts @ rtt # new" "length new \<le> n"
        "\<And>x. x \<in> set new \<Longrightarrow> \<exists>p. Suc k \<le> p \<and> p < Suc k + n \<and> measured (aw_rounds w) dst (aw_start w p) (aw_start w p + timeout) x"
        by auto
      from arp_wait_ok [OF wait] r Some have m: "measured (aw_rounds w) dst (aw_start w k) (aw_start w k + timeout) rtt"
        by (simp add: wait_ok_def)
      have "\<exists>p. k \<le> p \<and> p < k + Suc n \<and> measured (aw_rounds w) dst (aw_start w p) (aw_start w p + timeout) x"
        if "x \<in> set (rtt # new)" for x
      proof (cases "x \<in> set new")
        case True
        from new(3) [OF this] show ?thesis by (metis Suc_leD add_Suc add_Suc_right)
      next
        case False
        with that m show ?thesis by auto
      qed
      with new(1,2) show ?thesis by (intro exI [of _ "rtt # new"]) simp
    qed
  qed
qed

text \<open>
  C22: a report is honest: it counts at most one answer for each request sent, every time in it was
  measured on a frame that is an ARP reply of the probed address and came before the deadline of its
  request, and the host is called reachable exactly if there is one.
\<close>
theorem arping_report_honest:
  assumes "arping_sync w ip count timeout = Some (Inr rep)" "inet_aton ip = Inr dst"
  shows "ap_ip rep = ip \<and> ap_packets_sent rep = int count \<and> ap_packets_received rep = int (length (ap_rtt_ms rep))
     \<and> ap_packets_received rep \<le> ap_packets_sent rep
     \<and> (ap_reachable rep \<longleftrightarrow> 0 < ap_packets_received rep) \<and> (ap_avg_rtt_ms rep = None \<longleftrightarrow> \<not> ap_reachable rep)
     \<and> (\<forall>x \<in> set (ap_rtt_ms rep). \<exists>p < count. measured (aw_rounds w) dst (aw_start w p) (aw_start w p + timeout) x)"
proof -
  from assms(1) obtain iface frm d out where prep: "arping_prepare w ip = Inr (iface, frm, d)"
    and out: "arp_probes w frm d timeout 0 count 0 [] = Some (Inr out)" and rep: "rep = arping_report ip iface count out"
    by (auto simp: arping_sync_def bindE_eq_Inr split: sum.splits)
  from prep assms(2) have "d = dst" by (auto simp: arping_prepare_def bindE_eq_Inr)
  with arp_probes_measured [OF out] show ?thesis by (auto simp: rep arping_report_def)
qed


section \<open>Frames\<close>

text \<open>The answer of a host to a request, as RFC 826 has it: the addresses change places.\<close>

definition arp_answer :: "bytes \<Rightarrow> bytes \<Rightarrow> bytes" where
  "arp_answer mac req =
     pyslice 6 12 req @ mac @ pyslice 12 14 req @ pyslice 14 20 req @ be_bytes 2 ARP_REPLY
       @ mac @ pyslice 38 42 req @ pyslice 22 28 req @ pyslice 28 32 req @ zeros 18"

lemma inet_aton_length: "inet_aton s = Inr b \<Longrightarrow> length b = 4"
  by (auto simp: inet_aton_def split: if_splits option.splits)

lemma arp_words:
  "be_bytes 2 ETH_P_ARP = [8, 6]" "be_bytes 2 0x0800 = [8, 0]" "be_bytes 1 6 = [6]" "be_bytes 1 4 = [4]" "be_bytes 2 1 = [0, 1]"
  "be_bytes 2 ARP_REQUEST = [0, 1]" "be_bytes 2 ARP_REPLY = [0, 2]" "be_val [0, 1] = 1" "be_val [0, 2] = 2"
  by code_simp+

lemma build_arp_request_layout:
  assumes "length src_mac = 6" "inet_aton src_ip = Inr sip" "inet_aton dst_ip = Inr dip"
  shows "build_arp_request src_mac src_ip dst_ip = Inr (concat [replicate 6 0xFF, src_mac, [8, 6], [0, 1, 8, 0, 6, 4], [0, 1],
           src_mac, sip, zeros 6, dip])"
proof -
  have "pack_be 2 ETH_P_ARP = Inr [8, 6]" "pack_be 2 0x0800 = Inr [8, 0]" "pack_be 1 6 = Inr [6]" "pack_be 1 4 = Inr [4]"
    "pack_be 2 1 = Inr [0, 1]" "pack_be 2 ARP_REQUEST = Inr [0, 1]"
    by (simp_all only: pack_be_def arp_words) (simp_all add: ETH_P_ARP_def ARP_REQUEST_def)
  with assms inet_aton_length [OF assms(2)] inet_aton_length [OF assms(3)] show ?thesis
    by (simp add: build_arp_request_def pack_s_exact)
qed

text \<open>The slices of a concatenation of parts of known lengths.\<close>

lemma pyslice_part:
  assumes "sum_list (take i (map length bs)) = a" "sum_list (take (Suc i) (map length bs)) = c" "i < length bs"
  shows "pyslice a c (concat bs) = bs ! i"
  using concat_layout [OF assms(3)] assms(1,2) by simp

text \<open>
  The request asks for the address in an Ethernet broadcast that gives the sender's own
  addresses, the answer a host gives to it by RFC 826 is recognised as the reply of that address, even
  when the link pads it, and the request itself, seen on the same socket, is not.
\<close>
theorem arp_answer_recognised:
  assumes "length src_mac = 6" "length mac = 6" "inet_aton src_ip = Inr sip" "inet_aton dst_ip = Inr dip"
  shows "\<exists>frm. build_arp_request src_mac src_ip dst_ip = Inr frm \<and> length frm = 42
     \<and> pyslice 0 6 frm = replicate 6 0xFF \<and> pyslice 22 28 frm = src_mac \<and> pyslice 28 32 frm = sip \<and> pyslice 38 42 frm = dip
     \<and> is_arp_reply dip (take 60 (arp_answer mac frm)) \<and> \<not> is_arp_reply dip frm"
proof -
  let ?parts = "[replicate 6 0xFF, src_mac, [8, 6], [0, 1, 8, 0, 6, 4], [0, 1], src_mac, sip, zeros 6, dip]"
  let ?frm = "concat ?parts"
  have len: "length sip = 4" "length dip = 4" using assms inet_aton_length by auto
  note lens = len assms(1,2)
  have s: "pyslice 0 6 ?frm = ?parts ! 0" "pyslice 6 12 ?frm = ?parts ! 1" "pyslice 12 14 ?frm = ?parts ! 2"
    "pyslice 14 20 ?frm = ?parts ! 3" "pyslice 20 22 ?frm = ?parts ! 4" "pyslice 22 28 ?frm = ?parts ! 5"
    "pyslice 28 32 ?frm = ?parts ! 6" "pyslice 38 42 ?frm = ?parts ! 8"
    by (rule pyslice_part; simp add: lens)+
  have fl: "length ?frm = 42" by (simp add: lens)
  let ?ans = "[src_mac, mac, [8, 6], [0, 1, 8, 0, 6, 4], [0, 2], mac, dip, src_mac, sip, zeros 18 :: bytes]"
  have ans: "arp_answer mac ?frm = concat ?ans" by (simp only: arp_answer_def s arp_words) simp
  have al: "length (concat ?ans) = 60" by (simp add: lens)
  have a: "pyslice 12 14 (concat ?ans) = ?ans ! 2" "pyslice 20 22 (concat ?ans) = ?ans ! 4" "pyslice 28 32 (concat ?ans) = ?ans ! 6"
    by (rule pyslice_part; simp add: lens)+
  have "is_arp_reply dip (take 60 (arp_answer mac ?frm))"
    unfolding is_arp_reply_def ans using al a by (simp add: arp_words ARP_REPLY_def)
  moreover have "\<not> is_arp_reply dip ?frm"
    unfolding is_arp_reply_def s by (simp add: arp_words ARP_REPLY_def)
  ultimately show ?thesis
    using build_arp_request_layout [OF assms(1,3,4)] fl s by (intro exI [of _ ?frm]) simp
qed


section \<open>A host on the second interface\<close>

definition sample_route :: "string list" where
  "sample_route =
     [''Iface Destination Gateway Flags RefCnt Use Metric Mask'',
      ''eth0 00000000 0100000A 0003 0 0 0 00000000'',
      ''eth0 0000000A 00000000 0001 0 0 0 000000FF'',
      ''eth1 0001000A 00000000 0001 0 0 0 00FFFFFF'']"

definition sample_rows :: "(string \<times> int \<times> int) option list" where
  "sample_rows = [None, Some (''eth0'', 0x0000000A, 0x000000FF), Some (''eth1'', 0x0001000A, 0x00FFFFFF)]"

definition sample_mac :: bytes where
  "sample_mac = [2, 0, 0, 0, 0, 1]"

definition sample_host :: bytes where
  "sample_host = [2, 0, 0, 0, 0, 9]"

definition sample_ioctl :: ioctl where
  "sample_ioctl op arg = Inr (take 16 arg @ (if op = SIOCGIFHWADDR then [1, 0] @ sample_mac else [2, 0, 0, 0, 10, 0, 1, 1]) @ zeros 232)"

text \<open>
  The first request is answered after two milliseconds, behind another frame; then nothing comes, and
  the clock advances by a second with every reading.
\<close>

definition sample_reply :: bytes where
  "sample_reply = concat [sample_mac, sample_host, [8, 6], [0, 1, 8, 0, 6, 4], [0, 2], sample_host, [10, 0, 1, 7], sample_mac, [10, 0, 1, 1], zeros 18]"

definition sample_rounds :: "nat \<Rightarrow> arp_round" where
  "sample_rounds i =
     (if i = 0 then \<lparr>ro_now = 0, ro_recv = Inr (zeros 40), ro_end = 0\<rparr>
      else if i = 1 then \<lparr>ro_now = 0, ro_recv = Inr sample_reply, ro_end = 1 / 500\<rparr>
      else \<lparr>ro_now = of_nat i, ro_recv = Inl SocketTimeout, ro_end = of_nat i\<rparr>)"

definition sample_world :: arp_world where
  "sample_world = \<lparr>aw_route = Inr sample_route, aw_ioctl = sample_ioctl, aw_socket = Inr (), aw_bind = Inr (),
     aw_start = of_nat, aw_send = (\<lambda>_ _. Inr ()), aw_rounds = sample_rounds\<rparr>"

lemma sample_aton: "inet_aton ''10.0.1.7'' = Inr [10, 0, 1, 7]" "inet_aton ''10.0.1.1'' = Inr [10, 0, 1, 1]"
proof -
  have "inet_ntoa [10, 0, 1, 7] = ''10.0.1.7''" by code_simp
  with inet_aton_ntoa [of "[10, 0, 1, 7]"] show "inet_aton ''10.0.1.7'' = Inr [10, 0, 1, 7]" by simp
  have "inet_ntoa [10, 0, 1, 1] = ''10.0.1.1''" by code_simp
  with inet_aton_ntoa [of "[10, 0, 1, 1]"] show "inet_aton ''10.0.1.1'' = Inr [10, 0, 1, 1]" by simp
qed

lemma sample_hex: "py_int16 ''00000000'' = Inr 0" "py_int16 ''0100000A'' = Inr 0x0100000A" "py_int16 ''0000000A'' = Inr 0xA"
  "py_int16 ''000000FF'' = Inr 0xFF" "py_int16 ''0001000A'' = Inr 0x1000A" "py_int16 ''00FFFFFF'' = Inr 0xFFFFFF"
  by (simp_all add: py_int16_def strip_def is_space_def hex_body_def is_hex_def is_digit_def hex_val_def hex_digit_val_def)

lemma sample_split: "map split_ws (tl sample_route) =
   [[''eth0'', ''00000000'', ''0100000A'', ''0003'', ''0'', ''0'', ''0'', ''00000000''],
    [''eth0'', ''0000000A'', ''00000000'', ''0001'', ''0'', ''0'', ''0'', ''000000FF''],
    [''eth1'', ''0001000A'', ''00000000'', ''0001'', ''0'', ''0'', ''0'', ''00FFFFFF'']]"
  by code_simp

lemma sample_rows_ok: "list_all2 (\<lambda>l r. route_line l = Inr r) (tl sample_route) sample_rows"
  using sample_split by (simp add: sample_route_def sample_rows_def route_line_def sample_hex)

lemma sample_world_runs: "clock_runs (aw_rounds sample_world)"
proof -
  have "\<exists>n. t \<le> ro_now (sample_rounds (i + n))" for t i
  proof -
    obtain n where "t \<le> of_nat n" using real_arch_simple by blast
    then have "t \<le> of_nat (i + (n + 2))" by simp
    then show ?thesis by (intro exI [of _ "n + 2"]) (simp add: sample_rounds_def)
  qed
  then show ?thesis by (simp add: clock_runs_def sample_world_def)
qed

lemma sample_target: "le_val [10, 0, 1, 7] = 0x0701000A"
  by code_simp

lemma sample_reaches: "map (route_reaches 0x0701000A) sample_rows = [False, True, True]"
  by (simp add: sample_rows_def route_reaches_def)

lemma sample_bits: "map row_bits sample_rows = [-1, 8, 24]"
  by (simp add: sample_rows_def row_bits_def bin_ones_def ones.simps)


theorem arping_terminates_witness:
  "\<exists>r. arping_sync sample_world ''10.0.1.7'' 3 2 = Some r"
  using arping_terminates [OF sample_world_runs] .

theorem arp_answer_recognised_witness:
  "\<exists>frm. build_arp_request sample_mac ''10.0.1.1'' ''10.0.1.7'' = Inr frm \<and> is_arp_reply [10, 0, 1, 7] (take 60 (arp_answer sample_host frm))"
proof -
  have "length sample_mac = 6" "length sample_host = 6" by (simp_all add: sample_mac_def sample_host_def)
  from arp_answer_recognised [OF this sample_aton(2) sample_aton(1)] show ?thesis by blast
qed

lemma sample_iface: "route_iface (Inr sample_route) ''10.0.1.7'' = Inr ''eth1''"
proof -
  have "foldl (route_better 0x0701000A) (-1, []) sample_rows = (24, ''eth1'')"
    by (simp add: sample_rows_def route_better_def bin_ones_def ones.simps)
  with route_scan_foldl [OF sample_rows_ok, of "0x0701000A" "(-1, [])"] show ?thesis
    by (simp add: route_iface_def sample_aton sample_target) (simp add: sample_route_def)
qed

lemma sample_prepare: "\<exists>frm. arping_prepare sample_world ''10.0.1.7'' = Inr (''eth1'', frm, [10, 0, 1, 7])"
proof -
  have "iface_mac sample_ioctl ''eth1'' = Inr sample_mac" "iface_ip sample_ioctl ''eth1'' = Inr ''10.0.1.1''" by code_simp+
  moreover have "\<exists>frm. build_arp_request sample_mac ''10.0.1.1'' ''10.0.1.7'' = Inr frm"
    using build_arp_request_layout [OF _ sample_aton(2) sample_aton(1), of sample_mac] by (simp add: sample_mac_def)
  ultimately show ?thesis
    using sample_iface by (auto simp: arping_prepare_def sample_world_def sample_aton)
qed

lemma sample_wait: "arp_wait sample_rounds [10, 0, 1, 7] 0 2 0 = Some (Inr (Some 2), 2)"
proof -
  have no: "\<not> is_arp_reply [10, 0, 1, 7] (take 60 (zeros 40))" by (simp add: is_arp_reply_def)
  have yes: "is_arp_reply [10, 0, 1, 7] (take 60 sample_reply)" by code_simp
  have round: "py_round 3 2 = 2" by code_simp
  show ?thesis
    by (subst arp_wait.simps, subst arp_wait.simps)
      (simp add: sample_rounds_def round no [simplified] yes)
qed

lemma sample_arping: "\<exists>rep. arping_sync sample_world ''10.0.1.7'' 3 2 = Some (Inr rep) \<and> ap_rtt_ms rep = [2]"
proof -
  have "arp_wait sample_rounds [10, 0, 1, 7] 1 3 2 = Some (Inr None, 3)" "arp_wait sample_rounds [10, 0, 1, 7] 2 4 3 = Some (Inr None, 4)"
    by (subst arp_wait.simps; simp add: sample_rounds_def)+
  with sample_wait have "arp_probes sample_world frm [10, 0, 1, 7] 2 0 3 0 [] = Some (Inr [2])" for frm
    by (simp add: numeral_3_eq_3 sample_world_def)
  with sample_prepare show ?thesis by (auto simp: arping_sync_def arping_report_def)
qed

theorem arping_report_honest_witness:
  "\<exists>rep. arping_sync sample_world ''10.0.1.7'' 3 2 = Some (Inr rep) \<and> ap_reachable rep \<and> ap_packets_sent rep = 3 \<and> ap_packets_received rep = 1"
proof -
  from sample_arping obtain rep where rep: "arping_sync sample_world ''10.0.1.7'' 3 2 = Some (Inr rep)" "ap_rtt_ms rep = [2]" by blast
  from arping_report_honest [OF rep(1) sample_aton(1)] rep show ?thesis by simp
qed

end
