(* ===== verification/Api_Server.thy ===== *)
theory Api_Server
  imports Api_Sessions Daemon Arp
begin

unbundle bit_operations_syntax

text \<open>
  The REST interface: the access check of \<^verbatim>\<open>app/src/api/auth.py\<close> and the handlers of
  \<^verbatim>\<open>app/src/api/server.py\<close>. An answer is a reply, an HTTP error, or an exception that the web framework
  turns into a server error.
\<close>

section \<open>Addresses and networks\<close>

text \<open>
  The IPv4 half of the \<^verbatim>\<open>ipaddress\<close> module: four decimal numbers without leading zeros, and a network
  with a prefix length, a netmask or a host mask. The IPv6 half is the pair of parsers \<open>v6_address\<close> and
  \<open>v6_network\<close> that the definitions take as arguments.
\<close>

definition ip4_octet :: "string \<Rightarrow> nat option" where
  "ip4_octet s =
     (if s \<noteq> [] \<and> list_all is_digit s \<and> length s \<le> 3 \<and> (s = ''0'' \<or> hd s \<noteq> CHR ''0'') \<and> dec_val s \<le> 255
      then Some (dec_val s) else None)"

definition ip4_address :: "string \<Rightarrow> nat option" where
  "ip4_address s =
     (case map ip4_octet (split_on CHR ''.'' s) of
        [Some a, Some b, Some c, Some d] \<Rightarrow> Some (((a * 256 + b) * 256 + c) * 256 + d)
      | _ \<Rightarrow> None)"

definition netmask_of :: "nat \<Rightarrow> nat" where
  "netmask_of p = 2 ^ 32 - 2 ^ (32 - p)"

definition prefix_from_mask :: "nat \<Rightarrow> nat option" where
  "prefix_from_mask m =
     (case find (\<lambda>p. netmask_of p = m) [0..<33] of
        Some p \<Rightarrow> Some p
      | None \<Rightarrow> find (\<lambda>p. netmask_of p = 2 ^ 32 - 1 - m) [0..<33])"

definition prefix_from_text :: "string \<Rightarrow> nat option" where
  "prefix_from_text s =
     (if s \<noteq> [] \<and> list_all is_digit s \<and> dec_val s \<le> 32 then Some (dec_val s)
      else Option.bind (ip4_address s) prefix_from_mask)"

definition ip4_network :: "string \<Rightarrow> (nat \<times> nat) option" where
  "ip4_network s =
     (case split_on CHR ''/'' s of
        [a] \<Rightarrow> map_option (\<lambda>n. (n, 32)) (ip4_address a)
      | [a, m] \<Rightarrow> Option.bind (ip4_address a) (\<lambda>n. map_option (\<lambda>p. (n div 2 ^ (32 - p) * 2 ^ (32 - p), p)) (prefix_from_text m))
      | _ \<Rightarrow> None)"

datatype ip_addr = V4 nat | V6 nat

definition ip_address :: "(string \<Rightarrow> nat option) \<Rightarrow> string \<Rightarrow> ip_addr option" where
  "ip_address v6_address s = (case ip4_address s of Some n \<Rightarrow> Some (V4 n) | None \<Rightarrow> map_option V6 (v6_address s))"

definition in_network :: "(string \<Rightarrow> (nat \<times> nat) option) \<Rightarrow> ip_addr \<Rightarrow> string \<Rightarrow> bool res" where
  "in_network v6_network ip cidr =
     (case ip4_network cidr of
        Some (net, p) \<Rightarrow> Inr (case ip of V4 n \<Rightarrow> n div 2 ^ (32 - p) * 2 ^ (32 - p) = net | V6 _ \<Rightarrow> False)
      | None \<Rightarrow>
          (case v6_network cidr of
             Some (net, p) \<Rightarrow> Inr (case ip of V6 n \<Rightarrow> n div 2 ^ (128 - p) * 2 ^ (128 - p) = net | V4 _ \<Rightarrow> False)
           | None \<Rightarrow> Inl ValueError))"

fun any_network :: "(string \<Rightarrow> (nat \<times> nat) option) \<Rightarrow> ip_addr \<Rightarrow> string list \<Rightarrow> bool res" where
  "any_network v6_network ip [] = Inr False"
| "any_network v6_network ip (cidr # rest) =
     bindE (in_network v6_network ip cidr) (\<lambda>b. if b then Inr True else any_network v6_network ip rest)"


section \<open>The access check\<close>

datatype api_error = Http int | Raised exn

type_synonym 'a api = "api_error + 'a"

definition raised :: "'a res \<Rightarrow> 'a api" where
  "raised r = (case r of Inl e \<Rightarrow> Inl (Raised e) | Inr x \<Rightarrow> Inr x)"

text \<open>
  What the framework hands over: the peer's host, the bearer token of the header and the token of the
  query string.
\<close>

record api_request =
  ar_client :: "string option"
  ar_bearer :: "string option"
  ar_query_token :: "string option"

record v6 =
  v6_address :: "string \<Rightarrow> nat option"
  v6_network :: "string \<Rightarrow> (nat \<times> nat) option"

definition client_ip :: "v6 \<Rightarrow> api_request \<Rightarrow> ip_addr option" where
  "client_ip six req =
     (case ar_client req of None \<Rightarrow> None | Some host \<Rightarrow> if host = [] then None else ip_address (v6_address six) host)"

definition check_list :: "v6 \<Rightarrow> api_config \<Rightarrow> api_request \<Rightarrow> unit api" where
  "check_list six cfg req =
     (if api_access_list cfg = [] then Inr ()
      else case client_ip six req of
             None \<Rightarrow> Inl (Http 403)
           | Some ip \<Rightarrow>
               (case any_network (v6_network six) ip (api_access_list cfg) of
                  Inl e \<Rightarrow> Inl (Raised e)
                | Inr allowed \<Rightarrow> if allowed then Inr () else Inl (Http 403)))"

definition check_token :: "api_config \<Rightarrow> api_request \<Rightarrow> unit api" where
  "check_token cfg req =
     (if api_token cfg \<noteq> [] \<and> ar_bearer req \<noteq> Some (api_token cfg) \<and> ar_query_token req \<noteq> Some (api_token cfg)
      then Inl (Http 401) else Inr ())"

definition check_auth :: "v6 \<Rightarrow> api_config \<Rightarrow> api_request \<Rightarrow> unit api" where
  "check_auth six cfg req = (case check_list six cfg req of Inl e \<Rightarrow> Inl e | Inr _ \<Rightarrow> check_token cfg req)"


section \<open>Handlers\<close>

datatype api_call =
    Get_status
  | List_sessions int int
  | Arping_session string
  | Get_session string
  | Update_session string session_update
  | Stream_traffic string rat

datatype api_reply =
    Status session_counts rat "backend_stats list" "backend_stats list"
  | Sessions "session_info list"
  | Session session_info
  | Updated "string list"
  | Arped arping_result
  | Streaming string rat

text \<open>
  The surroundings of a call: \<^verbatim>\<open>/proc/net/arp\<close>, the time since the start, the four clock readings of
  \<^verbatim>\<open>get_stats\<close> for each backend, and \<^verbatim>\<open>arping_sync\<close>.
\<close>

record api_env =
  en_arp :: "string list res"
  en_uptime :: rat
  en_clocks :: "nat \<Rightarrow> rat \<times> rat \<times> rat \<times> rat"
  en_arping :: "string \<Rightarrow> arping_result res"

definition base_of :: "any_backend \<Rightarrow> backend" where
  "base_of b = (case b of RadiusB rb \<Rightarrow> rb_base rb | MySQLB mb \<Rightarrow> mb_base mb)"

definition pool_stats :: "(nat \<Rightarrow> rat \<times> rat \<times> rat \<times> rat) \<Rightarrow> any_backend list \<Rightarrow> backend_stats list" where
  "pool_stats clocks pool =
     map (\<lambda>(b, now, t_ok, t_err, t_total). get_stats now t_ok t_err t_total (base_of b)) (with_env clocks pool)"

definition get_status :: "daemon \<Rightarrow> api_env \<Rightarrow> nlsock \<Rightarrow> api_reply api \<times> nlsock" where
  "get_status d env sk =
     (case fetch_counts sk of
        (Inl e, sk') \<Rightarrow> (Inl (Raised e), sk')
      | (Inr counts, sk') \<Rightarrow>
          (Inr (Status counts (en_uptime env) (pool_stats (en_clocks env) (d_auth_pool d))
                  (pool_stats (\<lambda>i. en_clocks env (length (d_auth_pool d) + i)) (d_acct_pool d))), sk'))"

definition list_sessions :: "int \<Rightarrow> int \<Rightarrow> api_env \<Rightarrow> nlsock \<Rightarrow> api_reply api \<times> nlsock" where
  "list_sessions limit offset env sk =
     (if limit < 1 \<or> 10000 < limit then (Inl (Http 422), sk)
      else if offset < 0 then (Inl (Http 422), sk)
      else case fetch_all (en_arp env) limit offset sk of
             (Inl e, sk') \<Rightarrow> (Inl (Raised e), sk')
           | (Inr rows, sk') \<Rightarrow> (Inr (Sessions rows), sk'))"

text \<open>\<^verbatim>\<open>s = sess.find_session(id)\<close>, with an error if there is none.\<close>

definition require_session :: "string \<Rightarrow> api_env \<Rightarrow> nlsock \<Rightarrow> session_info api \<times> nlsock" where
  "require_session ident env sk =
     (case find_session (en_arp env) ident sk of
        (Inl e, sk') \<Rightarrow> (Inl (Raised e), sk')
      | (Inr None, sk') \<Rightarrow> (Inl (Http 404), sk')
      | (Inr (Some s), sk') \<Rightarrow> (Inr s, sk'))"

definition get_session :: "string \<Rightarrow> api_env \<Rightarrow> nlsock \<Rightarrow> api_reply api \<times> nlsock" where
  "get_session ident env sk =
     (case require_session ident env sk of (Inl e, sk') \<Rightarrow> (Inl e, sk') | (Inr s, sk') \<Rightarrow> (Inr (Session s), sk'))"

definition run_arping :: "api_env \<Rightarrow> string \<Rightarrow> api_reply api" where
  "run_arping env ip =
     (case en_arping env ip of
        Inr r \<Rightarrow> Inr (Arped r)
      | Inl e \<Rightarrow>
          if is_oserror e
          then Inr (Arped \<lparr>ap_ip = ip, ap_iface = None, ap_reachable = False, ap_packets_sent = 0,
                           ap_packets_received = 0, ap_rtt_ms = [], ap_avg_rtt_ms = None\<rparr>)
          else Inl (Raised e))"

definition arping_session :: "string \<Rightarrow> api_env \<Rightarrow> nlsock \<Rightarrow> api_reply api \<times> nlsock" where
  "arping_session ident env sk =
     (if re_quad ident then (run_arping env ident, sk)
      else case require_session ident env sk of
             (Inl e, sk') \<Rightarrow> (Inl e, sk')
           | (Inr s, sk') \<Rightarrow> (run_arping env (si_ip s), sk'))"

definition update_session :: "string \<Rightarrow> session_update \<Rightarrow> api_env \<Rightarrow> nlsock \<Rightarrow> nlsock \<Rightarrow> api_reply api \<times> nlsock \<times> nlsock" where
  "update_session ident upd env sk sk2 =
     (if \<not> valid_update upd then (Inl (Http 422), sk, sk2)
      else if up_approve upd = None \<and> up_block upd = None \<and> up_in_kbps upd = None \<and> up_out_kbps upd = None
      then (Inl (Http 422), sk, sk2)
      else case require_session ident env sk of
             (Inl e, sk') \<Rightarrow> (Inl e, sk', sk2)
           | (Inr s, sk') \<Rightarrow>
               (case apply_update s upd sk2 of
                  (Inl e, sk2') \<Rightarrow> (Inl (Raised e), sk', sk2')
                | (Inr actions, sk2') \<Rightarrow> (Inr (Updated actions), sk', sk2')))"

definition stream_traffic :: "string \<Rightarrow> rat \<Rightarrow> api_reply api" where
  "stream_traffic ident interval = (if \<not> (1 / 2 \<le> interval \<and> interval \<le> 30) then Inl (Http 422) else Inr (Streaming ident interval))"

text \<open>
  The routes, each behind the access check. \<open>sk\<close> is the socket of the query and \<open>sk2\<close> the one of the
  update.
\<close>

definition route :: "daemon \<Rightarrow> api_call \<Rightarrow> api_env \<Rightarrow> nlsock \<Rightarrow> nlsock \<Rightarrow> api_reply api \<times> nlsock \<times> nlsock" where
  "route d call env sk sk2 =
     (case call of
        Get_status \<Rightarrow> (let (r, sk') = get_status d env sk in (r, sk', sk2))
      | List_sessions limit offset \<Rightarrow> (let (r, sk') = list_sessions limit offset env sk in (r, sk', sk2))
      | Arping_session ident \<Rightarrow> (let (r, sk') = arping_session ident env sk in (r, sk', sk2))
      | Get_session ident \<Rightarrow> (let (r, sk') = get_session ident env sk in (r, sk', sk2))
      | Update_session ident upd \<Rightarrow> update_session ident upd env sk sk2
      | Stream_traffic ident interval \<Rightarrow> (stream_traffic ident interval, sk, sk2))"

definition serve :: "v6 \<Rightarrow> api_config \<Rightarrow> daemon \<Rightarrow> api_request \<Rightarrow> api_call \<Rightarrow> api_env \<Rightarrow> nlsock \<Rightarrow> nlsock
    \<Rightarrow> api_reply api \<times> nlsock \<times> nlsock" where
  "serve six cfg d req call env sk sk2 =
     (case check_auth six cfg req of
        Inl e \<Rightarrow> (Inl e, sk, sk2)
      | Inr _ \<Rightarrow> route d call env sk sk2)"


section \<open>Networks\<close>

lemma split_on_none: "c \<notin> set s \<Longrightarrow> split_on c s = [s]"
  by (induction s) auto

lemma split_on_append: "c \<notin> set s \<Longrightarrow> split_on c (s @ c # t) = s # split_on c t"
  by (induction s) auto

lemma show_nat_no: "\<not> is_digit c \<Longrightarrow> c \<notin> set (show_nat n)"
  using show_nat_digits [of n] by (auto simp: list_all_iff)

lemma octet_show:
  assumes "n < 256"
  shows "ip4_octet (show_nat n) = Some n"
proof -
  have "length (show_nat n) \<le> 3"
  proof -
    have "n < 10 \<or> n div 10 < 10 \<or> n div 10 div 10 < 10" using assms by auto
    then show ?thesis
      by (subst show_nat.simps) (simp, intro impI, subst show_nat.simps, simp, intro impI, subst show_nat.simps, simp)
  qed
  moreover have "show_nat n = ''0'' \<or> hd (show_nat n) \<noteq> CHR ''0''"
    using show_nat_hd [of n] by (cases "n = 0") (simp_all add: show_nat.simps [of 0] digit_char_def)
  ultimately show ?thesis using assms show_nat_digits [of n] by (simp add: ip4_octet_def)
qed

definition dotted :: "nat \<Rightarrow> string" where
  "dotted n = show_nat (n div 2 ^ 24) @ ''.'' @ show_nat (n div 2 ^ 16 mod 256) @ ''.'' @ show_nat (n div 2 ^ 8 mod 256) @ ''.'' @ show_nat (n mod 256)"

lemma ip4_address_dotted:
  assumes "n < 2 ^ 32"
  shows "ip4_address (dotted n) = Some n"
proof -
  have dot: "CHR ''.'' \<notin> set (show_nat k)" for k by (rule show_nat_no) (simp add: is_digit_def)
  have s: "split_on CHR ''.'' (dotted n) = [show_nat (n div 2 ^ 24), show_nat (n div 2 ^ 16 mod 256), show_nat (n div 2 ^ 8 mod 256), show_nat (n mod 256)]"
    by (simp add: dotted_def split_on_append split_on_none dot)
  have "n div 2 ^ 24 < 256" using assms by (simp add: div_less_iff_less_mult)
  moreover have "((n div 2 ^ 24 * 256 + n div 2 ^ 16 mod 256) * 256 + n div 2 ^ 8 mod 256) * 256 + n mod 256 = n"
  proof -
    have "n div 2 ^ 24 = n div 2 ^ 16 div 256" "n div 2 ^ 16 = n div 2 ^ 8 div 256" "n div 2 ^ 8 = n div 256"
      by (simp_all flip: div_mult2_eq)
    then show ?thesis by (metis div_mult_mod_eq)
  qed
  ultimately show ?thesis by (simp add: ip4_address_def s octet_show)
qed

text \<open>
  An entry of the access list written as an address with a prefix length admits exactly the clients
  that share that many leading bits with it, and a host bit in the entry does not matter.
\<close>
theorem access_list_prefix:
  assumes "a < 2 ^ 32" "p \<le> 32"
  shows "in_network six (V4 n) (dotted a @ ''/'' @ show_nat p) = Inr (n div 2 ^ (32 - p) = a div 2 ^ (32 - p))"
proof -
  have slash: "CHR ''/'' \<notin> set (show_nat k)" for k by (rule show_nat_no) (simp add: is_digit_def)
  then have "split_on CHR ''/'' (dotted a @ ''/'' @ show_nat p) = [dotted a, show_nat p]"
    by (simp add: dotted_def split_on_append split_on_none flip: append_assoc) 
  moreover have "prefix_from_text (show_nat p) = Some p" using assms(2) show_nat_digits [of p] by (simp add: prefix_from_text_def)
  ultimately have "ip4_network (dotted a @ ''/'' @ show_nat p) = Some (a div 2 ^ (32 - p) * 2 ^ (32 - p), p)"
    using ip4_address_dotted [OF assms(1)] by (simp add: ip4_network_def)
  then show ?thesis by (simp add: in_network_def)
qed

theorem access_list_prefix_witness: "in_network (\<lambda>_. None) (V4 0x0A010203) (dotted 0x0A000000 @ ''/'' @ show_nat 8) = Inr True"
  using access_list_prefix [of "0x0A000000" 8] by simp


section \<open>Access\<close>

definition authorized :: "v6 \<Rightarrow> api_config \<Rightarrow> api_request \<Rightarrow> bool" where
  "authorized six cfg req \<longleftrightarrow>
     (api_access_list cfg = [] \<or> (\<exists>ip. client_ip six req = Some ip
        \<and> (\<exists>cidr \<in> set (api_access_list cfg). in_network (v6_network six) ip cidr = Inr True)))
     \<and> (api_token cfg = [] \<or> ar_bearer req = Some (api_token cfg) \<or> ar_query_token req = Some (api_token cfg))"

lemma any_network_True: "any_network six ip cidrs = Inr True \<Longrightarrow> \<exists>cidr \<in> set cidrs. in_network six ip cidr = Inr True"
  by (induction cidrs) (auto simp: bindE_eq_Inr split: if_splits)

lemma check_auth_sound: "check_auth six cfg req = Inr () \<Longrightarrow> authorized six cfg req"
  using any_network_True [of "v6_network six" _ "api_access_list cfg"]
  by (auto simp: check_auth_def check_list_def check_token_def authorized_def split: if_splits option.splits sum.splits)


definition reading :: "evdict \<Rightarrow> bool" where
  "reading ev \<longleftrightarrow> ev Ktype = Some (VInt EVENT_SESS_GETLIST) \<or> ev Ktype = Some (VInt EVENT_SESS_GETCOUNT)"

lemma sends_first_info [nl_rules]: "sends P (first_info arp test rows)"
  unfolding first_info_def by (cases "find test rows") (auto intro: nl_rules)

lemma queries_read: "sends reading fetch_counts" "sends reading (fetch_all arp limit offset)" "sends reading (find_session arp ident)"
  unfolding fetch_counts_def fetch_all_def find_session_def sess_getlist_def
  by (auto intro!: nl_rules simp: reading_def split: prod.split)

lemma sent_reading:
  assumes "sends reading q" "x \<in> set (new_messages sk (snd (q sk)))"
  shows "msg_type x = EVENT_SESS_GETLIST \<or> msg_type x = EVENT_SESS_GETCOUNT"
proof -
  from assms(1) obtain ms where "sk_sent (snd (q sk)) = sk_sent sk @ ms" "\<forall>y \<in> set ms. \<exists>ev. reading ev \<and> frame (sk_portid sk) ev = Inr y"
    unfolding sends_def sent_ok_def by blast
  with assms(2) obtain ev where ev: "reading ev" "frame (sk_portid sk) ev = Inr x" by (auto simp: new_messages_def)
  from ev(1) have "ev_type (blank ++ ev) = VInt EVENT_SESS_GETLIST \<or> ev_type (blank ++ ev) = VInt EVENT_SESS_GETCOUNT"
    by (auto simp: reading_def ev_type_def ev_get_def map_add_def)
  with frame_msg_type [OF ev(2)] show ?thesis by auto
qed

text \<open>What each query does to its socket: what the netlink operation inside it does, or nothing.\<close>

lemma query_sockets:
  "snd (get_status d env sk) = snd (fetch_counts sk)"
  "snd (list_sessions limit offset env sk) \<in> {sk, snd (fetch_all (en_arp env) limit offset sk)}"
  "snd (require_session ident env sk) = snd (find_session (en_arp env) ident sk)"
  "snd (get_session ident env sk) = snd (find_session (en_arp env) ident sk)"
  "snd (arping_session ident env sk) \<in> {sk, snd (find_session (en_arp env) ident sk)}"
proof -
  show r: "snd (require_session i env sk) = snd (find_session (en_arp env) i sk)" for i
    by (auto simp: require_session_def split: prod.splits sum.splits option.splits)
  show "snd (get_session ident env sk) = snd (find_session (en_arp env) ident sk)"
    using r [of ident] by (auto simp: get_session_def split: prod.splits sum.splits)
  show "snd (arping_session ident env sk) \<in> {sk, snd (find_session (en_arp env) ident sk)}"
    using r [of ident] by (auto simp: arping_session_def split: prod.splits sum.splits)
qed (auto simp: get_status_def list_sessions_def split: prod.splits sum.splits)

text \<open>
  Only an update can change a session: every other route sends nothing but requests for the list or
  the counters of the sessions, and none of them a message on the socket of an update.
\<close>
theorem api_queries_only_read:
  assumes "serve six cfg d req call env sk sk2 = (r, sk', sk2')" "\<nexists>ident upd. call = Update_session ident upd"
  shows "sk2' = sk2 \<and> (\<forall>m \<in> set (new_messages sk sk'). msg_type m = EVENT_SESS_GETLIST \<or> msg_type m = EVENT_SESS_GETCOUNT)"
proof -
  have none: "new_messages sk sk = []" by (simp add: new_messages_def)
  note reads = sent_reading [OF queries_read(1), of _ sk] sent_reading [OF queries_read(2), of _ sk] sent_reading [OF queries_read(3), of _ sk]
  show ?thesis
  proof (cases "check_auth six cfg req")
    case (Inl e)
    with assms(1) none show ?thesis by (simp add: serve_def)
  next
    case (Inr u)
    with assms(1) have rt: "route d call env sk sk2 = (r, sk', sk2')" by (simp add: serve_def)
    have "sk2' = sk2 \<and> (sk' = sk \<or> sk' = snd (fetch_counts sk) \<or> (\<exists>limit offset. sk' = snd (fetch_all (en_arp env) limit offset sk))
        \<or> (\<exists>ident. sk' = snd (find_session (en_arp env) ident sk)))"
    proof (cases call)
      case Get_status
      with rt query_sockets(1) [of d env sk] show ?thesis by (simp add: route_def split: prod.splits)
    next
      case (List_sessions limit offset)
      with rt query_sockets(2) [of limit offset env sk] show ?thesis by (auto simp: route_def split: prod.splits)
    next
      case (Arping_session ident)
      with rt query_sockets(5) [of ident env sk] show ?thesis by (auto simp: route_def split: prod.splits)
    next
      case (Get_session ident)
      with rt query_sockets(4) [of ident env sk] show ?thesis by (auto simp: route_def split: prod.splits)
    qed (use rt assms(2) in \<open>simp_all add: route_def\<close>)
    then show ?thesis using none by (auto dest: reads)
  qed
qed



section \<open>A request\<close>

definition sample_api :: api_config where
  "sample_api = \<lparr>api_enabled = True, api_host = ''0.0.0.0'', api_port = 8080, api_token = ''secret'', api_access_list = []\<rparr>"

definition sample_six :: v6 where
  "sample_six = \<lparr>v6_address = (\<lambda>_. None), v6_network = (\<lambda>_. None)\<rparr>"

definition sample_api_env :: api_env where
  "sample_api_env = \<lparr>en_arp = Inl OSError, en_uptime = 0, en_clocks = (\<lambda>_. (0, 0, 0, 0)), en_arping = (\<lambda>_. Inl OSError)\<rparr>"

definition token_request :: api_request where
  "token_request = \<lparr>ar_client = Some ''10.0.0.5'', ar_bearer = Some ''secret'', ar_query_token = None\<rparr>"


theorem api_queries_only_read_witness:
  "\<forall>m \<in> set (new_messages api_socket (fst (snd (serve sample_six sample_api (new_daemon gold_config None) token_request
      (Get_session ''0.0.0.1'') sample_api_env api_socket auth_socket)))). msg_type m = EVENT_SESS_GETLIST \<or> msg_type m = EVENT_SESS_GETCOUNT"
proof -
  obtain r sk' sk2' where run: "serve sample_six sample_api (new_daemon gold_config None) token_request
      (Get_session ''0.0.0.1'') sample_api_env api_socket auth_socket = (r, sk', sk2')" by (metis prod_cases3)
  from api_queries_only_read [OF run] run show ?thesis by simp
qed

end
