(* ===== verification/Monitor.thy ===== *)
theory Monitor
  imports Api_Sessions Py_Float
begin

unbundle bit_operations_syntax

text \<open>
  The terminal monitor, \<^verbatim>\<open>app/src/monitor.py\<close>: the search for the monitored session, the sampling of its
  counters, the hotkeys with their confirmation and input states, the system-wide view, and the shape of
  the graphs. The rows of the screen are in \<open>Screen\<close>; terminal settings are left out. Clock readings, rates
  and averages are rational numbers.
\<close>

section \<open>Session lookup\<close>

definition mon_match :: "nl_event \<Rightarrow> string \<Rightarrow> bool res" where
  "mon_match row arg =
     (case re_virtual arg of
        Some d \<Rightarrow> bindE (py_int (drop 7 arg)) (\<lambda>n. Inr (e_port_number row = n))
      | None \<Rightarrow>
          if re_quad arg then bindE (ip2long arg) (\<lambda>ip. Inr (e_ipaddr row = ip))
          else if re_hex16 arg then Inr (map upper_char (e_session_id row) = map upper_char arg)
          else Inr False)"

fun first_row :: "string \<Rightarrow> nl_event list \<Rightarrow> nl_event option res" where
  "first_row arg [] = Inr None"
| "first_row arg (r # rows) =
     (if e_type r = EVENT_SESS_INFO \<and> e_ipaddr r \<noteq> 0
      then bindE (mon_match r arg) (\<lambda>b. if b then Inr (Some r) else first_row arg rows)
      else first_row arg rows)"

definition mon_find :: "evdict \<Rightarrow> string \<Rightarrow> nl_event option nl" where
  "mon_find target_ev arg =
     nl_bind (get_list (target_ev(Ktype \<mapsto> VInt EVENT_SESS_GETLIST))) (\<lambda>(rows, _). nl_lift (first_row arg rows))"

text \<open>\<^verbatim>\<open>try: ... except OSError: d\<close>\<close>

definition or_else :: "'a nl \<Rightarrow> 'a \<Rightarrow> 'a nl" where
  "or_else m d = nl_catch m (\<lambda>e. if is_oserror e then nl_return d else nl_lift (Inl e))"

definition services_for :: "evdict \<Rightarrow> int \<Rightarrow> nl_event list nl" where
  "services_for target_ev parent_ipaddr =
     nl_bind (or_else (get_list (target_ev(Ktype \<mapsto> VInt EVENT_SERV_GETLIST))) ([], False)) (\<lambda>(rows, _).
       nl_return (filter (\<lambda>r. e_type r = EVENT_SESS_INFO \<and> e_service_name r \<noteq> None \<and> e_ipaddr r = parent_ipaddr) rows))"

definition svc_flags :: "nl_event \<Rightarrow> string" where
  "svc_flags ev =
     (let f = e_flags ev;
          s = (if f AND SERVICE_STATUS_ON \<noteq> 0 then ''O'' else []) @ (if f AND SERVICE_ONLINE \<noteq> 0 then ''U'' else [])
            @ (if f AND SERVICE_TAGGER \<noteq> 0 then ''T'' else []) @ (if f AND NO_ACCT \<noteq> 0 then ''Z'' else [])
      in if s = [] then ''-'' else s)"

fun arp_entry :: "string \<Rightarrow> string list \<Rightarrow> string" where
  "arp_entry ip [] = ''-''"
| "arp_entry ip (line # lines) =
     (let p = split_ws line in
      if 4 \<le> length p \<and> p ! 0 = ip \<and> p ! 3 \<noteq> ''00:00:00:00:00:00'' then p ! 3 else arp_entry ip lines)"

definition mac_of :: "string list res \<Rightarrow> nl_event \<Rightarrow> string res" where
  "mac_of proc_arp ev =
     (let raw = (case e_macaddr ev of None \<Rightarrow> [] | Some m \<Rightarrow> m) in
      if raw \<noteq> [] \<and> raw \<noteq> ''000000000000''
      then Inr (join '':'' (map (\<lambda>i. pyslice i (i + 2) (map lower_char raw)) [0, 2, 4, 6, 8, 10]))
      else bindE (long2ip (e_ipaddr ev)) (\<lambda>ip.
             case proc_arp of
               Inl e \<Rightarrow> if is_oserror e then Inr ''-'' else Inl e
             | Inr [] \<Rightarrow> Inl OtherError
             | Inr (_ # lines) \<Rightarrow> Inr (arp_entry ip lines)))"


section \<open>Graphs\<close>

definition LABEL_W :: int where "LABEL_W = 6"

text \<open>The index in the string of the nine blocks that a sample has in row \<open>r\<close> (0 is the bottom).\<close>

definition graph_cell :: "rat \<Rightarrow> nat \<Rightarrow> nat \<Rightarrow> rat \<Rightarrow> int" where
  "graph_cell ceil height r v =
     (let level = min (v / ceil) 1 * of_nat height in
      if of_nat r + 1 \<le> level then 8
      else if level \<le> of_nat r then 0
      else max 1 (min 8 (round_half_even ((level - of_nat r) * 8))))"

definition graph_block :: "rat list \<Rightarrow> rat \<Rightarrow> int \<Rightarrow> nat \<Rightarrow> int list list" where
  "graph_block samples ceil0 width height =
     (let bw = nat (max 10 (width - LABEL_W - 1));
          vals0 = drop (length samples - bw) samples;
          vals = replicate (bw - length vals0) 0 @ vals0;
          ceil = (if 0 < ceil0 then ceil0 else 1)
      in map (\<lambda>r. map (graph_cell ceil height r) vals) (rev [0..<height]))"

definition hist_stats :: "rat list \<Rightarrow> rat \<times> rat \<times> rat" where
  "hist_stats hist = (if hist = [] then (0, 0, 0) else (last hist, sum_list hist / of_nat (length hist), Max (set hist)))"

text \<open>\<^verbatim>\<open>cap or (max * 1.2 or 1)\<close>: the shaper's rate, or the largest sample with a fifth to spare.\<close>

definition graph_ceiling :: "int \<Rightarrow> rat list \<Rightarrow> rat" where
  "graph_ceiling cap hist =
     (let m = snd (snd (hist_stats hist)) * 6 / 5 in if cap \<noteq> 0 then of_int cap else if m \<noteq> 0 then m else 1)"


section \<open>The monitor of one session\<close>

datatype mon_status = Msg string | Failed string exn | ShaperSet rat rat

text \<open>
  \<open>mo_sess\<close> is the session of the last refresh. A pending confirmation always guards \<^verbatim>\<open>do_clear\<close>, so only
  its text is kept; \<open>mo_editing\<close> is the input buffer while a rate is typed.
\<close>

record monitor =
  mo_in_hist :: "rat list"
  mo_out_hist :: "rat list"
  mo_prev :: "(rat \<times> int \<times> int) option"
  mo_last_seen :: "nl_event option"
  mo_sess :: "nl_event option"
  mo_services :: "nl_event list"
  mo_status :: mon_status
  mo_pending :: "string option"
  mo_editing :: "string option"

definition new_monitor :: monitor where
  "new_monitor = \<lparr>mo_in_hist = [], mo_out_hist = [], mo_prev = None, mo_last_seen = None, mo_sess = None, mo_services = [],
     mo_status = Msg [], mo_pending = None, mo_editing = None\<rparr>"

definition HIST_LEN :: nat where "HIST_LEN = 400"

definition hist_push :: "rat \<Rightarrow> rat list \<Rightarrow> rat list" where
  "hist_push x h = (if length h < HIST_LEN then h else tl h) @ [x]"

definition rate_sample :: "rat \<Rightarrow> rat \<Rightarrow> int \<Rightarrow> int \<Rightarrow> rat" where
  "rate_sample t t0 b b0 = of_int (max (b - b0) 0) * 8 / max (t - t0) (1 / 1000000)"

definition mon_sample :: "rat \<Rightarrow> nl_event \<Rightarrow> monitor \<Rightarrow> monitor" where
  "mon_sample t sess m =
     (case mo_prev m of
        None \<Rightarrow> m
      | Some (t0, ib, ob) \<Rightarrow>
          m\<lparr>mo_in_hist := hist_push (rate_sample t t0 (e_in_bytes sess) ib) (mo_in_hist m),
            mo_out_hist := hist_push (rate_sample t t0 (e_out_bytes sess) ob) (mo_out_hist m)\<rparr>)"

definition mon_refresh :: "evdict \<Rightarrow> string \<Rightarrow> rat \<Rightarrow> monitor \<Rightarrow> monitor nl" where
  "mon_refresh target_ev arg t m =
     nl_bind (mon_find target_ev arg) (\<lambda>found.
       case found of
         None \<Rightarrow> nl_return (m\<lparr>mo_sess := None, mo_services := []\<rparr>)
       | Some sess \<Rightarrow>
           nl_bind (services_for target_ev (e_ipaddr sess)) (\<lambda>services.
             nl_return ((mon_sample t sess m)
               \<lparr>mo_sess := Some sess, mo_last_seen := Some sess, mo_services := services,
                mo_prev := Some (t, e_in_bytes sess, e_out_bytes sess)\<rparr>)))"

text \<open>\<^verbatim>\<open>try: ... except OSError as e: return f'...: {e}'\<close>, the text becoming the status.\<close>

definition or_failed :: "string \<Rightarrow> monitor \<Rightarrow> monitor nl \<Rightarrow> monitor nl" where
  "or_failed what m act =
     nl_catch act (\<lambda>e. if is_oserror e then nl_return (m\<lparr>mo_status := Failed what e\<rparr>) else nl_lift (Inl e))"

definition do_clear :: "evdict \<Rightarrow> monitor \<Rightarrow> monitor nl" where
  "do_clear target_ev m =
     or_failed ''clear failed'' m
       (nl_bind (send_event (target_ev(Ktype \<mapsto> VInt EVENT_SESS_CLEAR))) (\<lambda>_.
         nl_return (m\<lparr>mo_in_hist := [], mo_out_hist := [], mo_prev := None, mo_status := Msg ''session cleared''\<rparr>)))"

definition do_approve :: "evdict \<Rightarrow> monitor \<Rightarrow> monitor nl" where
  "do_approve target_ev m =
     or_failed ''approve failed'' m
       (nl_bind (send_only (target_ev(Ktype \<mapsto> VInt EVENT_SESS_APPROVE))) (\<lambda>_.
         nl_return (m\<lparr>mo_status := Msg ''session approved''\<rparr>)))"

text \<open>\<^verbatim>\<open>re.findall(r'\d+(?:\.\d+)?', buf)\<close>: the digits before and after the point of each number.\<close>

function find_nums :: "string \<Rightarrow> (string \<times> string) list" where
  "find_nums s =
     (let t = dropWhile (\<lambda>c. \<not> is_digit c) s; a = takeWhile is_digit t; r = dropWhile is_digit t in
      if t = [] then []
      else if 2 \<le> length r \<and> r ! 0 = CHR ''.'' \<and> is_digit (r ! 1)
      then (a, takeWhile is_digit (tl r)) # find_nums (dropWhile is_digit (tl r))
      else (a, []) # find_nums r)"
  by pat_completeness auto

termination
proof (relation "measure length")
  show "wf (measure (length :: string \<Rightarrow> nat))" by simp
next
  fix s t a r :: string
  assume d: "t = dropWhile (\<lambda>c. \<not> is_digit c) s" "r = dropWhile is_digit t" "t \<noteq> []"
  then have "is_digit (hd t)" using hd_dropWhile by blast
  with d(2,3) have "length r < length t" by (cases t) (auto simp: less_Suc_eq_le length_dropWhile_le)
  then have "length r < length s" unfolding d(1) using length_dropWhile_le [of "\<lambda>c. \<not> is_digit c" s] by (rule less_le_trans)
  then show "(dropWhile is_digit (tl r), s) \<in> measure length" "(r, s) \<in> measure length"
    using length_dropWhile_le [of is_digit "tl r"] by simp_all
qed

declare find_nums.simps [simp del]

definition num_value :: "string \<times> string \<Rightarrow> rat" where
  "num_value n = of_nat (dec_val (fst n @ snd n)) / 10 ^ length (snd n)"

text \<open>\<^verbatim>\<open>int(float(s) * 1_000_000)\<close>; an infinite product has no integer part.\<close>

definition mbit :: "string \<times> string \<Rightarrow> int res" where
  "mbit n =
     (let x = to_double (num_value n) in
      if float_overflow (num_value n) \<or> float_overflow (x * 1000000) then Inl OtherError
      else Inr (py_trunc (to_double (x * 1000000))))"

definition rate_event :: "evdict \<Rightarrow> int \<Rightarrow> int \<Rightarrow> evdict res" where
  "rate_event target_ev in_r out_r =
     bindE (int_times_1_5 in_r) (\<lambda>in_b.
     bindE (int_times_1_5 out_r) (\<lambda>out_b.
       Inr (target_ev(Ktype \<mapsto> VInt EVENT_SESS_CHANGE, Kin_rate \<mapsto> VInt in_r, Kin_burst \<mapsto> VInt in_b,
                      Kout_rate \<mapsto> VInt out_r, Kout_burst \<mapsto> VInt out_b))))"

definition set_rates :: "evdict \<Rightarrow> string \<times> string \<Rightarrow> string \<times> string \<Rightarrow> monitor \<Rightarrow> monitor nl" where
  "set_rates target_ev a b m =
     nl_bind (nl_lift (mbit a)) (\<lambda>in_r.
     nl_bind (nl_lift (mbit b)) (\<lambda>out_r.
       or_failed ''shaper change failed'' m
         (nl_bind (nl_lift (rate_event target_ev in_r out_r)) (\<lambda>ev.
          nl_bind (send_event ev) (\<lambda>_.
            nl_return (m\<lparr>mo_status := ShaperSet (to_double (num_value a)) (to_double (num_value b))\<rparr>))))))"

definition apply_rate :: "evdict \<Rightarrow> string \<Rightarrow> monitor \<Rightarrow> monitor nl" where
  "apply_rate target_ev buf m =
     (case find_nums buf of
        [a] \<Rightarrow> set_rates target_ev a a m
      | [a, b] \<Rightarrow> set_rates target_ev a b m
      | _ \<Rightarrow> nl_return (m\<lparr>mo_status := Msg ''shaper: enter \"<mbit>\" or \"<in> <out>\"''\<rparr>))"

text \<open>
  One character from the terminal; at the end of the input \<^verbatim>\<open>read\<close> gives the empty text, which \<^verbatim>\<open>in ' ,/'\<close>
  accepts.
\<close>

datatype key_result = Quit | Redraw monitor | Ignored

definition edit_key :: "evdict \<Rightarrow> string \<Rightarrow> string \<Rightarrow> monitor \<Rightarrow> monitor nl" where
  "edit_key target_ev buf ch m =
     (if ch = [CHR 0x0D] \<or> ch = [CHR 0x0A] then
        nl_bind (apply_rate target_ev buf m) (\<lambda>m'. nl_return (m'\<lparr>mo_editing := None\<rparr>))
      else if ch = [CHR 0x1B] then nl_return (m\<lparr>mo_status := Msg ''rate edit cancelled'', mo_editing := None\<rparr>)
      else if ch = [CHR 0x7F] \<or> ch = [CHR 0x08] then nl_return (m\<lparr>mo_editing := Some (butlast buf)\<rparr>)
      else if list_all is_digit ch \<or> ch = ''.'' \<or> ch = '' '' \<or> ch = '','' \<or> ch = ''/''
      then nl_return (m\<lparr>mo_editing := Some (buf @ (if ch = [] \<or> ch = '','' \<or> ch = ''/'' then '' '' else ch))\<rparr>)
      else nl_return m)"

definition mon_key :: "evdict \<Rightarrow> string \<Rightarrow> string \<Rightarrow> monitor \<Rightarrow> key_result nl" where
  "mon_key target_ev arg ch m =
     (case mo_editing m of
        Some buf \<Rightarrow> nl_bind (edit_key target_ev buf ch m) (\<lambda>m'. nl_return (Redraw m'))
      | None \<Rightarrow>
          if mo_pending m \<noteq> None then
            nl_bind (if ch = ''y'' \<or> ch = ''Y'' then do_clear target_ev m
                     else nl_return (m\<lparr>mo_status := Msg ''cancelled''\<rparr>)) (\<lambda>m'.
              nl_return (Redraw (m'\<lparr>mo_pending := None\<rparr>)))
          else if ch = ''q'' \<or> ch = ''Q'' \<or> ch = [CHR 0x03] then nl_return Quit
          else if ch = ''c'' \<or> ch = ''C'' then
            nl_return (Redraw (m\<lparr>mo_pending := Some (''Clear session '' @ [CHR 0x27] @ arg @ [CHR 0x27] @ '' ?''), mo_status := Msg []\<rparr>))
          else if ch = ''a'' \<or> ch = ''A'' then
            (case mo_sess m of
               None \<Rightarrow> nl_return (Redraw (m\<lparr>mo_status := Msg ''no active session''\<rparr>))
             | Some sess \<Rightarrow>
                 if e_flags sess AND IS_APPROVED_SESSION \<noteq> 0
                 then nl_return (Redraw (m\<lparr>mo_pending := Some (''Block (disconnect) '' @ [CHR 0x27] @ arg @ [CHR 0x27] @ '' ?'')\<rparr>))
                 else nl_bind (do_approve target_ev m) (\<lambda>m'. nl_return (Redraw m')))
          else if ch = ''s'' \<or> ch = ''S'' then nl_return (Redraw (m\<lparr>mo_editing := Some []\<rparr>))
          else if ch = ''r'' \<or> ch = ''R'' then
            nl_return (Redraw (m\<lparr>mo_in_hist := [], mo_out_hist := [], mo_prev := None, mo_status := Msg ''graph reset''\<rparr>))
          else nl_return Ignored)"

text \<open>
  The loop as the sequence of its inputs: a refresh at a clock reading, or a key. A refresh follows
  every key that asks for a redraw, and every deadline. An \<^verbatim>\<open>OSError\<close> or a keyboard interrupt ends the
  monitor with status 0, any other exception leaves it.
\<close>

datatype mon_input = Refresh rat | Key string

datatype 'm mon_end = Exit int | Crash exn | Running 'm

definition ended :: "exn \<Rightarrow> 'm mon_end" where
  "ended e = (if e = KeyboardInterrupt \<or> is_oserror e then Exit 0 else Crash e)"

definition mon_step :: "evdict \<Rightarrow> string \<Rightarrow> mon_input \<Rightarrow> monitor \<Rightarrow> nlsock \<Rightarrow> monitor mon_end \<times> nlsock" where
  "mon_step target_ev arg inp m s =
     (case inp of
        Refresh t \<Rightarrow> (case mon_refresh target_ev arg t m s of (Inl e, s') \<Rightarrow> (ended e, s') | (Inr m', s') \<Rightarrow> (Running m', s'))
      | Key ch \<Rightarrow>
          (case mon_key target_ev arg ch m s of
             (Inl e, s') \<Rightarrow> (ended e, s')
           | (Inr Quit, s') \<Rightarrow> (Exit 0, s')
           | (Inr (Redraw m'), s') \<Rightarrow> (Running m', s')
           | (Inr Ignored, s') \<Rightarrow> (Running m, s')))"

fun mon_run :: "evdict \<Rightarrow> string \<Rightarrow> mon_input list \<Rightarrow> monitor \<Rightarrow> nlsock \<Rightarrow> monitor mon_end \<times> nlsock" where
  "mon_run target_ev arg [] m s = (Running m, s)"
| "mon_run target_ev arg (inp # inps) m s =
     (case mon_step target_ev arg inp m s of
        (Running m', s') \<Rightarrow> mon_run target_ev arg inps m' s'
      | (fin, s') \<Rightarrow> (fin, s'))"


section \<open>The system-wide monitor\<close>

record gmonitor =
  gm_in_hist :: "rat list"
  gm_out_hist :: "rat list"
  gm_prev_total :: "(int \<times> int) option"
  gm_prev_top :: "(int, int \<times> int) odict"
  gm_prev_t :: rat
  gm_top_rates :: "(int \<times> rat \<times> rat) list"
  gm_counts :: "session_counts option"

definition new_gmonitor :: gmonitor where
  "new_gmonitor = \<lparr>gm_in_hist = [], gm_out_hist = [], gm_prev_total = None, gm_prev_top = [], gm_prev_t = 0,
     gm_top_rates = [], gm_counts = None\<rparr>"

definition global_counts :: "nl_event \<Rightarrow> session_counts" where
  "global_counts rep =
     (let act = s32 (ntohl (e_ipaddr rep)); unap = \<bar>s32 (ntohl (e_nat_ipaddr rep))\<bar>;
          dying = e_port_number rep; noacc = e_alive_interval rep
      in \<lparr>sc_approved = max 0 (act - noacc), sc_unapproved = unap, sc_dying = dying, sc_no_accounting = noacc,
          sc_total = act + unap + dying\<rparr>)"

definition total_sample :: "rat \<Rightarrow> nl_event \<Rightarrow> gmonitor \<Rightarrow> gmonitor" where
  "total_sample t tot g =
     (case gm_prev_total g of
        Some (ib, ob) \<Rightarrow>
          if 0 < gm_prev_t g
          then g\<lparr>gm_in_hist := hist_push (rate_sample t (gm_prev_t g) (e_in_bytes tot) ib) (gm_in_hist g),
                 gm_out_hist := hist_push (rate_sample t (gm_prev_t g) (e_out_bytes tot) ob) (gm_out_hist g)\<rparr>
          else g
      | None \<Rightarrow> g)\<lparr>gm_prev_total := Some (e_in_bytes tot, e_out_bytes tot)\<rparr>"

definition new_top :: "nl_event list \<Rightarrow> (int, int \<times> int) odict" where
  "new_top top_sess = foldl (\<lambda>d r. AList.update (e_ipaddr r) (e_in_bytes r, e_out_bytes r) d) [] top_sess"

definition cur_rate :: "rat \<Rightarrow> gmonitor \<Rightarrow> (int, rat \<times> rat) odict \<Rightarrow> nl_event \<Rightarrow> (int, rat \<times> rat) odict" where
  "cur_rate t g d r =
     (case map_of (gm_prev_top g) (e_ipaddr r) of
        Some (ib, ob) \<Rightarrow>
          if 0 < gm_prev_t g
          then AList.update (e_ipaddr r) (rate_sample t (gm_prev_t g) (e_in_bytes r) ib, rate_sample t (gm_prev_t g) (e_out_bytes r) ob) d
          else d
      | None \<Rightarrow> d)"

definition throughput :: "int \<times> rat \<times> rat \<Rightarrow> rat" where
  "throughput kv = fst (snd kv) + snd (snd kv)"

text \<open>\<^verbatim>\<open>sorted(..., reverse=True)\<close> keeps the order of equal elements.\<close>

definition rank_rates :: "(int \<times> rat \<times> rat) list \<Rightarrow> (int \<times> rat \<times> rat) list" where
  "rank_rates rates = sort_key (\<lambda>kv. - throughput kv) rates"

definition global_sample :: "rat \<Rightarrow> totals \<Rightarrow> gmonitor \<Rightarrow> gmonitor" where
  "global_sample t totals g =
     (case fst totals of
        None \<Rightarrow> g
      | Some tot \<Rightarrow>
          (total_sample t tot g)
            \<lparr>gm_top_rates := rank_rates (foldl (cur_rate t g) [] (snd totals)), gm_prev_top := new_top (snd totals), gm_prev_t := t\<rparr>)"

definition global_refresh :: "rat \<Rightarrow> gmonitor \<Rightarrow> gmonitor nl" where
  "global_refresh t g =
     nl_bind (or_else (nl_bind (send_event [Ktype \<mapsto> VInt EVENT_SESS_GETCOUNT]) (\<lambda>rep. nl_return (Some (global_counts rep)))) (gm_counts g)) (\<lambda>counts.
     nl_bind (or_else get_totals (None, [])) (\<lambda>totals.
       nl_return (global_sample t totals (g\<lparr>gm_counts := counts\<rparr>))))"

text \<open>\<^verbatim>\<open>prev_bytes\<close> is defined nowhere: the reset raises \<^verbatim>\<open>NameError\<close> after it has cleared the histories.\<close>

definition global_key :: "string \<Rightarrow> gmonitor \<Rightarrow> gmonitor mon_end" where
  "global_key ch g =
     (if ch = ''q'' \<or> ch = ''Q'' \<or> ch = [CHR 0x03] then Exit 0
      else if ch = ''r'' \<or> ch = ''R'' then ended NameError
      else Running g)"

definition global_step :: "mon_input \<Rightarrow> gmonitor \<Rightarrow> nlsock \<Rightarrow> gmonitor mon_end \<times> nlsock" where
  "global_step inp g s =
     (case inp of
        Refresh t \<Rightarrow> (case global_refresh t g s of (Inl e, s') \<Rightarrow> (ended e, s') | (Inr g', s') \<Rightarrow> (Running g', s'))
      | Key ch \<Rightarrow> (global_key ch g, s))"

fun global_run :: "mon_input list \<Rightarrow> gmonitor \<Rightarrow> nlsock \<Rightarrow> gmonitor mon_end \<times> nlsock" where
  "global_run [] g s = (Running g, s)"
| "global_run (inp # inps) g s =
     (case global_step inp g s of (Running g', s') \<Rightarrow> global_run inps g' s' | (fin, s') \<Rightarrow> (fin, s'))"


section \<open>What the keys send\<close>

text \<open>The event a key may send, by the state it is pressed in.\<close>

definition key_event :: "evdict \<Rightarrow> string \<Rightarrow> monitor \<Rightarrow> evdict \<Rightarrow> bool" where
  "key_event target ch m ev =
     (case mo_editing m of
        Some buf \<Rightarrow> (ch = [CHR 0x0D] \<or> ch = [CHR 0x0A]) \<and> (\<exists>in_r out_r. rate_event target in_r out_r = Inr ev)
      | None \<Rightarrow>
          if mo_pending m \<noteq> None then (ch = ''y'' \<or> ch = ''Y'') \<and> ev = target(Ktype \<mapsto> VInt EVENT_SESS_CLEAR)
          else (ch = ''a'' \<or> ch = ''A'') \<and> (\<exists>sess. mo_sess m = Some sess \<and> e_flags sess AND IS_APPROVED_SESSION = 0)
             \<and> ev = target(Ktype \<mapsto> VInt EVENT_SESS_APPROVE))"

lemma sends_or_failed [nl_rules]: "sends P act \<Longrightarrow> sends P (or_failed what m act)"
  unfolding or_failed_def by (intro nl_rules)

lemma sends_or_else [nl_rules]: "sends P act \<Longrightarrow> sends P (or_else act d)"
  unfolding or_else_def by (intro nl_rules)

lemma sends_lift_bind:
  assumes "\<And>x. r = Inr x \<Longrightarrow> sends P (f x)"
  shows "sends P (nl_bind (nl_lift r) f)"
  by (rule sends_bind_post [where Q = "\<lambda>x. r = Inr x"]) (auto simp: lift_Inr intro: nl_rules assms)

lemma sends_apply_rate:
  "(\<And>in_r out_r ev. rate_event target in_r out_r = Inr ev \<Longrightarrow> P ev) \<Longrightarrow> sends P (apply_rate target buf m)"
  unfolding apply_rate_def set_rates_def
  by (auto split: list.split intro!: nl_rules sends_lift_bind)

lemma sends_mon_key: "sends (key_event target ch m) (mon_key target arg ch m)"
proof (cases "mo_editing m")
  case (Some buf)
  have "sends (key_event target ch m) (edit_key target buf ch m)"
    unfolding edit_key_def using Some by (intro nl_rules sends_apply_rate) (auto simp: key_event_def)
  with Some show ?thesis by (auto simp: mon_key_def intro: nl_rules)
next
  case None
  show ?thesis
  proof (cases "mo_pending m = None")
    case False
    with None show ?thesis
      unfolding mon_key_def do_clear_def by (auto simp: key_event_def intro!: nl_rules)
  next
    case True
    then show ?thesis using None
      unfolding mon_key_def do_approve_def
      by (auto simp: key_event_def intro!: nl_rules split: option.splits)
  qed
qed

lemma sends_mon_refresh:
  "sends (\<lambda>ev. ev = target(Ktype \<mapsto> VInt EVENT_SESS_GETLIST) \<or> ev = target(Ktype \<mapsto> VInt EVENT_SERV_GETLIST)) (mon_refresh target arg t m)"
  unfolding mon_refresh_def mon_find_def services_for_def
  by (intro nl_rules) (auto split: option.splits prod.splits intro!: nl_rules)

lemma sends_new:
  assumes "sends P act" "act s = (r, s')" "x \<in> set (new_messages s s')"
  shows "\<exists>ev. P ev \<and> frame (sk_portid s) ev = Inr x"
proof (rule sent_ok_new [OF _ assms(3)])
  show "sent_ok P s s'" using assms(1,2) unfolding sends_def by (metis snd_conv)
qed

text \<open>The type of a message is that of the event it frames.\<close>

lemma sends_types:
  assumes "sends (\<lambda>ev. \<exists>t. ev Ktype = Some (VInt t) \<and> P t ev) act" "act s = (r, s')" "x \<in> set (new_messages s s')"
  shows "\<exists>ev. frame (sk_portid s) ev = Inr x \<and> ev Ktype = Some (VInt (msg_type x)) \<and> P (msg_type x) ev"
proof -
  from sends_new [OF assms] obtain ev t where ev: "ev Ktype = Some (VInt t)" "P t ev" "frame (sk_portid s) ev = Inr x" by blast
  from ev(1) have "ev_type (blank ++ ev) = VInt t" by (simp add: ev_type_def ev_get_def map_add_def)
  with frame_msg_type [OF ev(3)] have "msg_type x = t" by simp
  with ev show ?thesis by blast
qed

section \<open>Confirmation\<close>

definition asks :: "string option \<Rightarrow> bool" where
  "asks k \<longleftrightarrow> k = Some ''c'' \<or> k = Some ''C'' \<or> k = Some ''a'' \<or> k = Some ''A''"

text \<open>\<open>k\<close> is the last key that was pressed.\<close>

definition guarded :: "string option \<Rightarrow> monitor \<Rightarrow> bool" where
  "guarded k m \<longleftrightarrow> (mo_pending m \<noteq> None \<longrightarrow> mo_editing m = None \<and> asks k)"

fun last_key :: "string option \<Rightarrow> mon_input list \<Rightarrow> string option" where
  "last_key k [] = k"
| "last_key k (Refresh t # inps) = last_key k inps"
| "last_key k (Key ch # inps) = last_key (Some ch) inps"

text \<open>\<open>keeps P act\<close>: what the operation returns satisfies \<open>P\<close>.\<close>

definition keeps :: "('a \<Rightarrow> bool) \<Rightarrow> 'a nl \<Rightarrow> bool" where
  "keeps P act \<longleftrightarrow> (\<forall>s x s'. act s = (Inr x, s') \<longrightarrow> P x)"

named_theorems keep_rules \<open>rules for the results of netlink operations\<close>

lemma keeps_return [keep_rules]: "P x \<Longrightarrow> keeps P (nl_return x)"
  by (simp add: keeps_def nl_return_def)

lemma keeps_error [keep_rules]: "keeps P (nl_lift (Inl e))"
  by (simp add: keeps_def nl_lift_def)

lemma keeps_any: "keeps (\<lambda>_. True) act"
  by (simp add: keeps_def)

lemma keeps_bind: "keeps Q act \<Longrightarrow> (\<And>x. Q x \<Longrightarrow> keeps P (f x)) \<Longrightarrow> keeps P (nl_bind act f)"
  unfolding keeps_def by (blast elim: bind_Inr)

lemma keeps_then [keep_rules]: "(\<And>x. keeps P (f x)) \<Longrightarrow> keeps P (nl_bind act f)"
  by (rule keeps_bind [OF keeps_any])

lemma keeps_catch [keep_rules]: "keeps P act \<Longrightarrow> (\<And>e. keeps P (h e)) \<Longrightarrow> keeps P (nl_catch act h)"
  unfolding keeps_def nl_catch_def by (auto split: prod.splits sum.splits)

lemma keeps_if [keep_rules]: "(b \<Longrightarrow> keeps P act) \<Longrightarrow> (\<not> b \<Longrightarrow> keeps P act') \<Longrightarrow> keeps P (if b then act else act')"
  by simp

lemma keeps_or_failed [keep_rules]:
  "(\<And>e. P (m\<lparr>mo_status := Failed what e\<rparr>)) \<Longrightarrow> keeps P act \<Longrightarrow> keeps P (or_failed what m act)"
  unfolding or_failed_def by (intro keep_rules)

text \<open>The histories: as long as each other, bounded, and never negative.\<close>

definition hist_ok :: "monitor \<Rightarrow> bool" where
  "hist_ok m \<longleftrightarrow> length (mo_in_hist m) = length (mo_out_hist m) \<and> length (mo_in_hist m) \<le> HIST_LEN
     \<and> (\<forall>x \<in> set (mo_in_hist m) \<union> set (mo_out_hist m). 0 \<le> x)"

lemma hist_ok_other [simp]:
  "hist_ok (m\<lparr>mo_prev := a\<rparr>) = hist_ok m" "hist_ok (m\<lparr>mo_last_seen := b\<rparr>) = hist_ok m" "hist_ok (m\<lparr>mo_sess := b\<rparr>) = hist_ok m"
  "hist_ok (m\<lparr>mo_services := d\<rparr>) = hist_ok m" "hist_ok (m\<lparr>mo_status := e\<rparr>) = hist_ok m"
  "hist_ok (m\<lparr>mo_pending := f\<rparr>) = hist_ok m" "hist_ok (m\<lparr>mo_editing := f\<rparr>) = hist_ok m"
  by (simp_all add: hist_ok_def)

text \<open>What an action leaves alone.\<close>

definition same_mode :: "monitor \<Rightarrow> monitor \<Rightarrow> bool" where
  "same_mode m m' \<longleftrightarrow> mo_pending m' = mo_pending m \<and> mo_editing m' = mo_editing m \<and> (hist_ok m \<longrightarrow> hist_ok m')"

lemma keeps_actions:
  "keeps (same_mode m) (do_clear target m)" "keeps (same_mode m) (do_approve target m)" "keeps (same_mode m) (apply_rate target buf m)"
proof -
  show "keeps (same_mode m) (do_clear target m)" "keeps (same_mode m) (do_approve target m)"
    unfolding do_clear_def do_approve_def by (intro keep_rules; simp add: same_mode_def hist_ok_def)+
  have "keeps (same_mode m) (set_rates target a b m)" for a b
    unfolding set_rates_def by (intro keep_rules; simp add: same_mode_def hist_ok_def)
  then show "keeps (same_mode m) (apply_rate target buf m)"
    unfolding apply_rate_def by (auto split: list.split intro!: keep_rules simp: same_mode_def hist_ok_def)
qed

text \<open>The modes after a key.\<close>

definition key_ok :: "string option \<Rightarrow> string \<Rightarrow> monitor \<Rightarrow> key_result \<Rightarrow> bool" where
  "key_ok k ch m r =
     (case r of
        Redraw m' \<Rightarrow> (guarded k m \<longrightarrow> guarded (Some ch) m') \<and> (hist_ok m \<longrightarrow> hist_ok m')
      | Ignored \<Rightarrow> mo_pending m = None
      | Quit \<Rightarrow> True)"

lemma keeps_edit_key:
  "keeps (\<lambda>m'. mo_pending m' = mo_pending m \<and> (hist_ok m \<longrightarrow> hist_ok m')) (edit_key target buf ch m)"
  unfolding edit_key_def
  by (intro keeps_if keeps_bind [OF keeps_actions(3)] keep_rules) (auto simp: same_mode_def hist_ok_def)

lemma keeps_mon_key: "keeps (key_ok k ch m) (mon_key target arg ch m)"
proof (cases "mo_editing m")
  case (Some buf)
  have "keeps (key_ok k ch m) (nl_bind (edit_key target buf ch m) (\<lambda>m'. nl_return (Redraw m')))"
    by (rule keeps_bind [OF keeps_edit_key]) (use Some in \<open>auto simp: key_ok_def guarded_def intro!: keep_rules\<close>)
  with Some show ?thesis by (simp add: mon_key_def)
next
  case None
  show ?thesis
  proof (cases "mo_pending m = None")
    case False
    have act: "keeps (\<lambda>m'. hist_ok m \<longrightarrow> hist_ok m')
        (if ch = ''y'' \<or> ch = ''Y'' then do_clear target m else nl_return (m\<lparr>mo_status := Msg ''cancelled''\<rparr>))"
      using keeps_actions(1) [of m target] by (auto simp: same_mode_def keeps_def nl_return_def)
    have "keeps (key_ok k ch m) (nl_bind (if ch = ''y'' \<or> ch = ''Y'' then do_clear target m else nl_return (m\<lparr>mo_status := Msg ''cancelled''\<rparr>))
        (\<lambda>m'. nl_return (Redraw (m'\<lparr>mo_pending := None\<rparr>))))"
      by (rule keeps_bind [OF act]) (auto simp: key_ok_def guarded_def intro: keep_rules)
    with False None show ?thesis by (simp add: mon_key_def)
  next
    case True
    have act: "keeps (\<lambda>m'. mo_pending m' = None \<and> (hist_ok m \<longrightarrow> hist_ok m')) (do_approve target m)"
      using keeps_actions(2) [of m target] True by (auto simp: same_mode_def keeps_def)
    have "keeps (key_ok k ch m) (nl_bind (do_approve target m) (\<lambda>m'. nl_return (Redraw m')))"
      by (rule keeps_bind [OF act]) (auto simp: key_ok_def guarded_def intro: keep_rules)
    note approve = this
    show ?thesis
    proof (cases "mo_sess m")
      case sess: None
      show ?thesis unfolding mon_key_def None True sess option.case
        by (simp only: simp_thms if_False, intro keep_rules; auto simp: key_ok_def guarded_def asks_def True None hist_ok_def)
    next
      case sess: (Some e)
      show ?thesis unfolding mon_key_def None True sess option.case
        by (simp only: simp_thms if_False, intro keeps_if approve keeps_return; auto simp: key_ok_def guarded_def asks_def True None hist_ok_def)
    qed
  qed
qed

lemma hist_push_length: "length (hist_push x h) = (if length h < HIST_LEN then Suc (length h) else max 1 (length h))"
  by (cases h) (auto simp: hist_push_def)

lemma hist_push_set: "set (hist_push x h) \<subseteq> insert x (set h)"
  by (cases h) (auto simp: hist_push_def)

lemma rate_sample_nonneg: "0 \<le> rate_sample t t0 b b0"
  by (simp add: rate_sample_def max_def)

lemma mon_sample_ok: "hist_ok m \<Longrightarrow> hist_ok (mon_sample t sess m)"
  using hist_push_set rate_sample_nonneg
  by (fastforce simp: mon_sample_def hist_ok_def hist_push_length HIST_LEN_def split: option.split)

lemma mon_sample_mode [simp]: "mo_pending (mon_sample t sess m) = mo_pending m" "mo_editing (mon_sample t sess m) = mo_editing m"
  by (auto simp: mon_sample_def split: option.split)

lemma keeps_mon_refresh: "keeps (same_mode m) (mon_refresh target arg t m)"
  unfolding mon_refresh_def
  by (intro keep_rules) (auto simp: same_mode_def mon_sample_ok split: option.split intro!: keep_rules)

lemma mon_step_ok:
  assumes "mon_step target arg inp m s = (Running m', s')" "guarded k m" "hist_ok m"
  shows "guarded (last_key k [inp]) m' \<and> hist_ok m'"
proof (cases inp)
  case (Refresh t)
  with assms(1) have "mon_refresh target arg t m s = (Inr m', s')"
    by (auto simp: mon_step_def ended_def split: prod.splits sum.splits if_splits)
  with keeps_mon_refresh [of m target arg t] have "same_mode m m'" unfolding keeps_def by blast
  with assms Refresh show ?thesis by (simp add: same_mode_def guarded_def)
next
  case (Key ch)
  then obtain r where r: "mon_key target arg ch m s = (Inr r, s')" "r = Redraw m' \<or> r = Ignored \<and> m' = m"
    using assms(1) by (auto simp: mon_step_def ended_def split: prod.splits sum.splits if_splits key_result.splits)
  with keeps_mon_key [of k ch m target arg] have "key_ok k ch m r" unfolding keeps_def by blast
  with r(2) assms(2,3) Key show ?thesis by (auto simp: key_ok_def guarded_def)
qed

lemma mon_run_ok:
  "mon_run target arg inps m s = (Running m', s') \<Longrightarrow> guarded k m \<Longrightarrow> hist_ok m \<Longrightarrow> guarded (last_key k inps) m' \<and> hist_ok m'"
proof (induction inps arbitrary: k m s)
  case Nil
  then show ?case by simp
next
  case (Cons inp inps)
  then obtain m1 s1 where step: "mon_step target arg inp m s = (Running m1, s1)" "mon_run target arg inps m1 s1 = (Running m', s')"
    by (auto split: prod.splits mon_end.splits)
  from mon_step_ok [OF step(1) Cons.prems(2,3)] have ok: "guarded (last_key k [inp]) m1" "hist_ok m1" by simp_all
  from Cons.IH [OF step(2) ok] show ?case by (cases inp) simp_all
qed

text \<open>
  C16: whatever was pressed before, a key sends a message that clears the session only as the answer yes
  right after a key that asks for it, and one that approves it only while the shown session is not
  approved; a change of rates is sent only by the line end of the rate dialogue. Every message is
  addressed by the event that identifies the monitored session.
\<close>
theorem monitor_keys_confirmed:
  assumes "mon_run target arg inps new_monitor s = (Running m, s1)" "mon_key target arg ch m s1 = (r, s2)"
    and "x \<in> set (new_messages s1 s2)"
  shows "\<exists>ev. frame (sk_portid s1) ev = Inr x \<and> (\<forall>k \<in> {Ksession_id, Kipaddr, Kport_number}. ev k = target k) \<and>
     (msg_type x = EVENT_SESS_CLEAR \<and> (ch = ''y'' \<or> ch = ''Y'') \<and> asks (last_key None inps)
      \<or> msg_type x = EVENT_SESS_APPROVE \<and> (ch = ''a'' \<or> ch = ''A'')
          \<and> (\<exists>sess. mo_sess m = Some sess \<and> e_flags sess AND IS_APPROVED_SESSION = 0)
      \<or> msg_type x = EVENT_SESS_CHANGE \<and> (ch = [CHR 0x0D] \<or> ch = [CHR 0x0A]) \<and> mo_editing m \<noteq> None)"
proof -
  have "guarded None new_monitor" "hist_ok new_monitor" by (simp_all add: guarded_def hist_ok_def new_monitor_def)
  from mon_run_ok [OF assms(1) this] have g: "guarded (last_key None inps) m" by simp
  have "sends (\<lambda>ev. \<exists>t. ev Ktype = Some (VInt t) \<and> key_event target ch m ev) (mon_key target arg ch m)"
    by (rule sends_mono [OF sends_mon_key]) (auto simp: key_event_def rate_event_def bindE_eq_Inr split: option.splits if_splits)
  from sends_types [OF this assms(2,3)] obtain ev where ev: "frame (sk_portid s1) ev = Inr x" "ev Ktype = Some (VInt (msg_type x))"
    "key_event target ch m ev" by blast
  have "\<forall>k \<in> {Ksession_id, Kipaddr, Kport_number}. ev k = target k"
    using ev(3) by (auto simp: key_event_def rate_event_def bindE_eq_Inr split: option.splits if_splits)
  with ev g show ?thesis
    by (intro exI [of _ ev]) (auto simp: key_event_def rate_event_def bindE_eq_Inr guarded_def split: option.splits if_splits)
qed

text \<open>
  However long the monitor runs, its two histories have the same length, at most four hundred
  samples, and no sample is negative, even when a counter or the clock goes backwards.
\<close>
theorem monitor_history_bounded:
  assumes "mon_run target arg inps new_monitor s = (Running m, s')"
  shows "hist_ok m"
proof -
  have "guarded None new_monitor" "hist_ok new_monitor" by (simp_all add: guarded_def hist_ok_def new_monitor_def)
  from mon_run_ok [OF assms this] show ?thesis by simp
qed


section \<open>The rate dialogue\<close>

lemma frame_fits:
  assumes "frame port ev = Inr m" "is_session_event ev"
  shows "session_fits (blank ++ ev)"
proof -
  from assms(1) obtain p where "pack_event (blank ++ ev) = Inr p" by (auto elim: frame_Inr)
  with assms(2) have "concatE (session_parts (blank ++ ev)) = Inr p"
    by (simp add: is_session_event_def ev_type_def pack_event_default)
  then show ?thesis using pack_session_total by blast
qed

lemma rate_event_exact:
  assumes "0 \<le> i" "i < 2 ^ 51" "0 \<le> out" "out < 2 ^ 51"
  shows "rate_event target i out = Inr (target(Ktype \<mapsto> VInt EVENT_SESS_CHANGE, Kin_rate \<mapsto> VInt i, Kin_burst \<mapsto> VInt (3 * i div 2),
           Kout_rate \<mapsto> VInt out, Kout_burst \<mapsto> VInt (3 * out div 2)))"
  using assms by (simp add: rate_event_def int_times_1_5_exact)

text \<open>What the kernel reads of a change of rates, and when it can be sent at all.\<close>

lemma rate_event_kernel:
  assumes "0 \<le> i" "i < 2 ^ 51" "0 \<le> out" "out < 2 ^ 51" "rate_event target i out = Inr ev" "frame port ev = Inr m"
  shows "ki_type (kernel_in_read (drop 16 m)) = EVENT_SESS_CHANGE \<and> ki_rate0 (kernel_in_read (drop 16 m)) = i
     \<and> ki_burst0 (kernel_in_read (drop 16 m)) = 3 * i div 2 \<and> ki_rate1 (kernel_in_read (drop 16 m)) = out
     \<and> ki_burst1 (kernel_in_read (drop 16 m)) = 3 * out div 2 \<and> 3 * i div 2 < 2 ^ 32 \<and> 3 * out div 2 < 2 ^ 32"
proof -
  from rate_event_exact [OF assms(1-4), of target] assms(5) have ev: "ev = target(Ktype \<mapsto> VInt EVENT_SESS_CHANGE, Kin_rate \<mapsto> VInt i, Kin_burst \<mapsto> VInt (3 * i div 2),
           Kout_rate \<mapsto> VInt out, Kout_burst \<mapsto> VInt (3 * out div 2))" by simp
  then have s: "is_session_event ev" by (simp add: is_session_event_def ev_type_def ev_get_def map_add_def event_codes)
  from frame_session [OF assms(6)] s have "kernel_in_read (drop 16 m) = kernel_in_of (blank ++ ev)" by (simp add: is_session_event_def)
  moreover have "session_fits (blank ++ ev)" by (rule frame_fits [OF assms(6) s])
  ultimately show ?thesis by (simp add: ev kernel_in_of_def session_fits_def ev_get_def map_add_def)
qed

lemma find_nums_end: "find_nums [] = []"
  by (subst find_nums.simps) simp

lemma find_nums_show:
  assumes "r = [] \<or> hd r = CHR '' ''"
  shows "find_nums (show_nat n @ r) = (show_nat n, []) # find_nums r"
proof -
  have r: "r = [] \<or> \<not> is_digit (hd r)" using assms by (auto simp: is_digit_def)
  have d: "is_digit (hd (show_nat n))" using show_nat_digits [of n] by (cases "show_nat n") auto
  then have "dropWhile (\<lambda>c. \<not> is_digit c) (show_nat n @ r) = show_nat n @ r" by (cases "show_nat n") auto
  moreover have "r ! 0 \<noteq> CHR ''.''" if "2 \<le> length r" using assms that by (cases r) auto
  ultimately show ?thesis by (subst find_nums.simps) (auto simp: Let_def takeWhile_show_nat [OF r])
qed

lemma find_nums_space: "find_nums (CHR '' '' # r) = find_nums r"
  by (subst (1 2) find_nums.simps) (simp add: is_digit_def)

lemma mbit_nat:
  assumes "n < 2 ^ 30"
  shows "mbit (show_nat n, []) = Inr (int n * 1000000)"
proof -
  have v: "num_value (show_nat n, []) = of_int (int n)" by (simp add: num_value_def)
  have d: "to_double (of_int (int n)) = of_int (int n)" using assms by (intro to_double_int) simp
  have p: "of_int (int n) * 1000000 = (of_int (int n * 1000000) :: rat)" by simp
  have q: "to_double (of_int (int n * 1000000)) = of_int (int n * 1000000)" using assms by (intro to_double_int) simp
  have "(2 :: rat) ^ 53 \<le> 2 ^ 1024" by (rule power_increasing) simp_all
  moreover have "of_int (int n * 1000000) < (2 :: rat) ^ 53" "of_int (int n) < (2 :: rat) ^ 53"
  proof -
    have "int n * 1000000 < 2 ^ 53" "int n < 2 ^ 53" using assms by simp_all
    then show "of_int (int n * 1000000) < (2 :: rat) ^ 53" "of_int (int n) < (2 :: rat) ^ 53"
      by (metis of_int_less_iff of_int_numeral of_int_power)+
  qed
  ultimately have "\<not> float_overflow (of_int (int n))" "\<not> float_overflow (of_int (int n * 1000000))"
    unfolding float_overflow_def d q by auto
  then show ?thesis unfolding mbit_def Let_def v d p q by (simp only: py_trunc_of_int if_False simp_thms)
qed

lemma apply_rate_numbers:
  assumes "a < 2 ^ 30" "b < 2 ^ 30" "buf = show_nat a @ '' '' @ show_nat b \<or> buf = show_nat a \<and> b = a"
  shows "apply_rate target buf m = or_failed ''shaper change failed'' m
     (nl_bind (nl_lift (rate_event target (int a * 1000000) (int b * 1000000))) (\<lambda>ev.
      nl_bind (send_event ev) (\<lambda>_. nl_return (m\<lparr>mo_status := ShaperSet (of_nat a) (of_nat b)\<rparr>))))"
proof -
  have nums: "find_nums (show_nat a @ '' '' @ show_nat b) = [(show_nat a, []), (show_nat b, [])]" "find_nums (show_nat a) = [(show_nat a, [])]"
    using find_nums_show [of "'' '' @ show_nat b" a] find_nums_show [of "[]" b] find_nums_show [of "[]" a]
    by (simp_all add: find_nums_space find_nums_end)
  have run: "apply_rate target buf m = set_rates target (show_nat a, []) (show_nat b, []) m"
    using assms(3) nums by (auto simp: apply_rate_def)
  have v: "to_double (num_value (show_nat n, [])) = of_nat n" if "n < 2 ^ 30" for n
    using that to_double_int [of "int n"] by (simp add: num_value_def)
  show ?thesis unfolding run set_rates_def mbit_nat [OF assms(1)] mbit_nat [OF assms(2)] v [OF assms(1)] v [OF assms(2)] by simp
qed

text \<open>
  C30: typing two whole numbers into the rate dialogue asks the kernel for exactly these rates in Mbit/s,
  with bursts of one and a half times the rate; one number sets both directions. A rate whose burst does
  not fit 32 bits, 2864 Mbit/s or more, is never sent.
\<close>
theorem shaper_dialogue_exact:
  assumes "a < 2 ^ 30" "b < 2 ^ 30" "apply_rate target buf m s = (r, s')" "x \<in> set (new_messages s s')"
    and "buf = show_nat a @ '' '' @ show_nat b \<or> buf = show_nat a \<and> b = a"
  shows "ki_type (kernel_in_read (drop 16 x)) = EVENT_SESS_CHANGE
     \<and> ki_rate0 (kernel_in_read (drop 16 x)) = int a * 1000000 \<and> ki_burst0 (kernel_in_read (drop 16 x)) = int a * 1500000
     \<and> ki_rate1 (kernel_in_read (drop 16 x)) = int b * 1000000 \<and> ki_burst1 (kernel_in_read (drop 16 x)) = int b * 1500000
     \<and> a < 2864 \<and> b < 2864"
proof -
  let ?P = "\<lambda>ev. rate_event target (int a * 1000000) (int b * 1000000) = Inr ev"
  have "sends ?P (apply_rate target buf m)"
    unfolding apply_rate_numbers [OF assms(1,2,5)] by (intro nl_rules sends_lift_bind) simp
  from sends_new [OF this assms(3,4)] obtain ev where ev: "?P ev" "frame (sk_portid s) ev = Inr x" by blast
  have "int a * 1000000 < 2 ^ 51" "int b * 1000000 < 2 ^ 51" using assms(1,2) by simp_all
  from rate_event_kernel [OF _ this(1) _ this(2) ev] show ?thesis by simp
qed


section \<open>A session at the terminal\<close>

definition mon_target :: evdict where
  "mon_target = [Kport_number \<mapsto> VInt 5]"

definition mon_socket :: nlsock where
  "mon_socket = open_socket 77 1 [] []"

theorem monitor_keys_confirmed_witness:
  "\<exists>m s1. mon_run mon_target ''Virtual5'' [Key ''c''] new_monitor mon_socket = (Running m, s1)
     \<and> (\<exists>x \<in> set (new_messages s1 (snd (mon_key mon_target ''Virtual5'' ''y'' m s1))). msg_type x = EVENT_SESS_CLEAR)
     \<and> (\<forall>x \<in> set (new_messages s1 (snd (mon_key mon_target ''Virtual5'' ''y'' m s1))). \<exists>ev. frame (sk_portid s1) ev = Inr x \<and> ev Kport_number = Some (VInt 5))"
proof -
  let ?m = "new_monitor\<lparr>mo_pending := Some (''Clear session '' @ [CHR 0x27] @ ''Virtual5'' @ [CHR 0x27] @ '' ?''), mo_status := Msg []\<rparr>"
  have run: "mon_run mon_target ''Virtual5'' [Key ''c''] new_monitor mon_socket = (Running ?m, mon_socket)"
    by (simp add: mon_step_def mon_key_def new_monitor_def nl_return_def)
  obtain r s2 where key: "mon_key mon_target ''Virtual5'' ''y'' ?m mon_socket = (r, s2)" by fastforce
  have "new_messages mon_socket (snd (mon_key mon_target ''Virtual5'' ''y'' ?m mon_socket)) \<noteq> []
      \<and> msg_type (hd (new_messages mon_socket (snd (mon_key mon_target ''Virtual5'' ''y'' ?m mon_socket)))) = EVENT_SESS_CLEAR"
    by code_simp
  then have "\<exists>x \<in> set (new_messages mon_socket s2). msg_type x = EVENT_SESS_CLEAR" using key by (metis hd_in_set snd_conv)
  moreover have "\<exists>ev. frame (sk_portid mon_socket) ev = Inr x \<and> ev Kport_number = Some (VInt 5)" if "x \<in> set (new_messages mon_socket s2)" for x
    using monitor_keys_confirmed [OF run key that] by (auto simp: mon_target_def)
  ultimately show ?thesis using run key by (intro exI [of _ ?m] exI [of _ mon_socket]) simp
qed

theorem monitor_history_bounded_witness:
  "\<exists>m. mon_run mon_target ''Virtual5'' [Key ''s'', Key ''5''] new_monitor mon_socket = (Running m, mon_socket) \<and> mo_editing m = Some ''5'' \<and> hist_ok m"
proof -
  have "\<exists>m. mon_run mon_target ''Virtual5'' [Key ''s'', Key ''5''] new_monitor mon_socket = (Running m, mon_socket) \<and> mo_editing m = Some ''5''"
    by (simp add: mon_step_def mon_key_def edit_key_def new_monitor_def nl_return_def nl_bind_def is_digit_def)
  then show ?thesis using monitor_history_bounded by blast
qed

theorem shaper_dialogue_exact_witness:
  "\<exists>x. new_messages mon_socket (snd (apply_rate mon_target ''10 20'' new_monitor mon_socket)) = [x]
     \<and> ki_rate0 (kernel_in_read (drop 16 x)) = 10000000 \<and> ki_rate1 (kernel_in_read (drop 16 x)) = 20000000"
proof -
  have buf: "''10 20'' = show_nat 10 @ '' '' @ show_nat 20" by code_simp
  obtain ev where ev: "rate_event mon_target 10000000 20000000 = Inr ev" using rate_event_exact [of 10000000 20000000 mon_target] by simp
  have "\<exists>x. frame 77 ev = Inr x"
    using ev rate_event_exact [of 10000000 20000000 mon_target]
    by (intro frame_ok) (auto simp: ev_type_def ev_get_def event_codes session_fits_def mon_target_def map_add_def blank_def)
  then obtain x where x: "frame 77 ev = Inr x" ..
  have "send_only ev mon_socket = (Inr (), mon_socket\<lparr>sk_sent := [x]\<rparr>)"
    using send_only_ok [of mon_socket ev x] x by (simp add: mon_socket_def open_socket_def sk_portid_def)
  then have "snd (apply_rate mon_target ''10 20'' new_monitor mon_socket) = mon_socket\<lparr>sk_sent := [x]\<rparr>"
    using apply_rate_numbers [of 10 20 "''10 20''" mon_target new_monitor] buf ev
    by (simp add: or_failed_def send_event_def nl_bind_def nl_catch_def nl_lift_def nl_return_def nl_recv.simps mon_socket_def open_socket_def)
  then have new: "new_messages mon_socket (snd (apply_rate mon_target ''10 20'' new_monitor mon_socket)) = [x]"
    by (simp add: new_messages_def mon_socket_def open_socket_def)
  obtain r s' where run: "apply_rate mon_target ''10 20'' new_monitor mon_socket = (r, s')" by fastforce
  from shaper_dialogue_exact [of 10 20, OF _ _ run, of x] new run buf show ?thesis by simp
qed


section \<open>Graphs\<close>

text \<open>The rows of a bar: full below the level, at most one partial block, blank above.\<close>

lemma graph_cell_shape:
  fixes v ceil :: rat and height r :: nat
  assumes "0 \<le> v" "0 < ceil"
  defines "level \<equiv> min (v / ceil) 1 * of_nat height"
  defines "k \<equiv> nat \<lfloor>level\<rfloor>"
  shows "r < k \<Longrightarrow> graph_cell ceil height r v = 8" "k < r \<Longrightarrow> graph_cell ceil height r v = 0"
    "\<bar>of_int (graph_cell ceil height k v) - 8 * (level - of_nat k)\<bar> < 1" "k \<le> height" "of_nat k \<le> level"
    "0 \<le> graph_cell ceil height r v" "graph_cell ceil height r v \<le> 8"
proof -
  have nn: "0 \<le> level" using assms(1,2) by (simp add: level_def)
  then have k: "of_nat k \<le> level" "level < of_nat k + 1"
    using floor_correct [of level] by (simp_all add: k_def)
  show "of_nat k \<le> level" by (rule k(1))
  have "level \<le> 1 * of_nat height" unfolding level_def by (intro mult_right_mono) simp_all
  then have "of_nat k \<le> (of_nat height :: rat)" using k(1) by simp
  then show "k \<le> height" by simp
  show "graph_cell ceil height r v = 8" if "r < k"
  proof -
    have "of_nat r + 1 \<le> (of_nat k :: rat)" using that by (metis Suc_leI of_nat_Suc of_nat_le_iff add.commute)
    with k have "of_nat r + 1 \<le> level" by simp
    then show ?thesis by (simp add: graph_cell_def level_def)
  qed
  show "graph_cell ceil height r v = 0" if "k < r"
  proof -
    have "of_nat k + 1 \<le> (of_nat r :: rat)" using that by (metis Suc_leI of_nat_Suc of_nat_le_iff add.commute)
    with k have "level \<le> of_nat r" "\<not> of_nat r + 1 \<le> level" by simp_all
    then show ?thesis by (simp add: graph_cell_def level_def)
  qed
  show "0 \<le> graph_cell ceil height r v" "graph_cell ceil height r v \<le> 8"
    by (auto simp: graph_cell_def Let_def)
  show "\<bar>of_int (graph_cell ceil height k v) - 8 * (level - of_nat k)\<bar> < 1"
  proof (cases "level = of_nat k")
    case True
    then show ?thesis by (simp add: graph_cell_def level_def)
  next
    case False
    define y where "y = (level - of_nat k) * 8"
    let ?y = y
    have cell: "graph_cell ceil height k v = max 1 (min 8 (round_half_even ?y))"
      using False k by (simp add: graph_cell_def level_def y_def)
    have y: "0 < ?y" "?y < 8" using False k by (simp_all add: y_def)
    have e: "\<bar>of_int (round_half_even ?y) - ?y\<bar> \<le> 1 / 2" by (rule round_half_even_error)
    have "round_half_even ?y \<le> 8"
    proof -
      have "of_int (round_half_even ?y) < (9 :: rat)" using e y by linarith
      then show ?thesis by simp
    qed
    moreover have "0 \<le> round_half_even ?y"
    proof -
      have "(-1 :: rat) < of_int (round_half_even ?y)" using e y by linarith
      then show ?thesis by simp
    qed
    ultimately consider "round_half_even ?y = 0" "graph_cell ceil height k v = 1" | "graph_cell ceil height k v = round_half_even ?y"
      unfolding cell by linarith
    then show ?thesis
    proof cases
      case 1
      with e y show ?thesis by (simp add: y_def mult.commute)
    next
      case 2
      with e show ?thesis by (simp add: y_def mult.commute)
    qed
  qed
qed

text \<open>
  A bar of the graph is as high as its sample asks for: the eighths of its blocks, summed over the
  rows, differ by less than one from eight times the sample's share of the graph's height, a sample above
  the ceiling counting as the ceiling.
\<close>
theorem graph_bar_height:
  assumes "0 \<le> v" "0 < ceil"
  shows "\<bar>of_int (\<Sum>r < height. graph_cell ceil height r v) - 8 * (min (v / ceil) 1 * of_nat height)\<bar> < 1"
proof -
  define level where "level = min (v / ceil) 1 * of_nat height"
  define k where "k = nat \<lfloor>level\<rfloor>"
  note shape = graph_cell_shape [OF assms, where height = height, folded level_def, folded k_def]
  show ?thesis
  proof (cases "k = height")
    case True
    have "(\<Sum>r < height. graph_cell ceil height r v) = (\<Sum>r < height. 8)" by (rule sum.cong) (use shape(1) True in auto)
    moreover have "level \<le> 1 * of_nat height" unfolding level_def by (intro mult_right_mono) simp_all
    then have "level = of_nat height" using shape(5) True by simp
    ultimately show ?thesis by (simp add: level_def [symmetric])
  next
    case False
    with shape(4) have lt: "k < height" by simp
    have "(\<Sum>r < height. graph_cell ceil height r v) = (\<Sum>r \<in> {..<k} \<union> {k} \<union> {k<..<height}. graph_cell ceil height r v)"
      using lt by (intro sum.cong) auto
    also have "\<dots> = (\<Sum>r < k. graph_cell ceil height r v) + graph_cell ceil height k v + (\<Sum>r \<in> {k<..<height}. graph_cell ceil height r v)"
      by (subst sum.union_disjoint; auto)+
    also have "(\<Sum>r < k. graph_cell ceil height r v) = (\<Sum>r < k. 8)" by (rule sum.cong) (use shape(1) in auto)
    also have "(\<Sum>r \<in> {k<..<height}. graph_cell ceil height r v) = 0" by (rule sum.neutral) (use shape(2) in auto)
    finally have "(\<Sum>r < height. graph_cell ceil height r v) = 8 * int k + graph_cell ceil height k v" by simp
    with shape(3) show ?thesis unfolding level_def [symmetric] by (simp add: algebra_simps)
  qed
qed


section \<open>The system-wide view\<close>

lemma rank_rates_sorted: "sorted_wrt (\<lambda>a b. throughput b \<le> throughput a) (rank_rates rates)"
proof -
  have "sorted (map (\<lambda>kv. - throughput kv) (rank_rates rates))" by (simp add: rank_rates_def)
  then show ?thesis by (simp add: sorted_wrt_map)
qed

text \<open>The rates of the sessions that were listed twice, one entry for each address.\<close>

definition rates_ok :: "(int, int \<times> int) odict \<Rightarrow> (int, rat \<times> rat) odict \<Rightarrow> bool" where
  "rates_ok prev d \<longleftrightarrow> distinct (map fst d) \<and> set (map fst d) \<subseteq> set (map fst prev)
     \<and> (\<forall>(ip, i, o') \<in> set d. 0 \<le> i \<and> 0 \<le> o')"

lemma cur_rate_ok: "rates_ok (gm_prev_top g) d \<Longrightarrow> rates_ok (gm_prev_top g) (cur_rate t g d r)"
proof (cases "map_of (gm_prev_top g) (e_ipaddr r)")
  case (Some p)
  assume d: "rates_ok (gm_prev_top g) d"
  from Some have "e_ipaddr r \<in> set (map fst (gm_prev_top g))" by (metis map_of_eq_None_iff option.distinct(1) set_map)
  with d Some show ?thesis
    by (auto simp: cur_rate_def rates_ok_def distinct_update dom_update rate_sample_nonneg dest!: update_value_mem split: prod.split)
qed (simp add: cur_rate_def)

lemma foldl_cur_rate_ok: "rates_ok (gm_prev_top g) d \<Longrightarrow> rates_ok (gm_prev_top g) (foldl (cur_rate t g) d rows)"
  by (induction rows arbitrary: d) (auto intro: cur_rate_ok)

text \<open>
  After every refresh the list of the top sessions is sorted by throughput, lists each address at
  most once and only addresses that the previous answer of the kernel had, and no rate in it is negative.
\<close>
theorem global_top_sorted:
  assumes "totals = (Some tot, top_sess)"
  shows "sorted_wrt (\<lambda>a b. throughput b \<le> throughput a) (gm_top_rates (global_sample t totals g))
     \<and> rates_ok (gm_prev_top g) (gm_top_rates (global_sample t totals g))"
proof -
  let ?rates = "foldl (cur_rate t g) [] top_sess"
  have top: "gm_top_rates (global_sample t totals g) = rank_rates ?rates" using assms by (simp add: global_sample_def)
  have "rates_ok (gm_prev_top g) ?rates" by (rule foldl_cur_rate_ok) (simp add: rates_ok_def)
  moreover have "set (rank_rates ?rates) = set ?rates" "distinct (map fst (rank_rates ?rates)) = distinct (map fst ?rates)"
    by (simp_all add: rank_rates_def distinct_map)
  ultimately have "rates_ok (gm_prev_top g) (rank_rates ?rates)" by (simp add: rates_ok_def)
  with rank_rates_sorted top show ?thesis by simp
qed

text \<open>
  Pressing the reset key of the system-wide monitor ends the program with an exception, in every
  state and whatever the kernel answers.
\<close>
theorem global_reset_crashes:
  "global_run (Key ''r'' # inps) g s = (Crash NameError, s)"
  by (simp add: global_step_def global_key_def ended_def)

theorem graph_bar_height_witness:
  "\<bar>of_int (\<Sum>r < 10. graph_cell 1000 10 r 333) - 8 * (min (333 / 1000) 1 * of_nat 10)\<bar> < (1 :: rat)"
  by (rule graph_bar_height) simp_all

definition top_event :: "int \<Rightarrow> int \<Rightarrow> nl_event" where
  "top_event ip bytes = (kernel_msg_event (sample_msg 0 1))\<lparr>e_ipaddr := ip, e_in_bytes := bytes, e_out_bytes := 0\<rparr>"

definition sample_gmonitor :: gmonitor where
  "sample_gmonitor = new_gmonitor\<lparr>gm_prev_t := 1, gm_prev_top := [(1, 0, 0), (2, 0, 0)]\<rparr>"

theorem global_top_sorted_witness:
  "map fst (gm_top_rates (global_sample 2 (Some (top_event 0 0), [top_event 1 10, top_event 2 20]) sample_gmonitor)) = [2, 1]
   \<and> rates_ok (gm_prev_top sample_gmonitor) (gm_top_rates (global_sample 2 (Some (top_event 0 0), [top_event 1 10, top_event 2 20]) sample_gmonitor))"
proof
  show "map fst (gm_top_rates (global_sample 2 (Some (top_event 0 0), [top_event 1 10, top_event 2 20]) sample_gmonitor)) = [2, 1]"
    by (simp add: global_sample_def rank_rates_def cur_rate_def sample_gmonitor_def new_gmonitor_def top_event_def rate_sample_def throughput_def)
qed (use global_top_sorted [of _ "top_event 0 0" "[top_event 1 10, top_event 2 20]" 2 sample_gmonitor] in simp)

end
