(* ===== verification/Config_Load.thy ===== *)
theory Config_Load
  imports Config
begin

text \<open>
  The loader of \<^verbatim>\<open>app/src/config.py\<close>: from the value that \<^verbatim>\<open>yaml.safe_load\<close> gives to the configuration.
  The document is an argument, as is the directory of the file. A mapping is a list of pairs with
  distinct keys.

  The loader stores several values as they are. Where the document has a value there that is not of the
  field's declared type, the result is \<open>Untyped\<close>: the program goes on with an object this model has no
  name for, and the model says nothing more of that document. The same result stands for \<^verbatim>\<open>str\<close> of a number with a fraction or of a collection.
\<close>

section \<open>Documents\<close>

datatype yval =
    YNull | YBool bool | YInt int | YFloat rat | YStr string | YList "yval list" | YMap "(yval \<times> yval) list"

type_synonym ymap = "(yval \<times> yval) list"

datatype 'a loaded = Loaded 'a | LRaise exn | Untyped

fun bindL :: "'a loaded \<Rightarrow> ('a \<Rightarrow> 'b loaded) \<Rightarrow> 'b loaded" where
  "bindL (Loaded x) f = f x"
| "bindL (LRaise e) f = LRaise e"
| "bindL Untyped f = Untyped"

definition of_res :: "'a res \<Rightarrow> 'a loaded" where
  "of_res r = (case r of Inl e \<Rightarrow> LRaise e | Inr x \<Rightarrow> Loaded x)"

fun truthy :: "yval \<Rightarrow> bool" where
  "truthy YNull = False"
| "truthy (YBool b) = b"
| "truthy (YInt n) = (n \<noteq> 0)"
| "truthy (YFloat x) = (x \<noteq> 0)"
| "truthy (YStr s) = (s \<noteq> [])"
| "truthy (YList xs) = (xs \<noteq> [])"
| "truthy (YMap m) = (m \<noteq> [])"

text \<open>\<^verbatim>\<open>v.get\<close> and \<^verbatim>\<open>v.items()\<close> of something that is not a mapping raise \<^verbatim>\<open>AttributeError\<close>.\<close>

fun as_map :: "yval \<Rightarrow> ymap loaded" where
  "as_map (YMap m) = Loaded m"
| "as_map v = LRaise OtherError"

definition yget :: "ymap \<Rightarrow> string \<Rightarrow> yval \<Rightarrow> yval" where
  "yget m k d = (case map_of m (YStr k) of None \<Rightarrow> d | Some v \<Rightarrow> v)"

fun as_str :: "yval \<Rightarrow> string loaded" where
  "as_str (YStr s) = Loaded s"
| "as_str v = Untyped"

fun as_opt_str :: "yval \<Rightarrow> string option loaded" where
  "as_opt_str YNull = Loaded None"
| "as_opt_str (YStr s) = Loaded (Some s)"
| "as_opt_str v = Untyped"

fun as_opt_int :: "yval \<Rightarrow> int option loaded" where
  "as_opt_int YNull = Loaded None"
| "as_opt_int (YInt n) = Loaded (Some n)"
| "as_opt_int v = Untyped"

text \<open>\<^verbatim>\<open>int(v)\<close>, \<^verbatim>\<open>str(v)\<close> and \<^verbatim>\<open>list(v or [])\<close>.\<close>

fun to_int :: "yval \<Rightarrow> int loaded" where
  "to_int (YInt n) = Loaded n"
| "to_int (YBool b) = Loaded (if b then 1 else 0)"
| "to_int (YFloat x) = Loaded (if x < 0 then \<lceil>x\<rceil> else \<lfloor>x\<rfloor>)"
| "to_int (YStr s) = of_res (py_int s)"
| "to_int v = LRaise TypeError"

fun to_str :: "yval \<Rightarrow> string loaded" where
  "to_str (YStr s) = Loaded s"
| "to_str (YInt n) = Loaded (show_int n)"
| "to_str (YBool b) = Loaded (if b then ''True'' else ''False'')"
| "to_str YNull = Loaded ''None''"
| "to_str v = Untyped"

fun strs :: "yval list \<Rightarrow> string list loaded" where
  "strs [] = Loaded []"
| "strs (v # vs) = bindL (as_str v) (\<lambda>s. bindL (strs vs) (\<lambda>ss. Loaded (s # ss)))"

definition to_list :: "yval \<Rightarrow> string list loaded" where
  "to_list v =
     (if \<not> truthy v then Loaded []
      else case v of
             YList xs \<Rightarrow> strs xs
           | YStr s \<Rightarrow> Loaded (map (\<lambda>c. [c]) s)
           | YMap m \<Rightarrow> strs (map fst m)
           | _ \<Rightarrow> LRaise TypeError)"

definition to_bytes :: "yval \<Rightarrow> bytes loaded" where
  "to_bytes v = (case v of YStr s \<Rightarrow> Loaded (encode s) | _ \<Rightarrow> if truthy v then Untyped else Loaded [])"

definition resolve :: "string \<Rightarrow> yval \<Rightarrow> string loaded" where
  "resolve base v =
     (case v of
        YStr p \<Rightarrow>
          Loaded (if p \<noteq> [] \<and> hd p = CHR ''/'' then p
                  else if base = [] \<or> last base = CHR ''/'' then base @ p
                  else base @ ''/'' @ p)
      | _ \<Rightarrow> LRaise TypeError)"


section \<open>Sections\<close>

definition parse_entry :: "ymap \<Rightarrow> server_entry loaded" where
  "parse_entry entry =
     bindL (as_str (yget entry ''type'' (YStr ''radius''))) (\<lambda>t.
     bindL (as_str (yget entry ''server'' (YStr []))) (\<lambda>server.
     bindL (to_bytes (yget entry ''secret'' (YStr []))) (\<lambda>secret.
     bindL (to_int (yget entry ''timeout'' (YInt 5))) (\<lambda>timeout.
     bindL (as_str (yget entry ''host'' (YStr []))) (\<lambda>host.
     bindL (to_int (yget entry ''port'' (YInt 3306))) (\<lambda>port.
     bindL (as_str (yget entry ''unix_socket'' (YStr []))) (\<lambda>unix_socket.
     bindL (as_str (yget entry ''user'' (YStr []))) (\<lambda>user.
     bindL (to_str (yget entry ''password'' (YStr []))) (\<lambda>password.
     bindL (as_str (yget entry ''database'' (YStr []))) (\<lambda>database.
       Loaded \<lparr>se_type = t, se_server = server, se_secret = secret, se_timeout = timeout, se_host = host,
               se_port = port, se_unix_socket = unix_socket, se_user = user, se_password = password,
               se_database = database\<rparr>))))))))))"

fun pool_items :: "ymap \<Rightarrow> (int, server_entry) odict \<Rightarrow> (int, server_entry) odict loaded" where
  "pool_items [] result = Loaded result"
| "pool_items ((prio, v) # items) result =
     bindL (as_map v) (\<lambda>entry.
     bindL (parse_entry entry) (\<lambda>e.
     bindL (to_int prio) (\<lambda>p.
       pool_items items (AList.update p e result))))"

definition or_empty :: "yval \<Rightarrow> ymap loaded" where
  "or_empty v = (if truthy v then as_map v else Loaded [])"

definition parse_pool :: "yval \<Rightarrow> (int, server_entry) odict loaded" where
  "parse_pool section = bindL (or_empty section) (\<lambda>items. pool_items items [])"

definition parse_api :: "yval \<Rightarrow> api_config option loaded" where
  "parse_api section =
     (if \<not> truthy section then Loaded None
      else bindL (as_map section) (\<lambda>m.
        if \<not> truthy (yget m ''enabled'' (YBool True)) then Loaded None
        else bindL (as_str (yget m ''host'' (YStr ''0.0.0.0''))) (\<lambda>host.
             bindL (to_int (yget m ''port'' (YInt 8080))) (\<lambda>port.
             bindL (to_str (yget m ''token'' (YStr []))) (\<lambda>token.
             bindL (to_list (yget m ''access_list'' YNull)) (\<lambda>access_list.
               Loaded (Some \<lparr>api_enabled = True, api_host = host, api_port = port, api_token = token,
                             api_access_list = access_list\<rparr>)))))))"

definition parse_mysql :: "yval \<Rightarrow> mysql_config option loaded" where
  "parse_mysql section =
     (if \<not> truthy section then Loaded None
      else bindL (as_map section) (\<lambda>m.
           bindL (as_str (yget m ''auth_query'' (YStr DEFAULT_AUTH_QUERY))) (\<lambda>auth_query.
           bindL (as_str (yget m ''acct_start_query'' (YStr DEFAULT_ACCT_START))) (\<lambda>start.
           bindL (as_str (yget m ''acct_update_query'' (YStr DEFAULT_ACCT_UPDATE))) (\<lambda>update.
           bindL (as_str (yget m ''acct_stop_query'' (YStr DEFAULT_ACCT_STOP))) (\<lambda>stop.
           bindL (to_int (yget m ''conn_max_age'' (YInt 3600))) (\<lambda>age.
             Loaded (Some \<lparr>my_auth_query = auth_query, my_acct_start_query = start, my_acct_update_query = update,
                           my_acct_stop_query = stop, my_conn_max_age = age\<rparr>))))))))"

definition parse_service :: "ymap \<Rightarrow> service loaded" where
  "parse_service svc =
     bindL (to_list (yget svc ''traffic_classes'' YNull)) (\<lambda>classes.
     bindL (as_str (yget svc ''rate_info'' (YStr []))) (\<lambda>rate_info.
     bindL (as_str (yget svc ''type'' (YStr ''policer''))) (\<lambda>t.
     bindL (as_opt_int (yget svc ''alive_interval'' YNull)) (\<lambda>alive.
     bindL (as_opt_int (yget svc ''idle_timeout'' YNull)) (\<lambda>idle.
     bindL (as_opt_int (yget svc ''max_duration'' YNull)) (\<lambda>max_duration.
       Loaded ((new_service classes rate_info)\<lparr>s_type := t,
         s_no_accounting := truthy (yget svc ''no_accounting'' (YBool False)), s_alive_interval := alive,
         s_idle_timeout := idle, s_max_duration := max_duration\<rparr>)))))))"

fun service_items :: "ymap \<Rightarrow> (string, service) odict \<Rightarrow> (string, service) odict loaded" where
  "service_items [] services = Loaded services"
| "service_items ((name, v) # items) services =
     bindL (as_map v) (\<lambda>svc.
     bindL (parse_service svc) (\<lambda>s.
     bindL (as_str name) (\<lambda>n.
       service_items items (AList.update n s services))))"

definition parse_services :: "yval \<Rightarrow> (string, service) odict loaded" where
  "parse_services section = bindL (or_empty section) (\<lambda>items. service_items items [])"


section \<open>The loader\<close>

definition load_map :: "string \<Rightarrow> ymap \<Rightarrow> config loaded" where
  "load_map base raw =
     bindL (parse_services (yget raw ''services'' YNull)) (\<lambda>services.
     bindL (resolve base (yget raw ''radius_dictionary'' (YStr ''raddb/dictionary''))) (\<lambda>radius_dictionary.
     bindL (resolve base (yget raw ''tc_file'' (YStr ''tc.conf''))) (\<lambda>tc_file.
     bindL (as_str (yget raw ''pid_file'' (YStr ''/var/run/ISGd.pid''))) (\<lambda>pid_file.
     bindL (as_str (yget raw ''log_facility'' (YStr ''local7''))) (\<lambda>log_facility.
     bindL (as_opt_str (yget raw ''nas_ip'' YNull)) (\<lambda>nas_ip.
     bindL (as_opt_str (yget raw ''nas_identifier'' YNull)) (\<lambda>nas_identifier.
     bindL (parse_pool (yget raw ''auth'' YNull)) (\<lambda>auth.
     bindL (parse_pool (yget raw ''accounting'' YNull)) (\<lambda>accounting.
     bindL (parse_mysql (yget raw ''mysql'' YNull)) (\<lambda>mysql.
     bindL (parse_api (yget raw ''api'' YNull)) (\<lambda>api.
     bindL (to_bytes (yget raw ''coa_secret'' (YStr []))) (\<lambda>coa_secret.
     bindL (to_int (yget raw ''coa_port'' (YInt 3799))) (\<lambda>coa_port.
     bindL (as_opt_str (yget raw ''coa_server'' YNull)) (\<lambda>coa_server.
     bindL (to_int (yget raw ''session_alive_interval'' (YInt 60))) (\<lambda>alive.
     bindL (to_int (yget raw ''session_idle_timeout'' (YInt 1800))) (\<lambda>idle.
     bindL (to_int (yget raw ''session_max_duration'' (YInt 86400))) (\<lambda>max_duration.
     bindL (to_int (yget raw ''unauth_session_max_duration'' (YInt 60))) (\<lambda>unauth_max.
     bindL (to_list (yget raw ''unauth_service_name_list'' YNull)) (\<lambda>unauth_services.
     bindL (to_int (yget raw ''tc_check_interval'' (YInt 300))) (\<lambda>tc_check.
     bindL (to_int (yget raw ''auth_workers'' (YInt 16))) (\<lambda>auth_workers.
     bindL (to_int (yget raw ''acct_workers'' (YInt 32))) (\<lambda>acct_workers.
       Loaded \<lparr>
         c_radius_dictionary = radius_dictionary, c_tc_file = tc_file,
         c_daemonize = truthy (yget raw ''daemonize'' (YBool True)),
         c_debug = truthy (yget raw ''debug'' (YBool False)), c_log_facility = log_facility, c_pid_file = pid_file,
         c_nas_ip = nas_ip, c_nas_identifier = nas_identifier, c_auth = auth, c_accounting = accounting,
         c_mysql = mysql, c_api = api, c_coa_secret = coa_secret, c_coa_port = coa_port, c_coa_server = coa_server,
         c_session_alive_interval = alive, c_session_idle_timeout = idle, c_session_max_duration = max_duration,
         c_unauth_session_max_duration = unauth_max, c_unauth_service_name_list = unauth_services,
         c_no_accounting = truthy (yget raw ''no_accounting'' (YBool False)),
         c_no_color_output = truthy (yget raw ''no_color_output'' (YBool False)),
         c_tc_check_interval = tc_check, c_auth_workers = auth_workers, c_acct_workers = acct_workers,
         c_services = services\<rparr>))))))))))))))))))))))"

definition load :: "string \<Rightarrow> yval res \<Rightarrow> config loaded" where
  "load base doc = bindL (of_res doc) (\<lambda>raw. bindL (as_map raw) (load_map base))"


section \<open>What is loaded\<close>

lemma bindL_eq_Loaded: "bindL r f = Loaded y \<longleftrightarrow> (\<exists>x. r = Loaded x \<and> f x = Loaded y)"
  by (cases r) auto

lemma pool_items_distinct:
  "pool_items items acc = Loaded pool \<Longrightarrow> distinct (map fst acc) \<Longrightarrow> distinct (map fst pool)"
  by (induction items acc rule: pool_items.induct) (auto simp: bindL_eq_Loaded distinct_update)

lemma service_items_distinct:
  "service_items items acc = Loaded services \<Longrightarrow> distinct (map fst acc) \<Longrightarrow> distinct (map fst services)"
  by (induction items acc rule: service_items.induct) (auto simp: bindL_eq_Loaded distinct_update)

lemma parse_pool_distinct: "parse_pool v = Loaded pool \<Longrightarrow> distinct (map fst pool)"
  by (auto simp: parse_pool_def bindL_eq_Loaded dest: pool_items_distinct)

lemma parse_services_distinct: "parse_services v = Loaded services \<Longrightarrow> distinct (map fst services)"
  by (auto simp: parse_services_def bindL_eq_Loaded dest: service_items_distinct)

text \<open>A service that has not been through \<^verbatim>\<open>prepare\<close> has no limits yet.\<close>

definition unprepared :: "service \<Rightarrow> bool" where
  "unprepared s \<longleftrightarrow> s_u_rate s = 0 \<and> s_u_burst s = 0 \<and> s_d_rate s = 0 \<and> s_d_burst s = 0"

lemma parse_service_unprepared: "parse_service svc = Loaded s \<Longrightarrow> unprepared s"
  by (auto simp: parse_service_def bindL_eq_Loaded unprepared_def new_service_def)

lemma service_items_unprepared:
  "service_items items acc = Loaded services \<Longrightarrow> \<forall>(n, s) \<in> set acc. unprepared s \<Longrightarrow> \<forall>(n, s) \<in> set services. unprepared s"
proof (induction items acc rule: service_items.induct)
  case (2 name v items services')
  then obtain svc s n where s: "as_map v = Loaded svc" "parse_service svc = Loaded s" "as_str name = Loaded n"
    "service_items items (AList.update n s services') = Loaded services" by (auto simp: bindL_eq_Loaded)
  from parse_service_unprepared [OF s(2)] 2(3) have "\<forall>(n, s) \<in> set (AList.update n s services'). unprepared s"
    by (auto dest: update_value_mem)
  from 2(1) [OF s(4) this] show ?case .
qed simp

lemma parse_services_unprepared: "parse_services v = Loaded services \<Longrightarrow> (n, s) \<in> set services \<Longrightarrow> unprepared s"
  by (auto simp: parse_services_def bindL_eq_Loaded dest: service_items_unprepared)

lemma load_fields:
  assumes "load base doc = Loaded c"
  shows "\<exists>raw. doc = Inr (YMap raw) \<and> parse_services (yget raw ''services'' YNull) = Loaded (c_services c)
     \<and> parse_pool (yget raw ''auth'' YNull) = Loaded (c_auth c) \<and> parse_pool (yget raw ''accounting'' YNull) = Loaded (c_accounting c)
     \<and> parse_api (yget raw ''api'' YNull) = Loaded (c_api c)"
proof -
  from assms obtain v raw where "doc = Inr v" "as_map v = Loaded raw" and l: "load_map base raw = Loaded c"
    by (auto simp: load_def of_res_def bindL_eq_Loaded split: sum.splits)
  then have "doc = Inr (YMap raw)" by (cases v) auto
  with l show ?thesis by (auto simp: load_map_def bindL_eq_Loaded)
qed


section \<open>Loading what was written\<close>

definition dump_list :: "string list \<Rightarrow> yval" where
  "dump_list xs = YList (map YStr xs)"

definition dump_opt_str :: "string option \<Rightarrow> yval" where
  "dump_opt_str v = (case v of None \<Rightarrow> YNull | Some s \<Rightarrow> YStr s)"

definition dump_opt_int :: "int option \<Rightarrow> yval" where
  "dump_opt_int v = (case v of None \<Rightarrow> YNull | Some n \<Rightarrow> YInt n)"

definition dump_entry :: "server_entry \<Rightarrow> yval" where
  "dump_entry e = YMap
     [(YStr ''type'', YStr (se_type e)), (YStr ''server'', YStr (se_server e)), (YStr ''secret'', YStr (bytes_text (se_secret e))),
      (YStr ''timeout'', YInt (se_timeout e)), (YStr ''host'', YStr (se_host e)), (YStr ''port'', YInt (se_port e)),
      (YStr ''unix_socket'', YStr (se_unix_socket e)), (YStr ''user'', YStr (se_user e)),
      (YStr ''password'', YStr (se_password e)), (YStr ''database'', YStr (se_database e))]"

definition dump_pool :: "(int, server_entry) odict \<Rightarrow> yval" where
  "dump_pool pool = YMap (map (\<lambda>(p, e). (YInt p, dump_entry e)) pool)"

definition dump_api :: "api_config option \<Rightarrow> yval" where
  "dump_api v =
     (case v of
        None \<Rightarrow> YNull
      | Some a \<Rightarrow> YMap [(YStr ''host'', YStr (api_host a)), (YStr ''port'', YInt (api_port a)), (YStr ''token'', YStr (api_token a)),
                        (YStr ''access_list'', dump_list (api_access_list a))])"

definition dump_mysql :: "mysql_config option \<Rightarrow> yval" where
  "dump_mysql v =
     (case v of
        None \<Rightarrow> YNull
      | Some m \<Rightarrow> YMap [(YStr ''auth_query'', YStr (my_auth_query m)), (YStr ''acct_start_query'', YStr (my_acct_start_query m)),
                        (YStr ''acct_update_query'', YStr (my_acct_update_query m)),
                        (YStr ''acct_stop_query'', YStr (my_acct_stop_query m)), (YStr ''conn_max_age'', YInt (my_conn_max_age m))])"

definition dump_service :: "service \<Rightarrow> yval" where
  "dump_service s = YMap
     [(YStr ''traffic_classes'', dump_list (s_traffic_classes s)), (YStr ''rate_info'', YStr (s_rate_info s)),
      (YStr ''type'', YStr (s_type s)), (YStr ''no_accounting'', YBool (s_no_accounting s)),
      (YStr ''alive_interval'', dump_opt_int (s_alive_interval s)), (YStr ''idle_timeout'', dump_opt_int (s_idle_timeout s)),
      (YStr ''max_duration'', dump_opt_int (s_max_duration s))]"

definition dump_services :: "(string, service) odict \<Rightarrow> yval" where
  "dump_services services = YMap (map (\<lambda>(n, s). (YStr n, dump_service s)) services)"

definition dump :: "config \<Rightarrow> ymap" where
  "dump c =
     [(YStr ''radius_dictionary'', YStr (c_radius_dictionary c)), (YStr ''tc_file'', YStr (c_tc_file c)),
      (YStr ''daemonize'', YBool (c_daemonize c)), (YStr ''debug'', YBool (c_debug c)),
      (YStr ''log_facility'', YStr (c_log_facility c)), (YStr ''pid_file'', YStr (c_pid_file c)),
      (YStr ''nas_ip'', dump_opt_str (c_nas_ip c)), (YStr ''nas_identifier'', dump_opt_str (c_nas_identifier c)),
      (YStr ''auth'', dump_pool (c_auth c)), (YStr ''accounting'', dump_pool (c_accounting c)),
      (YStr ''mysql'', dump_mysql (c_mysql c)), (YStr ''api'', dump_api (c_api c)),
      (YStr ''coa_secret'', YStr (bytes_text (c_coa_secret c))), (YStr ''coa_port'', YInt (c_coa_port c)),
      (YStr ''coa_server'', dump_opt_str (c_coa_server c)),
      (YStr ''session_alive_interval'', YInt (c_session_alive_interval c)),
      (YStr ''session_idle_timeout'', YInt (c_session_idle_timeout c)),
      (YStr ''session_max_duration'', YInt (c_session_max_duration c)),
      (YStr ''unauth_session_max_duration'', YInt (c_unauth_session_max_duration c)),
      (YStr ''unauth_service_name_list'', dump_list (c_unauth_service_name_list c)),
      (YStr ''no_accounting'', YBool (c_no_accounting c)), (YStr ''no_color_output'', YBool (c_no_color_output c)),
      (YStr ''tc_check_interval'', YInt (c_tc_check_interval c)), (YStr ''auth_workers'', YInt (c_auth_workers c)),
      (YStr ''acct_workers'', YInt (c_acct_workers c)), (YStr ''services'', dump_services (c_services c))]"

lemma strs_map: "strs (map YStr xs) = Loaded xs"
  by (induction xs) auto

lemma to_list_dump [simp]: "to_list (dump_list xs) = Loaded xs"
  by (simp add: to_list_def dump_list_def strs_map)

lemma as_opt_dump [simp]: "as_opt_str (dump_opt_str v) = Loaded v" "as_opt_int (dump_opt_int i) = Loaded i"
  by (cases v; simp add: dump_opt_str_def) (cases i; simp add: dump_opt_int_def)

lemma to_bytes_dump [simp]: "to_bytes (YStr (bytes_text b)) = Loaded b"
  by (simp add: to_bytes_def)

lemma parse_entry_dump: "\<exists>m. dump_entry e = YMap m \<and> parse_entry m = Loaded e"
  by (simp add: dump_entry_def parse_entry_def yget_def)

lemma pool_items_dump:
  "distinct (map fst (acc @ pool)) \<Longrightarrow> pool_items (map (\<lambda>(p, e). (YInt p, dump_entry e)) pool) acc = Loaded (acc @ pool)"
proof (induction pool arbitrary: acc)
  case (Cons x pool)
  obtain p e where x: "x = (p, e)" by fastforce
  obtain m where m: "dump_entry e = YMap m" "parse_entry m = Loaded e" using parse_entry_dump by blast
  from Cons.prems x have "AList.update p e acc = acc @ [(p, e)]" by (simp add: update_new)
  with Cons.IH [of "acc @ [(p, e)]"] Cons.prems x m show ?case by simp
qed simp

lemma parse_pool_dump: "distinct (map fst pool) \<Longrightarrow> parse_pool (dump_pool pool) = Loaded pool"
  using pool_items_dump [of "[]" pool] by (simp add: parse_pool_def dump_pool_def or_empty_def)

definition api_on :: "api_config option \<Rightarrow> bool" where
  "api_on v = (case v of None \<Rightarrow> True | Some a \<Rightarrow> api_enabled a)"

lemma parse_api_dump: "api_on v \<Longrightarrow> parse_api (dump_api v) = Loaded v"
  by (cases v) (simp_all add: parse_api_def dump_api_def yget_def api_on_def)

lemma parse_mysql_dump: "parse_mysql (dump_mysql v) = Loaded v"
  by (cases v) (simp_all add: parse_mysql_def dump_mysql_def yget_def)

lemma parse_service_dump: "unprepared s \<Longrightarrow> \<exists>m. dump_service s = YMap m \<and> parse_service m = Loaded s"
  by (simp add: dump_service_def parse_service_def yget_def unprepared_def new_service_def)

lemma service_items_dump:
  "distinct (map fst (acc @ services)) \<Longrightarrow> \<forall>(n, s) \<in> set services. unprepared s \<Longrightarrow>
   service_items (map (\<lambda>(n, s). (YStr n, dump_service s)) services) acc = Loaded (acc @ services)"
proof (induction services arbitrary: acc)
  case (Cons x services)
  obtain n s where x: "x = (n, s)" by fastforce
  with Cons.prems have "unprepared s" by simp
  then obtain m where m: "dump_service s = YMap m" "parse_service m = Loaded s" using parse_service_dump by blast
  from Cons.prems x have "AList.update n s acc = acc @ [(n, s)]" by (simp add: update_new)
  with Cons.IH [of "acc @ [(n, s)]"] Cons.prems x m show ?case by simp
qed simp

lemma parse_services_dump:
  "distinct (map fst services) \<Longrightarrow> \<forall>(n, s) \<in> set services. unprepared s \<Longrightarrow> parse_services (dump_services services) = Loaded services"
  using service_items_dump [of "[]" services] by (simp add: parse_services_def dump_services_def or_empty_def)

definition absolute :: "string \<Rightarrow> bool" where
  "absolute p \<longleftrightarrow> p \<noteq> [] \<and> hd p = CHR ''/''"

text \<open>The configurations a file can give: those the loader produces from some document.\<close>

definition file_config :: "config \<Rightarrow> bool" where
  "file_config c \<longleftrightarrow>
     distinct (map fst (c_auth c)) \<and> distinct (map fst (c_accounting c)) \<and> distinct (map fst (c_services c))
     \<and> (\<forall>(n, s) \<in> set (c_services c). unprepared s) \<and> api_on (c_api c)"

lemma parse_api_on: "parse_api v = Loaded a \<Longrightarrow> api_on a"
  by (auto simp: parse_api_def bindL_eq_Loaded api_on_def split: if_splits)


text \<open>
  C25: a configuration written out with a key for every field is loaded back as it was, provided that
  it is well formed and its two file names are absolute: every field is read from its own key, with the
  type it was written with.
\<close>
theorem load_dump:
  assumes "file_config c" "absolute (c_radius_dictionary c)" "absolute (c_tc_file c)"
  shows "load base (Inr (YMap (dump c))) = Loaded c"
  using assms by (simp add: load_def load_map_def dump_def yget_def of_res_def resolve_def absolute_def file_config_def
      parse_services_dump parse_pool_dump parse_mysql_dump parse_api_dump)

text \<open>
  An empty document, or one whose sections are empty, is loaded as the defaults that the classes
  declare, with the two files looked for beside the configuration file.
\<close>
theorem load_defaults:
  assumes "base \<noteq> []" "last base \<noteq> CHR ''/''"
  shows "load base (Inr (YMap [])) = Loaded (default_config (base @ ''/raddb/dictionary'') (base @ ''/tc.conf''))
     \<and> parse_entry [] = Loaded default_entry"
  using assms by (simp_all add: load_def load_map_def yget_def of_res_def resolve_def parse_services_def or_empty_def
      parse_pool_def parse_mysql_def parse_api_def to_list_def to_bytes_def default_config_def parse_entry_def default_entry_def)


section \<open>A document\<close>

definition sample_doc :: ymap where
  "sample_doc =
     [(YStr ''tc_file'', YStr ''/etc/isg/tc.conf''), (YStr ''auth_workers'', YStr ''4''),
      (YStr ''auth'', YMap [(YInt 1, YMap [(YStr ''server'', YStr ''10.0.0.1:1812'')]), (YStr ''1'', YMap [(YStr ''server'', YStr ''10.0.0.2:1812'')])]),
      (YStr ''services'', YMap [(YStr ''gold'', YMap [(YStr ''traffic_classes'', YList [YStr ''all''])])])]"


theorem load_dump_witness:
  "load ''/etc'' (Inr (YMap (dump (default_config ''/etc/raddb/dictionary'' ''/etc/tc.conf'')))) = Loaded (default_config ''/etc/raddb/dictionary'' ''/etc/tc.conf'')"
  by (rule load_dump) (simp_all add: file_config_def default_config_def api_on_def absolute_def)

theorem load_defaults_witness:
  "load ''/etc/isg'' (Inr (YMap [])) = Loaded (default_config ''/etc/isg/raddb/dictionary'' ''/etc/isg/tc.conf'')"
  using load_defaults [of "''/etc/isg''"] by simp

end
