(* ===== verification/Cli.thy ===== *)
theory Cli
  imports Monitor Config_Load
begin

unbundle bit_operations_syntax

text \<open>
  The command line tool, \<^verbatim>\<open>app/ISG.py\<close>: the formatting of the session table, the target argument and
  every command, with what it prints, what it sends and the exit status.
\<close>

section \<open>Formatting\<close>

definition ESC :: char where "ESC = CHR 0x1B"

definition colour :: "bool \<Rightarrow> string \<Rightarrow> string \<Rightarrow> string" where
  "colour no_color code text = (if no_color then text else [ESC] @ ''['' @ code @ ''m'' @ text @ [ESC] @ ''[0m'')"

text \<open>\<^verbatim>\<open>_load_arp_table\<close> and \<^verbatim>\<open>get_mac\<close> with the table they keep.\<close>

definition load_arp_table :: "string list res \<Rightarrow> (string, string) odict \<Rightarrow> (string, string) odict res" where
  "load_arp_table proc_arp table =
     (case proc_arp of
        Inl e \<Rightarrow> if is_oserror e then Inr table else Inl e
      | Inr [] \<Rightarrow> Inl OtherError
      | Inr (_ # lines) \<Rightarrow>
          Inr (foldl (\<lambda>d line. let parts = split_ws line in
                 if 4 \<le> length parts then AList.update (parts ! 0) (parts ! 3) d else d) table lines))"

definition get_mac :: "bool \<Rightarrow> string list res \<Rightarrow> string \<Rightarrow> (string, string) odict \<Rightarrow> (string \<times> (string, string) odict) res" where
  "get_mac no_color proc_arp ip table =
     bindE (if table = [] then load_arp_table proc_arp table else Inr table) (\<lambda>table'.
       Inr (case map_of table' ip of
              Some mac \<Rightarrow> if mac \<noteq> [] then mac else colour no_color ''31'' ''Not found''
            | None \<Rightarrow> colour no_color ''31'' ''Not found'', table'))"

definition rjust :: "nat \<Rightarrow> string \<Rightarrow> string" where
  "rjust n s = replicate (n - length s) CHR '' '' @ s"

text \<open>\<^verbatim>\<open>f'{n:0<k>d}'\<close> of a number that is not negative.\<close>

definition zpad :: "nat \<Rightarrow> int \<Rightarrow> string" where
  "zpad k n = (let s = show_nat (nat n) in replicate (k - length s) CHR ''0'' @ s)"

definition format_duration :: "bool \<Rightarrow> int \<Rightarrow> string" where
  "format_duration no_color seconds =
     (let d = seconds div 86400; h = (seconds mod 86400) div 3600; m = (seconds mod 3600) div 60; s = seconds mod 60
      in rjust 3 (show_int d) @ ''d'' @ colour no_color ''33'' (zpad 2 h @ '':'' @ zpad 2 m @ '':'' @ zpad 2 s))"

definition format_octets :: "int \<Rightarrow> string" where
  "format_octets b =
     (let g = b div 1000000000; r1 = b mod 1000000000; m = r1 div 1000000; r2 = r1 mod 1000000; k = r2 div 1000; r = r2 mod 1000
      in rjust 8 (show_int g) @ ''g'' @ zpad 3 m @ ''.'' @ zpad 3 k @ ''.'' @ zpad 3 r)"

definition format_rate :: "int \<Rightarrow> string" where
  "format_rate rate =
     (if 1000000000 \<le> rate then fmt_3g (to_double (of_int rate / 1000000000)) @ ''G''
      else if 1000000 \<le> rate then fmt_3g (to_double (of_int rate / 1000000)) @ ''M''
      else if 1000 \<le> rate then fmt_3g (to_double (of_int rate / 1000)) @ ''K''
      else show_int rate)"

text \<open>The two marks are U+2717 and U+2714.\<close>

definition sprint_flags :: "bool \<Rightarrow> nl_event \<Rightarrow> string" where
  "sprint_flags no_color ev =
     (let f = e_flags ev in
      if f = 0 then colour no_color ''31'' [CHR 0xE2, CHR 0x9C, CHR 0x97] @ '' X''
      else
        let (emoji, s0) =
              (if f AND IS_SERVICE \<noteq> 0 then ([], ''S'')
               else if f AND IS_APPROVED_SESSION \<noteq> 0 then (colour no_color ''32'' [CHR 0xE2, CHR 0x9C, CHR 0x94] @ '' '', ''A'')
               else ([], []));
            s = s0 @ (if f AND SERVICE_STATUS_ON \<noteq> 0 then ''O'' else []) @ (if f AND SERVICE_ONLINE \<noteq> 0 then ''U'' else [])
              @ (if f AND NO_ACCT \<noteq> 0 then ''Z'' else []) @ (if f AND SERVICE_TAGGER \<noteq> 0 then ''T'' else [])
        in if emoji \<noteq> [] \<or> s \<noteq> [] then emoji @ s else ''X'')"


section \<open>The table\<close>

definition COLUMN_DEFS :: "(string \<times> string \<times> nat) list" where
  "COLUMN_DEFS =
     [(''user_ip'', ''User IP'', 15), (''mac'', ''MAC Address'', 17), (''nat_ip'', ''NAT IP'', 15), (''port'', ''Port'', 13),
      (''session_id'', ''Session-ID'', 16), (''duration'', ''  Duration'', 12), (''octets_in'', ''       Octets-in'', 20),
      (''octets_out'', ''       Octets-out'', 20), (''rate_in'', ''Rate-in'', 7), (''rate_out'', ''Rate-out'', 8),
      (''service'', ''Service'', 16), (''flags'', ''Flags'', 0)]"

definition ALL_COLUMNS :: "string list" where
  "ALL_COLUMNS = map fst COLUMN_DEFS"

definition cell_value :: "bool \<Rightarrow> string list res \<Rightarrow> string \<Rightarrow> nl_event \<Rightarrow> (string, string) odict \<Rightarrow> (string \<times> (string, string) odict) res" where
  "cell_value no_color proc_arp key e table =
     (if key = ''user_ip'' then bindE (long2ip (e_ipaddr e)) (\<lambda>v. Inr (v, table))
      else if key = ''mac'' then bindE (long2ip (e_ipaddr e)) (\<lambda>ip. get_mac no_color proc_arp ip table)
      else if key = ''nat_ip'' then bindE (long2ip (e_nat_ipaddr e)) (\<lambda>v. Inr (v, table))
      else if key = ''port'' then Inr (''Virtual'' @ show_int (e_port_number e), table)
      else if key = ''session_id'' then Inr (e_session_id e, table)
      else if key = ''duration'' then Inr (format_duration no_color (e_duration e), table)
      else if key = ''octets_in'' then Inr (format_octets (e_in_bytes e), table)
      else if key = ''octets_out'' then Inr (format_octets (e_out_bytes e), table)
      else if key = ''rate_in'' then Inr (format_rate (e_in_rate e), table)
      else if key = ''rate_out'' then Inr (format_rate (e_out_rate e), table)
      else if key = ''service'' then Inr (case e_service_name e of Some n \<Rightarrow> if n \<noteq> [] then n else ''Main session'' | None \<Rightarrow> ''Main session'', table)
      else Inr (sprint_flags no_color e, table))"

text \<open>\<^verbatim>\<open>\033\[[0-9;]*m\<close> replaced by nothing, and the number of characters of a UTF-8 text.\<close>

definition is_param :: "char \<Rightarrow> bool" where
  "is_param c \<longleftrightarrow> is_digit c \<or> c = CHR '';''"

function strip_ansi :: "string \<Rightarrow> string" where
  "strip_ansi s =
     (case s of
        [] \<Rightarrow> []
      | c # r \<Rightarrow>
          (let t = dropWhile is_param (tl r) in
           if c = ESC \<and> r \<noteq> [] \<and> hd r = CHR ''['' \<and> t \<noteq> [] \<and> hd t = CHR ''m'' then strip_ansi (tl t)
           else c # strip_ansi r))"
  by pat_completeness auto
termination
proof (relation "measure length")
  show "wf (measure (length :: string \<Rightarrow> nat))" by simp
next
  fix s c r t :: string and x
  assume "s = x # r" "t = dropWhile is_param (tl r)" 
  then show "(tl t, s) \<in> measure length"
    using length_dropWhile_le [of is_param "tl r"] by simp
qed auto

declare strip_ansi.simps [simp del]

definition text_len :: "string \<Rightarrow> nat" where
  "text_len s = length (filter (\<lambda>c. \<not> (128 \<le> (of_char c :: nat) \<and> (of_char c :: nat) < 192)) s)"

definition pad_to :: "string \<Rightarrow> nat \<Rightarrow> string" where
  "pad_to s width = s @ replicate (width - text_len (strip_ansi s)) CHR '' ''"

fun pad_cells :: "(string \<times> nat) list \<Rightarrow> string list" where
  "pad_cells [] = []"
| "pad_cells [(v, w)] = [v]"
| "pad_cells ((v, w) # c # cs) = pad_to v w # pad_cells (c # cs)"

definition col_info :: "string \<Rightarrow> string \<times> nat" where
  "col_info key = (case map_of COLUMN_DEFS key of Some hw \<Rightarrow> hw | None \<Rightarrow> ([], 0))"

fun row_cells :: "bool \<Rightarrow> string list res \<Rightarrow> nl_event \<Rightarrow> string list \<Rightarrow> (string, string) odict
    \<Rightarrow> ((string \<times> nat) list \<times> (string, string) odict) res" where
  "row_cells no_color proc_arp e [] table = Inr ([], table)"
| "row_cells no_color proc_arp e (key # keys) table =
     bindE (cell_value no_color proc_arp key e table) (\<lambda>(v, table').
     bindE (row_cells no_color proc_arp e keys table') (\<lambda>(vs, table'').
       Inr ((v, snd (col_info key)) # vs, table'')))"

fun print_rows :: "bool \<Rightarrow> string list res \<Rightarrow> string list \<Rightarrow> nl_event list \<Rightarrow> (string, string) odict \<Rightarrow> string list \<times> unit res" where
  "print_rows no_color proc_arp cols [] table = ([], Inr ())"
| "print_rows no_color proc_arp cols (e # rows) table =
     (if e_type e \<noteq> EVENT_SESS_INFO \<or> e_ipaddr e = 0 then print_rows no_color proc_arp cols rows table
      else case row_cells no_color proc_arp e cols table of
             Inl x \<Rightarrow> ([], Inl x)
           | Inr (cells, table') \<Rightarrow>
               let (lines, r) = print_rows no_color proc_arp cols rows table' in (join '' '' (pad_cells cells) # lines, r))"

definition print_table :: "bool \<Rightarrow> string list res \<Rightarrow> nl_event list \<Rightarrow> string list \<Rightarrow> string list \<times> unit res" where
  "print_table no_color proc_arp rows active_columns =
     (let cols = filter (\<lambda>k. k \<in> set active_columns) ALL_COLUMNS;
          (lines, r) = print_rows no_color proc_arp cols rows []
      in (join '' '' (pad_cells (map col_info cols)) # lines, r))"


section \<open>Settings\<close>

text \<open>\<^verbatim>\<open>os.path.splitext(p)[0]\<close>\<close>

definition splitext_root :: "string \<Rightarrow> string" where
  "splitext_root p =
     (let base = rev (takeWhile (\<lambda>c. c \<noteq> CHR ''/'') (rev p));
          name = dropWhile (\<lambda>c. c = CHR ''.'') base
      in if CHR ''.'' \<in> set name then take (length p - length (takeWhile (\<lambda>c. c \<noteq> CHR ''.'') (rev p)) - 1) p else p)"

record cli_settings =
  cs_no_color :: bool
  cs_columns :: "string list"
  cs_status_path :: "string option"

definition known_columns :: "yval list \<Rightarrow> string list" where
  "known_columns vs = concat (map (\<lambda>v. case v of YStr s \<Rightarrow> if s \<in> set ALL_COLUMNS then [s] else [] | _ \<Rightarrow> []) vs)"

text \<open>
  The settings from \<^verbatim>\<open>config.yaml\<close>: \<open>None\<close> if there is no such file. An exception stops the reading and is
  dropped, what was read before it stays.
\<close>

definition read_settings :: "yval res option \<Rightarrow> cli_settings" where
  "read_settings conf =
     (let defaults = \<lparr>cs_no_color = False, cs_columns = ALL_COLUMNS, cs_status_path = None\<rparr> in
      case conf of
        Some (Inr v) \<Rightarrow>
          (case (if truthy v then v else YMap []) of
             YMap m \<Rightarrow>
               \<lparr>cs_no_color = truthy (yget m ''no_color_output'' (YBool False)),
                cs_columns = (case map_of m (YStr ''columns'') of Some (YList vs) \<Rightarrow> known_columns vs | _ \<Rightarrow> ALL_COLUMNS),
                cs_status_path = (case yget m ''pid_file'' (YStr ''/var/run/ISGd.pid'') of
                                    YStr p \<Rightarrow> Some (splitext_root p @ ''.status'') | _ \<Rightarrow> None)\<rparr>
           | _ \<Rightarrow> defaults)
      | _ \<Rightarrow> defaults)"


section \<open>Commands\<close>

definition parse_target :: "string \<Rightarrow> evdict res" where
  "parse_target arg =
     (case re_virtual arg of
        Some d \<Rightarrow> bindE (py_int d) (\<lambda>n. Inr [Kport_number \<mapsto> VInt n])
      | None \<Rightarrow>
          if re_quad arg then bindE (ip2long arg) (\<lambda>ip. Inr [Kipaddr \<mapsto> VInt ip])
          else Inr [Ksession_id \<mapsto> VBytes (session_id_to_bytes arg)])"

datatype cli_out = Out string | Err string | ErrExn exn | Usage

datatype cli_end = CliExit int | CliRaise exn | CliRunning

type_synonym cli_result = "cli_end \<times> cli_out list"

text \<open>What a run of the tool meets: the configuration file, the socket, the kernel's ARP table and the inputs of
  the monitor.\<close>

record cli_env =
  ce_conf :: "yval res option"
  ce_open :: "nlsock res"
  ce_arp :: "string list res"
  ce_inputs :: "mon_input list"

text \<open>The end of a command inside the \<^verbatim>\<open>try\<close>: an \<^verbatim>\<open>OSError\<close> is reported, any other exception goes on.\<close>

definition cli_catch :: "cli_result nl \<Rightarrow> nlsock \<Rightarrow> cli_result \<times> nlsock" where
  "cli_catch act s =
     (case act s of
        (Inr r, s') \<Rightarrow> (r, s')
      | (Inl e, s') \<Rightarrow> (if is_oserror e then (CliExit 1, [ErrExn e]) else (CliRaise e, []), s'))"

definition ack_status :: "string \<Rightarrow> nl_event \<Rightarrow> cli_result" where
  "ack_status msg rep = (if e_type rep \<noteq> EVENT_KERNEL_ACK then (CliExit 1, [Err msg]) else (CliExit 0, []))"

definition cmd_clear :: "evdict \<Rightarrow> cli_result nl" where
  "cmd_clear ev =
     nl_bind (send_event (ev(Ktype \<mapsto> VInt EVENT_SESS_CLEAR))) (\<lambda>rep. nl_return (ack_status ''clear: session not found'' rep))"

definition port_clear :: "nl_event \<Rightarrow> evdict" where
  "port_clear row = [Ktype \<mapsto> VInt EVENT_SESS_CLEAR, Kport_number \<mapsto> VInt (e_port_number row)]"

definition clear_rows :: "(nl_event \<Rightarrow> bool) \<Rightarrow> string \<Rightarrow> cli_result nl" where
  "clear_rows sel what =
     nl_bind (get_list [Ktype \<mapsto> VInt EVENT_SESS_GETLIST]) (\<lambda>(sessions, _).
       let rows = filter sel sessions in
       nl_bind (send_all (map port_clear rows)) (\<lambda>_.
         nl_return (CliExit 0, [Out (''Cleared '' @ show_nat (length rows) @ what)])))"

definition cmd_clear_all :: "cli_result nl" where
  "cmd_clear_all = clear_rows (\<lambda>row. e_flags row AND IS_SERVICE = 0) '' sessions''"

definition cmd_clear_unapproved :: "cli_result nl" where
  "cmd_clear_unapproved = clear_rows (\<lambda>row. e_flags row AND (IS_SERVICE OR IS_APPROVED_SESSION) = 0) '' unapproved sessions''"

definition cmd_change_rate :: "evdict \<Rightarrow> string \<Rightarrow> string \<Rightarrow> cli_result nl" where
  "cmd_change_rate ev a b =
     nl_bind (nl_lift (py_int a)) (\<lambda>in_k.
     nl_bind (nl_lift (py_int b)) (\<lambda>out_k.
     nl_bind (nl_lift (rate_event ev (in_k * 1000) (out_k * 1000))) (\<lambda>ev'.
     nl_bind (send_event ev') (\<lambda>rep. nl_return (ack_status ''change_rate: session not found'' rep)))))"

definition cmd_show_count :: "cli_result nl" where
  "cmd_show_count =
     nl_bind (send_event [Ktype \<mapsto> VInt EVENT_SESS_GETCOUNT]) (\<lambda>rep.
       let act = ntohl (e_ipaddr rep); unap = ntohl (e_nat_ipaddr rep); dying = e_port_number rep; noacc = e_alive_interval rep;
           tab = [CHR 0x09]
       in nl_return (CliExit 0,
            [Out (''Approved:'' @ tab @ show_int (act - noacc)), Out (''Unapproved:'' @ tab @ show_int unap),
             Out (''Dying:'' @ tab @ tab @ show_int dying), Out (''No-accounting:'' @ tab @ show_int noacc),
             Out (''Total:'' @ tab @ tab @ show_int (act + unap + dying))]))"

definition show_rows :: "cli_settings \<Rightarrow> string list res \<Rightarrow> nl_event list \<Rightarrow> bool \<Rightarrow> cli_result" where
  "show_rows st proc_arp rows ok =
     (if \<not> ok then (CliExit 1, [Err (''Kernel did not respond '' @ [CHR 0xE2, CHR 0x80, CHR 0x94] @ '' is the ISG module loaded?'')])
      else if rows = [] then (CliExit 0, [Out ''No active sessions.''])
      else let (lines, r) = print_table (cs_no_color st) proc_arp rows (cs_columns st) in
           case r of
             Inr _ \<Rightarrow> (CliExit 0, map Out lines)
           | Inl e \<Rightarrow> if is_oserror e then (CliExit 1, map Out lines @ [ErrExn e]) else (CliRaise e, map Out lines))"

definition cmd_show :: "cli_settings \<Rightarrow> string list res \<Rightarrow> evdict \<Rightarrow> int \<Rightarrow> cli_result nl" where
  "cmd_show st proc_arp ev code =
     nl_bind (get_list (ev(Ktype \<mapsto> VInt code))) (\<lambda>(rows, ok). nl_return (show_rows st proc_arp rows ok))"

definition mon_result :: "'m mon_end \<Rightarrow> cli_result" where
  "mon_result fin = (case fin of Exit rc \<Rightarrow> (CliExit rc, []) | Crash e \<Rightarrow> (CliRaise e, []) | Running _ \<Rightarrow> (CliRunning, []))"

definition cli_command :: "cli_settings \<Rightarrow> cli_env \<Rightarrow> string list \<Rightarrow> evdict \<Rightarrow> nlsock \<Rightarrow> cli_result \<times> nlsock" where
  "cli_command st env args ev s =
     (if length args = 2 \<and> args ! 0 = ''clear'' then cli_catch (cmd_clear ev) s
      else if args = [''clear_all''] then cli_catch cmd_clear_all s
      else if args = [''clear_unapproved''] then cli_catch cmd_clear_unapproved s
      else if length args = 2 \<and> args ! 0 = ''monitor'' then
        (let (fin, s') = mon_run ev (args ! 1) (ce_inputs env) new_monitor s in (mon_result fin, s'))
      else if args = [''monitor''] then
        (let (fin, s') = global_run (ce_inputs env) new_gmonitor s in (mon_result fin, s'))
      else if length args = 4 \<and> args ! 0 = ''change_rate'' then cli_catch (cmd_change_rate ev (args ! 2) (args ! 3)) s
      else if args = [''show_count''] then cli_catch cmd_show_count s
      else if args = [] \<or> (length args = 1 \<or> length args = 2) \<and> (args ! 0 = ''show_session'' \<or> args ! 0 = ''show_services'') then
        cli_catch (cmd_show st (ce_arp env) ev
          (if args \<noteq> [] \<and> args ! 0 = ''show_services'' then EVENT_SERV_GETLIST else EVENT_SESS_GETLIST)) s
      else ((CliExit 1, [Usage]), s))"

definition is_color_option :: "string \<Rightarrow> bool" where
  "is_color_option a \<longleftrightarrow> a = ''--no-color'' \<or> a = ''--no-colour''"

text \<open>\<^verbatim>\<open>main()\<close>; the target is parsed before the \<^verbatim>\<open>try\<close>. The result has the socket, if one was opened.\<close>

definition cli_main :: "cli_env \<Rightarrow> string list \<Rightarrow> cli_result \<times> nlsock option" where
  "cli_main env raw_args =
     (let args = filter (\<lambda>a. \<not> is_color_option a) raw_args;
          st0 = read_settings (ce_conf env);
          st = (if list_ex is_color_option raw_args then st0\<lparr>cs_no_color := True\<rparr> else st0)
      in case ce_open env of
           Inl e \<Rightarrow> (if is_oserror e then (CliExit 1, [ErrExn e]) else (CliRaise e, []), None)
         | Inr s \<Rightarrow>
             (case (if 2 \<le> length args then parse_target (args ! 1) else Inr Map.empty) of
                Inl e \<Rightarrow> ((CliRaise e, []), Some s)
              | Inr ev \<Rightarrow> let (r, s') = cli_command st env args ev s in (r, Some s')))"

text \<open>The script's last lines.\<close>

definition cli_script :: "cli_env \<Rightarrow> string list \<Rightarrow> cli_result \<times> nlsock option" where
  "cli_script env raw_args =
     (let ((fin, outs), s) = cli_main env raw_args in
      ((if fin = CliRaise KeyboardInterrupt then CliExit 130 else fin, outs), s))"


section \<open>Reading the formatted numbers\<close>

lemma dec_val_append: "dec_val (s @ t) = dec_val s * 10 ^ length t + dec_val t"
proof (induction t rule: rev_induct)
  case Nil
  show ?case by (simp add: dec_val_def)
next
  case (snoc c t)
  have "dec_val (s @ t @ [c]) = 10 * dec_val (s @ t) + digit_val c" using dec_val_snoc [of "s @ t" c] by simp
  with snoc show ?case by (simp add: dec_val_snoc algebra_simps)
qed

lemma dec_val_zeros: "dec_val (replicate n CHR ''0'') = 0"
  by (induction n) (simp_all add: dec_val_def digit_val_def replicate_append_same [symmetric])

lemma show_nat_length: "n < 10 ^ Suc k \<Longrightarrow> length (show_nat n) \<le> Suc k"
proof (induction k arbitrary: n)
  case 0
  then show ?case by (subst show_nat.simps) simp
next
  case (Suc k)
  then have "n div 10 < 10 ^ Suc k" by (simp add: div_less_iff_less_mult)
  from Suc.IH [OF this] show ?case by (subst show_nat.simps) simp
qed

lemma zpad_facts:
  assumes "0 \<le> n" "n < 10 ^ Suc k"
  shows "length (zpad (Suc k) n) = Suc k" "list_all is_digit (zpad (Suc k) n)" "int (dec_val (zpad (Suc k) n)) = n"
proof -
  have "nat n < 10 ^ Suc k" using assms by (simp add: nat_less_iff)
  from show_nat_length [OF this] show "length (zpad (Suc k) n) = Suc k" by (simp add: zpad_def Let_def)
  show "list_all is_digit (zpad (Suc k) n)" using show_nat_digits [of "nat n"] by (auto simp: zpad_def Let_def list_all_iff is_digit_def)
  show "int (dec_val (zpad (Suc k) n)) = n" using assms(1) by (simp add: zpad_def Let_def dec_val_append dec_val_zeros)
qed

lemma filter_digits: "list_all is_digit s \<Longrightarrow> filter is_digit s = s"
  by (simp add: list_all_iff filter_id_conv)

lemma filter_rjust: "filter is_digit (rjust n (show_int k)) = show_nat (nat \<bar>k\<bar>)"
proof -
  have "filter is_digit (replicate m CHR '' '') = []" for m by (induction m) (simp_all add: is_digit_def)
  moreover have "filter is_digit (show_int k) = show_nat (nat \<bar>k\<bar>)"
    using show_nat_digits by (auto simp: show_int_def filter_digits is_digit_def)
  ultimately show ?thesis by (simp add: rjust_def)
qed

text \<open>
  The octet count in the table is exact at any size: the digits of the formatted text, read as one
  decimal number, are the counter.
\<close>
theorem octets_readable:
  assumes "0 \<le> b"
  shows "int (dec_val (filter is_digit (format_octets b))) = b"
proof -
  define g r1 m r2 k r where d: "g = b div 1000000000" "r1 = b mod 1000000000" "m = r1 div 1000000" "r2 = r1 mod 1000000" "k = r2 div 1000" "r = r2 mod 1000"
  have bounds: "0 \<le> g" "0 \<le> m" "m < 10 ^ Suc 2" "0 \<le> k" "k < 10 ^ Suc 2" "0 \<le> r" "r < 10 ^ Suc 2"
    using assms by (simp_all add: d)
  note z = zpad_facts [OF bounds(2,3)] zpad_facts [OF bounds(4,5)] zpad_facts [OF bounds(6,7)]
  have "filter is_digit (format_octets b) = show_nat (nat g) @ zpad 3 m @ zpad 3 k @ zpad 3 r"
    using z bounds(1) by (simp add: format_octets_def Let_def d [symmetric] filter_rjust filter_digits is_digit_def numeral_3_eq_3)
  then have "int (dec_val (filter is_digit (format_octets b))) = ((g * 1000 + m) * 1000 + k) * 1000 + r"
    using z bounds(1) by (simp add: dec_val_append numeral_3_eq_3 algebra_simps)
  also have "\<dots> = b" by (simp add: d)
  finally show ?thesis .
qed

text \<open>
  The duration in the table is exact: the day count, and the digits of hours, minutes and seconds,
  each below its modulus, give back the number of seconds.
\<close>
theorem duration_readable:
  assumes "0 \<le> seconds"
  shows "\<exists>d h m s. format_duration True seconds = rjust 3 (show_int d) @ ''d'' @ zpad 2 h @ '':'' @ zpad 2 m @ '':'' @ zpad 2 s
     \<and> 0 \<le> d \<and> h \<in> {0..<24} \<and> m \<in> {0..<60} \<and> s \<in> {0..<60} \<and> seconds = ((d * 24 + h) * 60 + m) * 60 + s
     \<and> int (dec_val (zpad 2 h)) = h \<and> int (dec_val (zpad 2 m)) = m \<and> int (dec_val (zpad 2 s)) = s"
proof -
  let ?d = "seconds div 86400" and ?h = "(seconds mod 86400) div 3600" and ?m = "(seconds mod 3600) div 60" and ?s = "seconds mod 60"
  have m: "?m = seconds div 60 mod 60" using zmod_zmult2_eq [of 60 seconds 60] by simp
  have h: "?h = seconds div 3600 mod 24" using zmod_zmult2_eq [of 24 seconds 3600] by simp
  have "?h \<in> {0..<24}" "?m \<in> {0..<60}" unfolding m h by simp_all
  then have b: "0 \<le> ?d" "?h \<in> {0..<24}" "?m \<in> {0..<60}" "?s \<in> {0..<60}" using assms by (auto simp: pos_imp_zdiv_nonneg_iff)
  have sum: "seconds = ((?d * 24 + ?h) * 60 + ?m) * 60 + ?s"
  proof -
    have "seconds div 60 div 60 = seconds div 3600" using zdiv_zmult2_eq [of 60 seconds 60] by simp
    moreover have "seconds div 3600 div 24 = ?d" using zdiv_zmult2_eq [of 24 seconds 3600] by simp
    ultimately show ?thesis unfolding m h by (metis div_mult_mod_eq)
  qed
  have z: "int (dec_val (zpad 2 n)) = n" if "0 \<le> n" "n < 60" for n
    using zpad_facts(3) [of n 1] that by (simp add: numeral_2_eq_2)
  have fmt: "format_duration True seconds = rjust 3 (show_int ?d) @ ''d'' @ zpad 2 ?h @ '':'' @ zpad 2 ?m @ '':'' @ zpad 2 ?s"
    by (simp add: format_duration_def colour_def)
  have "int (dec_val (zpad 2 ?h)) = ?h" "int (dec_val (zpad 2 ?m)) = ?m" "int (dec_val (zpad 2 ?s)) = ?s"
    using b(2-4) by (intro z; simp)+
  with fmt b sum show ?thesis
    by (intro exI [of _ ?d] exI [of _ ?h] exI [of _ ?m] exI [of _ ?s] conjI)
qed


section \<open>Alignment\<close>

lemma strip_ansi_Nil [simp]: "strip_ansi [] = []"
  by (subst strip_ansi.simps) simp

lemma strip_ansi_plain: "c \<noteq> ESC \<Longrightarrow> strip_ansi (c # r) = c # strip_ansi r"
  by (subst strip_ansi.simps) simp

lemma strip_ansi_text: "ESC \<notin> set s \<Longrightarrow> strip_ansi (s @ r) = s @ strip_ansi r"
  by (induction s) (auto simp: strip_ansi_plain)

lemma strip_ansi_code: "list_all is_param code \<Longrightarrow> strip_ansi ([ESC] @ ''['' @ code @ ''m'' @ r) = strip_ansi r"
proof -
  assume c: "list_all is_param code"
  have "\<not> is_param CHR ''m''" by (simp add: is_param_def is_digit_def)
  with c have "dropWhile is_param (code @ CHR ''m'' # r) = CHR ''m'' # r" by (simp add: list_all_iff)
  with \<open>\<not> is_param CHR ''m''\<close> show ?thesis by (subst strip_ansi.simps) (simp del: dropWhile_eq_Cons_conv add: Let_def)
qed

lemma strip_ansi_colour:
  assumes "ESC \<notin> set shown" "list_all is_param code"
  shows "strip_ansi (colour no_color code shown @ r) = shown @ strip_ansi r"
proof (cases no_color)
  case True
  then show ?thesis using assms by (simp add: colour_def strip_ansi_text)
next
  case False
  have zero: "list_all is_param ''0''" by (simp add: is_param_def is_digit_def)
  from False have "colour no_color code shown @ r = [ESC] @ ''['' @ code @ ''m'' @ (shown @ [ESC] @ ''['' @ ''0'' @ ''m'' @ r)"
    by (simp add: colour_def)
  then have "strip_ansi (colour no_color code shown @ r) = strip_ansi (shown @ ([ESC] @ ''['' @ ''0'' @ ''m'' @ r))"
    by (simp only: strip_ansi_code [OF assms(2)])
  also have "\<dots> = shown @ strip_ansi ([ESC] @ ''['' @ ''0'' @ ''m'' @ r)" by (rule strip_ansi_text [OF assms(1)])
  finally show ?thesis by (simp only: strip_ansi_code [OF zero])
qed

text \<open>
  Colours do not disturb the table: a coloured text shows the same characters as the plain one, and a
  padded cell takes as many columns with colours as without.
\<close>
theorem colours_invisible:
  assumes "ESC \<notin> set shown" "list_all is_param code"
  shows "strip_ansi (colour no_color code shown) = shown
     \<and> text_len (strip_ansi (pad_to (colour no_color code shown) width)) = max width (text_len shown)"
proof -
  note e = strip_ansi_colour [OF assms, of no_color]
  have sp: "ESC \<notin> set (replicate n CHR '' '')" for n by (simp add: ESC_def)
  have "text_len (replicate n CHR '' '') = n" for n by (simp add: text_len_def)
  then have "text_len (shown @ replicate n CHR '' '') = text_len shown + n" for n by (simp add: text_len_def)
  then show ?thesis using e [of "[]"] e [of "replicate n CHR '' ''" for n] strip_ansi_text [OF sp, of _ "[]"]
    by (simp add: pad_to_def)
qed


section \<open>Commands\<close>

lemma sends_send_all [nl_rules]: "(\<And>ev. ev \<in> set evs \<Longrightarrow> P ev) \<Longrightarrow> sends P (send_all evs)"
  by (induction evs) (auto intro!: nl_rules)

definition changes_nothing :: "int \<Rightarrow> bool" where
  "changes_nothing t \<longleftrightarrow> t = EVENT_SESS_GETLIST \<or> t = EVENT_SERV_GETLIST \<or> t = EVENT_SESS_GETCOUNT \<or> t = EVENT_SESS_GETTOTALS"

definition reading_event :: "evdict \<Rightarrow> bool" where
  "reading_event ev \<longleftrightarrow> (\<exists>t. ev Ktype = Some (VInt t) \<and> changes_nothing t)"

lemma cli_catch_socket: "snd (cli_catch act s) = snd (act s)"
  by (auto simp: cli_catch_def split: prod.split sum.split)

lemma sends_show: "sends reading_event cmd_show_count" "code = EVENT_SESS_GETLIST \<or> code = EVENT_SERV_GETLIST \<Longrightarrow> sends reading_event (cmd_show st arp ev code)"
  unfolding cmd_show_count_def cmd_show_def Let_def
  by (intro nl_rules; simp add: reading_event_def changes_nothing_def) (auto simp: reading_event_def changes_nothing_def intro!: nl_rules split: prod.split)

lemma sends_global_refresh: "sends reading_event (global_refresh t g)"
  unfolding global_refresh_def by (intro nl_rules; simp add: reading_event_def changes_nothing_def)

lemma global_run_reading: "sent_ok reading_event s (snd (global_run inps g s))"
proof (induction inps arbitrary: g s)
  case Nil
  show ?case by (simp add: sent_ok_refl)
next
  case (Cons inp inps)
  have step: "sent_ok reading_event s (snd (global_step inp g s))"
  proof (cases inp)
    case (Refresh t)
    then have "snd (global_step inp g s) = snd (global_refresh t g s)" by (simp add: global_step_def split: prod.split sum.split)
    then show ?thesis using sends_global_refresh by (simp add: sends_def)
  qed (simp add: global_step_def sent_ok_refl)
  show ?case
  proof (cases "global_step inp g s")
    case (Pair fin s')
    with step Cons [where s = s'] show ?thesis by (cases fin) (auto intro: sent_ok_trans)
  qed
qed

text \<open>The commands that may change a session.\<close>

definition changing_command :: "string list \<Rightarrow> bool" where
  "changing_command args \<longleftrightarrow> args \<noteq> [] \<and> (args ! 0 = ''clear'' \<or> args ! 0 = ''clear_all'' \<or> args ! 0 = ''clear_unapproved''
     \<or> args ! 0 = ''change_rate'' \<or> args ! 0 = ''monitor'' \<and> length args = 2)"

lemma sent_ok_types:
  assumes "sent_ok reading_event s s'" "x \<in> set (new_messages s s')"
  shows "changes_nothing (msg_type x)"
proof -
  from sent_ok_new [OF assms] obtain ev t where "ev Ktype = Some (VInt t)" "changes_nothing t" "frame (sk_portid s) ev = Inr x"
    unfolding reading_event_def by blast
  moreover from this have "ev_type (blank ++ ev) = VInt t" by (simp add: ev_type_def ev_get_def map_add_def)
  ultimately show ?thesis using frame_msg_type [of "sk_portid s" ev x] by simp
qed

text \<open>
  Only the commands clear, clear_all, clear_unapproved, change_rate and the monitor of one session can
  change the kernel: every other command line sends requests for lists, counters and totals, or nothing.
\<close>
theorem cli_queries_only_read:
  assumes "cli_command st env args ev s = (r, s')" "\<not> changing_command args" "x \<in> set (new_messages s s')"
  shows "changes_nothing (msg_type x)"
proof -
  have "sent_ok reading_event s s'"
  proof (cases "args = [''monitor'']")
    case True
    then have "s' = snd (global_run (ce_inputs env) new_gmonitor s)" using assms(1)
      by (auto simp: cli_command_def split: prod.splits)
    then show ?thesis by (simp add: global_run_reading)
  next
    case mon: False
    have show': "sent_ok reading_event s (snd (cmd_show st (ce_arp env) ev code s))" if "code = EVENT_SESS_GETLIST \<or> code = EVENT_SERV_GETLIST" for code
      using sends_show(2) [OF that] by (simp add: sends_def)
    have count: "sent_ok reading_event s (snd (cmd_show_count s))" using sends_show(1) by (simp add: sends_def)
    have no: "\<not> (length args = 2 \<and> args ! 0 = ''clear'')" "args \<noteq> [''clear_all'']" "args \<noteq> [''clear_unapproved'']"
      "\<not> (length args = 2 \<and> args ! 0 = ''monitor'')" "\<not> (length args = 4 \<and> args ! 0 = ''change_rate'')"
      using assms(2) by (auto simp: changing_command_def)
    let ?listing = "args = [] \<or> (length args = 1 \<or> length args = 2) \<and> (args ! 0 = ''show_session'' \<or> args ! 0 = ''show_services'')"
    let ?code = "if args \<noteq> [] \<and> args ! 0 = ''show_services'' then EVENT_SERV_GETLIST else EVENT_SESS_GETLIST"
    have run: "cli_command st env args ev s =
        (if args = [''show_count''] then cli_catch cmd_show_count s
         else if ?listing then cli_catch (cmd_show st (ce_arp env) ev ?code) s else ((CliExit 1, [Usage]), s))"
      unfolding cli_command_def by (simp only: no mon if_False simp_thms)
    have "s' = snd (cli_command st env args ev s)" using assms(1) by simp
    also have "\<dots> = (if args = [''show_count''] then snd (cmd_show_count s)
        else if ?listing then snd (cmd_show st (ce_arp env) ev ?code s) else s)"
      unfolding run by (simp only: cli_catch_socket snd_conv if_distrib [of snd])
    finally have eq: "s' = (if args = [''show_count''] then snd (cmd_show_count s)
        else if ?listing then snd (cmd_show st (ce_arp env) ev ?code s) else s)" .
    have either: "sent_ok reading_event s (if p then a else if q then b else s)" if "sent_ok reading_event s a" "sent_ok reading_event s b" for a b p q
      using that sent_ok_refl by simp
    have code: "?code = EVENT_SESS_GETLIST \<or> ?code = EVENT_SERV_GETLIST" by simp
    show ?thesis unfolding eq by (rule either [OF count show' [OF code]])
  qed
  then show ?thesis using assms(3) by (rule sent_ok_types)
qed

lemma flags_split: "f AND (IS_SERVICE OR IS_APPROVED_SESSION) = 0 \<longleftrightarrow> f AND IS_SERVICE = 0 \<and> f AND IS_APPROVED_SESSION = 0" for f :: int
  by (simp add: bit.conj_disj_distrib or_eq_0_iff)

lemma port_clear_message:
  assumes "frame port (port_clear row) = Inr x"
  shows "msg_type x = EVENT_SESS_CLEAR \<and> ki_port_number (kernel_in_read (drop 16 x)) = e_port_number row \<and> ki_ipaddr (kernel_in_read (drop 16 x)) = 0"
proof -
  have t: "ev_type (blank ++ port_clear row) = VInt EVENT_SESS_CLEAR" by (simp add: ev_type_def ev_get_def port_clear_def)
  have "kernel_in_read (drop 16 x) = kernel_in_of (blank ++ port_clear row)"
    using frame_session [OF assms] by (simp add: t event_codes)
  moreover have "msg_type x = EVENT_SESS_CLEAR" using frame_msg_type [OF assms] t by simp
  ultimately show ?thesis by (simp add: kernel_in_of_def ev_get_def port_clear_def map_add_def blank_def)
qed

lemma clear_rows_run:
  assumes "get_list [Ktype \<mapsto> VInt EVENT_SESS_GETLIST] s = (Inr (rows, ok), s1)"
  shows "clear_rows sel what s = nl_bind (send_all (map port_clear (filter sel rows)))
     (\<lambda>_. nl_return (CliExit 0, [Out (''Cleared '' @ show_nat (length (filter sel rows)) @ what)])) s1"
  using assms by (simp add: clear_rows_def nl_bind_def [of "get_list _"] Let_def)

text \<open>
  C17: clear_all clears exactly the listed sessions that are not services, and clear_unapproved exactly
  those that are not approved either: one message for each, by its port, in the order of the list, all of
  them if the tool exits with 0 and otherwise those of an initial part. No approved session is cleared by
  the latter.
\<close>
theorem bulk_clear_exact:
  assumes "args = [''clear_all''] \<and> sel = (\<lambda>row. e_flags row AND IS_SERVICE = 0)
      \<or> args = [''clear_unapproved''] \<and> sel = (\<lambda>row. e_flags row AND IS_SERVICE = 0 \<and> e_flags row AND IS_APPROVED_SESSION = 0)"
    and "cli_command st env args ev s = ((fin, outs), s')"
    and "get_list [Ktype \<mapsto> VInt EVENT_SESS_GETLIST] s = (Inr (rows, ok), s1)"
  shows "\<exists>n. list_all2 (\<lambda>row x. msg_type x = EVENT_SESS_CLEAR \<and> ki_port_number (kernel_in_read (drop 16 x)) = e_port_number row
              \<and> ki_ipaddr (kernel_in_read (drop 16 x)) = 0) (take n (filter sel rows)) (new_messages s1 s')
     \<and> (fin = CliExit 0 \<longrightarrow> n = length (filter sel rows))"
proof -
  obtain what where cmd: "cli_command st env args ev s = cli_catch (clear_rows sel what) s"
    using assms(1) by (auto simp: cli_command_def cmd_clear_all_def cmd_clear_unapproved_def flags_split)
  let ?evs = "map port_clear (filter sel rows)"
  obtain r s2 where send: "send_all ?evs s1 = (r, s2)" by fastforce
  from send_all_prefix [of ?evs s1] send obtain ms where ms: "sk_sent s2 = sk_sent s1 @ ms" "frames_prefix (sk_portid s1) ?evs ms"
    "r = Inr () \<longleftrightarrow> length ms = length ?evs" by auto
  have s': "s' = s2" "fin = CliExit 0 \<longrightarrow> r = Inr ()"
    using assms(2) clear_rows_run [OF assms(3), of sel what] send unfolding cmd cli_catch_def
    by (auto simp: nl_bind_def nl_return_def split: sum.splits if_splits)
  then have new: "new_messages s1 s' = ms" using ms(1) by (simp add: new_messages_eq)
  have "list_all2 (\<lambda>row x. frame (sk_portid s1) (port_clear row) = Inr x) (take (length ms) (filter sel rows)) ms"
    using ms(2) by (simp add: frames_prefix_def take_map list_all2_map1)
  then have "list_all2 (\<lambda>row x. msg_type x = EVENT_SESS_CLEAR \<and> ki_port_number (kernel_in_read (drop 16 x)) = e_port_number row
              \<and> ki_ipaddr (kernel_in_read (drop 16 x)) = 0) (take (length ms) (filter sel rows)) ms"
    by (rule list_all2_mono) (rule port_clear_message)
  with new s'(2) ms(3) show ?thesis by (intro exI [of _ "length ms"]) simp
qed

lemma send_event_answered:
  assumes "send_event ev s = (Inr rep, s')"
  shows "\<exists>m data. frame (sk_portid s) ev = Inr m \<and> new_messages s s' = [m]
     \<and> sk_recvs s = RData data # sk_recvs s' \<and> parse_event (take 16384 data) = Inr rep"
proof -
  from assms obtain t where t: "send_only ev s = (Inr (), t)" "nl_bind (nl_recv 16384) (\<lambda>data. nl_lift (parse_event data)) t = (Inr rep, s')"
    by (auto simp: send_event_def elim: bind_Inr)
  from t(1) obtain m where m: "frame (sk_portid s) ev = Inr m" "sk_sent t = sk_sent s @ [m]" by (auto elim: send_only_Inr)
  from t(1) have "sk_recvs t = sk_recvs s"
    by (auto simp: send_only_def nl_bind_def nl_lift_def nl_sendto.simps split: sum.splits list.splits if_splits)
  with t(2) m show ?thesis
    by (auto simp: nl_bind_def nl_lift_def nl_recv.simps new_messages_def split: list.splits sum.splits recv_outcome.splits)
qed

text \<open>
  C18: the exit status can be relied on: clear and change_rate exit with 0 only if one message of the
  right type, addressed by the target, was sent and the kernel's answer to it is an acknowledgement.
\<close>
theorem exit_zero_acknowledged:
  assumes "args = [''clear'', t] \<and> code = EVENT_SESS_CLEAR \<or> args = [''change_rate'', t, a, b] \<and> code = EVENT_SESS_CHANGE"
    and "cli_command st env args ev s = ((CliExit 0, outs), s')"
  shows "\<exists>ev' x data rep. frame (sk_portid s) ev' = Inr x \<and> new_messages s s' = [x] \<and> msg_type x = code
     \<and> (\<forall>k \<in> {Ksession_id, Kipaddr, Kport_number}. ev' k = ev k)
     \<and> sk_recvs s = RData data # sk_recvs s' \<and> parse_event (take 16384 data) = Inr rep \<and> e_type rep = EVENT_KERNEL_ACK"
proof -
  from assms have "\<exists>ev' rep. send_event ev' s = (Inr rep, s') \<and> ev' Ktype = Some (VInt code)
      \<and> (\<forall>k \<in> {Ksession_id, Kipaddr, Kport_number}. ev' k = ev k) \<and> e_type rep = EVENT_KERNEL_ACK"
  proof (elim disjE conjE)
    assume "args = [''clear'', t]" "code = EVENT_SESS_CLEAR"
    with assms(2) obtain rep where "send_event (ev(Ktype \<mapsto> VInt code)) s = (Inr rep, s')" "e_type rep = EVENT_KERNEL_ACK"
      by (auto simp: cli_command_def cli_catch_def cmd_clear_def ack_status_def nl_bind_def nl_return_def split: prod.splits sum.splits if_splits)
    then show ?thesis by (intro exI [of _ "ev(Ktype \<mapsto> VInt code)"] exI [of _ rep]) simp
  next
    assume args: "args = [''change_rate'', t, a, b]" "code = EVENT_SESS_CHANGE"
    then have "cli_command st env args ev s = cli_catch (cmd_change_rate ev a b) s" by (simp add: cli_command_def)
    with assms(2) obtain res where res: "cmd_change_rate ev a b s = (Inr res, s')" "fst res = CliExit 0"
      by (auto simp: cli_catch_def split: prod.splits sum.splits if_splits)
    from res(1) obtain i out ev' rep where "rate_event ev i out = Inr ev'" "send_event ev' s = (Inr rep, s')"
      "res = ack_status ''change_rate: session not found'' rep"
      by (auto simp: cmd_change_rate_def lift_Inr return_eq elim!: bind_Inr)
    moreover from this have "ev' Ktype = Some (VInt code)" "\<forall>k \<in> {Ksession_id, Kipaddr, Kport_number}. ev' k = ev k"
      using args by (auto simp: rate_event_def bindE_eq_Inr)
    ultimately show ?thesis using res(2) by (intro exI [of _ ev'] exI [of _ rep]) (simp add: ack_status_def split: if_splits)
  qed
  then obtain ev' rep where e: "send_event ev' s = (Inr rep, s')" "ev' Ktype = Some (VInt code)"
    "\<forall>k \<in> {Ksession_id, Kipaddr, Kport_number}. ev' k = ev k" "e_type rep = EVENT_KERNEL_ACK" by blast
  from send_event_answered [OF e(1)] obtain x data where x: "frame (sk_portid s) ev' = Inr x" "new_messages s s' = [x]"
    "sk_recvs s = RData data # sk_recvs s'" "parse_event (take 16384 data) = Inr rep" by blast
  have "ev_type (blank ++ ev') = VInt code" using e(2) by (simp add: ev_type_def ev_get_def map_add_def)
  with frame_msg_type [OF x(1)] have "msg_type x = code" by simp
  with x e show ?thesis by blast
qed


section \<open>Command lines\<close>

definition sample_env :: cli_env where
  "sample_env = \<lparr>ce_conf = None, ce_open = Inr mon_socket, ce_arp = Inl OSError, ce_inputs = []\<rparr>"

definition sample_settings :: cli_settings where
  "sample_settings = read_settings None"

theorem octets_readable_witness:
  "int (dec_val (filter is_digit (format_octets 1234567890123))) = 1234567890123"
  by (rule octets_readable) simp

theorem duration_readable_witness:
  "\<exists>d h m s. format_duration True 90061 = rjust 3 (show_int d) @ ''d'' @ zpad 2 h @ '':'' @ zpad 2 m @ '':'' @ zpad 2 s
     \<and> 90061 = ((d * 24 + h) * 60 + m) * 60 + s"
  using duration_readable [of 90061] by force

theorem colours_invisible_witness:
  "text_len (strip_ansi (pad_to (colour False ''31'' ''Not found'') 17)) = 17"
proof -
  have "ESC \<notin> set ''Not found''" "list_all is_param ''31''" "text_len ''Not found'' = 9"
    by (simp_all add: ESC_def is_param_def is_digit_def text_len_def)
  from colours_invisible [OF this(1,2), of False 17] this(3) show ?thesis by simp
qed

theorem cli_queries_only_read_witness:
  "\<exists>x \<in> set (new_messages mon_socket (snd (cli_command sample_settings sample_env [''show_count''] Map.empty mon_socket))).
     changes_nothing (msg_type x)"
proof -
  obtain r s' where run: "cli_command sample_settings sample_env [''show_count''] Map.empty mon_socket = (r, s')" by fastforce
  then have "s' = snd (cmd_show_count mon_socket)" by (auto simp: cli_command_def dest: arg_cong [where f = snd] simp flip: cli_catch_socket)
  moreover have "new_messages mon_socket (snd (cmd_show_count mon_socket)) \<noteq> []" by code_simp
  ultimately obtain x where "x \<in> set (new_messages mon_socket s')" by (meson last_in_set)
  moreover have "\<not> changing_command [''show_count'']" by (simp add: changing_command_def)
  ultimately show ?thesis using cli_queries_only_read [OF run] run by auto
qed

lemma listed_all: "\<exists>s1. get_list [Ktype \<mapsto> VInt EVENT_SESS_GETLIST] api_socket = (Inr ([kernel_msg_event (sample_msg 0 1)], True), s1)
    \<and> sk_sends s1 = [] \<and> sk_portid s1 = 77"
proof -
  let ?ev = "[Ktype \<mapsto> VInt EVENT_SESS_GETLIST]"
  have "\<exists>m. frame 77 ?ev = Inr m" by (rule frame_ok) (simp_all add: ev_type_def ev_get_def event_codes session_fits_def blank_def)
  then obtain m where m: "frame (sk_portid api_socket) ?ev = Inr m" by (auto simp: api_socket_def open_socket_def sk_portid_def)
  have "list_loop [datagram [sample_msg 0 1], done_datagram (sample_hdr NLMSG_DONE)] [] = (Inr ([kernel_msg_event (sample_msg 0 1)], True), [])"
    using list_loop_stream [of "[[sample_msg 0 1]]" "sample_hdr NLMSG_DONE" "[]" "[]"]
    by (simp add: group_ok_def sample_msg_ok sample_msg_event hdr_ok_def sample_hdr_def NLMSG_DONE_def)
  then show ?thesis using send_only_ok [OF _ m] by (simp add: get_list_def nl_bind_def api_socket_def open_socket_def sk_portid_def)
qed

theorem bulk_clear_exact_witness:
  "\<exists>s1 x. get_list [Ktype \<mapsto> VInt EVENT_SESS_GETLIST] api_socket = (Inr ([kernel_msg_event (sample_msg 0 1)], True), s1)
     \<and> new_messages s1 (snd (cli_command sample_settings sample_env [''clear_all''] Map.empty api_socket)) = [x]
     \<and> msg_type x = EVENT_SESS_CLEAR \<and> ki_port_number (kernel_in_read (drop 16 x)) = 3"
proof -
  let ?row = "kernel_msg_event (sample_msg 0 1)"
  let ?sel = "\<lambda>row :: nl_event. e_flags row AND IS_SERVICE = 0"
  from listed_all obtain s1 where s1: "get_list [Ktype \<mapsto> VInt EVENT_SESS_GETLIST] api_socket = (Inr ([?row], True), s1)" "sk_sends s1 = []" "sk_portid s1 = 77" by blast
  have sel: "?sel ?row" by (simp add: kernel_msg_event_def with_hdr_def isg_event.defs nl_event.defs event_of_def sample_msg_def sample_out_def flag_bits)
  have "\<exists>x. frame 77 (port_clear ?row) = Inr x"
    by (rule frame_ok) (simp_all add: port_clear_def listed_address ev_type_def ev_get_def event_codes session_fits_def blank_def)
  then obtain x where x: "frame (sk_portid s1) (port_clear ?row) = Inr x" using s1(3) by auto
  obtain fin outs s' where run: "cli_command sample_settings sample_env [''clear_all''] Map.empty api_socket = ((fin, outs), s')" by (metis prod.exhaust)
  have "fin = CliExit 0"
    using run clear_rows_run [OF s1(1), of ?sel "'' sessions''"] sel send_only_ok [OF s1(2) x]
    by (simp add: cli_command_def cmd_clear_all_def cli_catch_def nl_bind_def nl_return_def)
  with bulk_clear_exact [OF _ run s1(1), of ?sel] sel
  have "list_all2 (\<lambda>row x. msg_type x = EVENT_SESS_CLEAR \<and> ki_port_number (kernel_in_read (drop 16 x)) = e_port_number row
              \<and> ki_ipaddr (kernel_in_read (drop 16 x)) = 0) [?row] (new_messages s1 s')" by auto
  with run s1(1) show ?thesis by (auto simp: list_all2_Cons1 listed_address)
qed

definition ack_msg :: kernel_msg where
  "ack_msg = \<lparr>km_hdr = sample_hdr 0, km_event = (sample_out 1)\<lparr>ko_type := word_of_int EVENT_KERNEL_ACK\<rparr>\<rparr>"

definition ack_socket :: nlsock where
  "ack_socket = open_socket 77 1 [] [RData (kernel_msg_bytes ack_msg)]"

lemma ack_parsed: "parse_event (take 16384 (kernel_msg_bytes ack_msg)) = Inr (kernel_msg_event ack_msg)"
  "e_type (kernel_msg_event ack_msg) = EVENT_KERNEL_ACK"
proof -
  have ok: "kernel_msg_ok ack_msg"
    by (simp add: kernel_msg_ok_def ack_msg_def hdr_ok_def sample_hdr_def kernel_out_ok_def sample_out_def)
  have "length (kernel_msg_bytes ack_msg) = msg_sz" by (rule kmsg.length_enc [OF ok])
  then show "parse_event (take 16384 (kernel_msg_bytes ack_msg)) = Inr (kernel_msg_event ack_msg)"
    using kmsg.dec_enc [OF ok] by (simp add: msg_sz_def nl_consts)
  show "e_type (kernel_msg_event ack_msg) = EVENT_KERNEL_ACK"
    by (simp add: kernel_msg_event_def with_hdr_def isg_event.defs nl_event.defs event_of_def ack_msg_def EVENT_KERNEL_ACK_def)
qed

theorem exit_zero_acknowledged_witness:
  "\<exists>x. new_messages ack_socket (snd (cli_command sample_settings sample_env [''clear'', ''Virtual5''] mon_target ack_socket)) = [x] \<and> msg_type x = EVENT_SESS_CLEAR"
proof -
  let ?ev = "mon_target(Ktype \<mapsto> VInt EVENT_SESS_CLEAR)"
  have "\<exists>m. frame 77 ?ev = Inr m" by (rule frame_ok) (simp_all add: mon_target_def ev_type_def ev_get_def event_codes session_fits_def blank_def map_add_def)
  then obtain m where m: "frame (sk_portid ack_socket) ?ev = Inr m" by (auto simp: ack_socket_def open_socket_def sk_portid_def)
  have sends: "sk_sends ack_socket = []" by (simp add: ack_socket_def open_socket_def)
  have "\<exists>s'. send_event ?ev ack_socket = (Inr (kernel_msg_event ack_msg), s')"
    using send_only_ok [OF sends m] ack_parsed(1)
    by (simp add: send_event_def nl_bind_def nl_recv.simps nl_lift_def) (simp add: ack_socket_def open_socket_def)
  then obtain s' where "cli_command sample_settings sample_env [''clear'', ''Virtual5''] mon_target ack_socket = ((CliExit 0, []), s')"
    using ack_parsed(2) by (auto simp: cli_command_def cli_catch_def cmd_clear_def nl_bind_def nl_return_def ack_status_def)
  from exit_zero_acknowledged [OF _ this] this show ?thesis by auto
qed

end
