(* ===== verification/Status.thy ===== *)
theory Status
  imports Api_Server Cli
begin

text \<open>
  The status file: \<^verbatim>\<open>Daemon.job_status\<close> of \<^verbatim>\<open>app/ISGd.py\<close> writes it, the system-wide monitor reads it. The job is
  a step relation on its program counter and the files, with every failure of the operating system and
  a kill of the process at any moment as steps.
\<close>

section \<open>The job\<close>

record status_data =
  sd_written_at :: rat
  sd_auth :: "backend_stats list"
  sd_acct :: "backend_stats list"

definition status_data_of :: "rat \<Rightarrow> (nat \<Rightarrow> rat \<times> rat \<times> rat \<times> rat) \<Rightarrow> daemon \<Rightarrow> status_data" where
  "status_data_of now clocks d =
     \<lparr>sd_written_at = now, sd_auth = pool_stats clocks (d_auth_pool d),
      sd_acct = pool_stats (\<lambda>i. clocks (length (d_auth_pool d) + i)) (d_acct_pool d)\<rparr>"

definition status_path :: "config \<Rightarrow> string" where
  "status_path cfg = splitext_root (c_pid_file cfg) @ ''.status''"

definition status_tmp :: "config \<Rightarrow> string" where
  "status_tmp cfg = status_path cfg @ ''.tmp''"

text \<open>A file holds a beginning of a document, or a whole one.\<close>

datatype content = Partial | Whole status_data

type_synonym files = "string \<rightharpoonup> content"

datatype status_pc = Waiting | Writing status_data | Closed | Stopped | Killed

inductive status_step :: "config \<Rightarrow> status_pc \<times> files \<Rightarrow> status_pc \<times> files \<Rightarrow> bool" for cfg where
  open_ok: "status_step cfg (Waiting, fs) (Writing (status_data_of now clocks dm), fs(status_tmp cfg \<mapsto> Partial))"
| open_fails: "status_step cfg (Waiting, fs) (Waiting, fs)"
| dump_ok: "status_step cfg (Writing d, fs) (Closed, fs(status_tmp cfg \<mapsto> Whole d))"
| dump_fails: "status_step cfg (Writing d, fs) (Waiting, fs)"
| replace_ok: "fs (status_tmp cfg) = Some c \<Longrightarrow> status_step cfg (Closed, fs) (Waiting, (fs(status_path cfg \<mapsto> c))(status_tmp cfg := None))"
| replace_fails: "status_step cfg (Closed, fs) (Waiting, fs)"
| unlink_ok: "status_step cfg (Waiting, fs) (Stopped, fs(status_path cfg := None))"
| unlink_fails: "status_step cfg (Waiting, fs) (Stopped, fs)"
| killed: "pc \<noteq> Stopped \<Longrightarrow> status_step cfg (pc, fs) (Killed, fs)"

inductive_cases status_stepE: "status_step cfg (pc, fs) st"

inductive status_reach :: "config \<Rightarrow> files \<Rightarrow> status_pc \<times> files \<Rightarrow> bool" for cfg fs0 where
  start: "status_reach cfg fs0 (Waiting, fs0)"
| step: "status_reach cfg fs0 st \<Longrightarrow> status_step cfg st st' \<Longrightarrow> status_reach cfg fs0 st'"


section \<open>The file is never partial\<close>

lemma tmp_other: "status_tmp cfg \<noteq> status_path cfg" "status_path cfg \<noteq> status_tmp cfg"
  by (simp_all add: status_tmp_def)

text \<open>The temporary file is whole when it is about to be renamed; no other file is touched.\<close>

definition status_inv :: "config \<Rightarrow> files \<Rightarrow> status_pc \<times> files \<Rightarrow> bool" where
  "status_inv cfg fs0 st \<longleftrightarrow>
     snd st (status_path cfg) \<noteq> Some Partial
     \<and> (fst st = Closed \<longrightarrow> (\<exists>d. snd st (status_tmp cfg) = Some (Whole d)))
     \<and> (\<forall>f. f \<noteq> status_path cfg \<longrightarrow> f \<noteq> status_tmp cfg \<longrightarrow> snd st f = fs0 f)"

lemma status_inv_step: "status_step cfg st st' \<Longrightarrow> status_inv cfg fs0 st \<Longrightarrow> status_inv cfg fs0 st'"
  by (induction rule: status_step.induct) (auto simp: status_inv_def tmp_other)

text \<open>
  C29: whoever reads the status file finds a whole document or no file, at every moment: after any
  sequence of writes, failures of the file system and a kill of the daemon between any two of its
  operations. The job touches no file but this one and its temporary one.
\<close>
theorem status_file_whole:
  assumes "status_reach cfg fs0 (pc, fs)" "fs0 (status_path cfg) \<noteq> Some Partial"
  shows "fs (status_path cfg) \<noteq> Some Partial \<and> (\<forall>f. f \<noteq> status_path cfg \<longrightarrow> f \<noteq> status_tmp cfg \<longrightarrow> fs f = fs0 f)"
proof -
  have "status_inv cfg fs0 (pc, fs)" using assms(1)
  proof (induction rule: status_reach.induct)
    case start
    show ?case using assms(2) by (simp add: status_inv_def)
  next
    case (step st st')
    then show ?case using status_inv_step by blast
  qed
  then show ?thesis by (simp add: status_inv_def)
qed

definition sample_status :: status_data where
  "sample_status = status_data_of 100 (\<lambda>_. (0, 0, 0, 0)) (new_daemon gold_config None)"

theorem status_file_whole_witness:
  "\<exists>fs. status_reach gold_config Map.empty (Killed, fs) \<and> fs (status_tmp gold_config) = Some Partial
     \<and> fs (status_path gold_config) = Some (Whole sample_status)"
proof -
  let ?t = "status_tmp gold_config" and ?p = "status_path gold_config"
  let ?fs1 = "Map.empty(?t \<mapsto> Partial) :: files"
  let ?fs2 = "?fs1(?t \<mapsto> Whole sample_status)"
  let ?fs3 = "(?fs2(?p \<mapsto> Whole sample_status))(?t := None)"
  let ?fs4 = "?fs3(?t \<mapsto> Partial)"
  note go = status_reach.step
  have "status_reach gold_config Map.empty (Writing sample_status, ?fs1)" unfolding sample_status_def by (rule go [OF status_reach.start status_step.open_ok])
  then have "status_reach gold_config Map.empty (Closed, ?fs2)" by (rule go) (rule status_step.dump_ok)
  then have "status_reach gold_config Map.empty (Waiting, ?fs3)" by (rule go) (rule status_step.replace_ok, simp)
  then have "status_reach gold_config Map.empty (Writing sample_status, ?fs4)" unfolding sample_status_def by (rule go) (rule status_step.open_ok)
  then have r: "status_reach gold_config Map.empty (Killed, ?fs4)" by (rule go) (rule status_step.killed, simp)
  from status_file_whole [OF r] have "?fs4 ?p \<noteq> Some Partial" by simp
  with r show ?thesis by (intro exI [of _ ?fs4]) (simp add: tmp_other)
qed

end
