(* ===== verification/Screen.thy ===== *)
theory Screen
  imports Status
begin

unbundle bit_operations_syntax

text \<open>
  The screen of the terminal monitor, \<^verbatim>\<open>app/src/monitor.py\<close>: the number formats, the labelled graphs, the
  footer, and the frames that \<^verbatim>\<open>_render\<close> and \<^verbatim>\<open>_render_global\<close> write, as lists of rows that are joined by line
  feeds. Text is UTF-8, so \<^verbatim>\<open>len\<close> is \<open>text_len\<close>. A rate given to a format is the double it is in Python, and
  the quotients that are printed are rounded to doubles first.
\<close>

section \<open>Number formats\<close>

text \<open>\<^verbatim>\<open>f'{x:.<k>f}'\<close> of a number that is not negative: the nearest decimal, ties to even.\<close>

definition fixed :: "nat \<Rightarrow> rat \<Rightarrow> string" where
  "fixed k x =
     (let n = nat (round_half_even (x * 10 ^ k)) in
      if k = 0 then show_nat n else show_nat (n div 10 ^ k) @ ''.'' @ zpad k (int (n mod 10 ^ k)))"

definition fmt_bps :: "rat \<Rightarrow> string" where
  "fmt_bps bps =
     (if 10 ^ 9 \<le> bps then rjust 6 (fixed 2 (to_double (bps / 10 ^ 9))) @ '' Gbit/s''
      else if 10 ^ 6 \<le> bps then rjust 6 (fixed 2 (to_double (bps / 10 ^ 6))) @ '' Mbit/s''
      else if 10 ^ 3 \<le> bps then rjust 6 (fixed 2 (to_double (bps / 10 ^ 3))) @ '' Kbit/s''
      else rjust 6 (fixed 0 bps) @ ''  bit/s'')"

fun bytes_in_units :: "string list \<Rightarrow> rat \<Rightarrow> string" where
  "bytes_in_units [] b = rjust 6 (fixed 1 b) @ '' PB''"
| "bytes_in_units (unit # units) b =
     (if b < 1000 then rjust 6 (fixed 1 b) @ '' '' @ unit else bytes_in_units units (to_double (b / 1000)))"

definition fmt_bytes :: "int \<Rightarrow> string" where
  "fmt_bytes b = bytes_in_units [''B'', ''KB'', ''MB'', ''GB'', ''TB''] (of_int b)"

definition fmt_axis :: "rat \<Rightarrow> string" where
  "fmt_axis bps =
     (if 10 ^ 9 \<le> bps then fixed 1 (to_double (bps / 10 ^ 9)) @ ''G''
      else if 10 ^ 6 \<le> bps then fixed 1 (to_double (bps / 10 ^ 6)) @ ''M''
      else if 10 ^ 3 \<le> bps then fixed 0 (to_double (bps / 10 ^ 3)) @ ''K''
      else fixed 0 bps)"

text \<open>\<^verbatim>\<open>f'{x:g}'\<close> of a number that is not negative: six significant digits, without trailing zeros.\<close>

definition dec_exp :: "rat \<Rightarrow> int" where
  "dec_exp x =
     (if 1 \<le> x then int (log10_nat (nat \<lfloor>x\<rfloor>))
      else let j = log10_nat (nat \<lfloor>1 / x\<rfloor>) in if 1 / x = 10 ^ j then - int j else - int j - 1)"

definition fmt_g :: "rat \<Rightarrow> string" where
  "fmt_g x =
     (if x = 0 then ''0''
      else let k = dec_exp x;
               d = round_half_even (if k \<le> 5 then x * 10 ^ nat (5 - k) else x / 10 ^ nat (k - 5));
               (digits, e) = (if d = 10 ^ 6 then (''100000'', k + 1) else (show_nat (nat d), k))
           in if 0 \<le> e \<and> e < 6 then with_fraction (take (Suc (nat e)) digits) (drop (Suc (nat e)) digits)
              else if - 4 \<le> e \<and> e < 0 then with_fraction ''0'' (replicate (nat (- e) - 1) CHR ''0'' @ digits)
              else with_fraction (take 1 digits) (drop 1 digits) @ ''e'' @ (if e < 0 then ''-'' else ''+'') @ zpad 2 \<bar>e\<bar>)"


section \<open>Text\<close>

definition utf8_cont :: "char \<Rightarrow> bool" where
  "utf8_cont c \<longleftrightarrow> 128 \<le> (of_char c :: nat) \<and> (of_char c :: nat) < 192"

text \<open>\<^verbatim>\<open>s[:n]\<close>\<close>

fun text_take :: "nat \<Rightarrow> string \<Rightarrow> string" where
  "text_take n [] = []"
| "text_take n (c # cs) =
     (if utf8_cont c then c # text_take n cs else case n of 0 \<Rightarrow> [] | Suc m \<Rightarrow> c # text_take m cs)"

definition ljust :: "nat \<Rightarrow> string \<Rightarrow> string" where
  "ljust n s = s @ replicate (n - text_len s) CHR '' ''"

definition lstrip :: "string \<Rightarrow> string" where
  "lstrip s = dropWhile is_space s"

definition HLINE :: string where "HLINE = [CHR 0xE2, CHR 0x94, CHR 0x80]"

definition VBAR :: string where "VBAR = [CHR 0xE2, CHR 0x94, CHR 0x82]"

definition CORNER :: string where "CORNER = [CHR 0xE2, CHR 0x94, CHR 0x94]"

definition DASH :: string where "DASH = [CHR 0xE2, CHR 0x80, CHR 0x94]"

definition ELLIPSIS :: string where "ELLIPSIS = [CHR 0xE2, CHR 0x80, CHR 0xA6]"

definition DOWN :: string where "DOWN = [CHR 0xE2, CHR 0x86, CHR 0x93]"

definition UP :: string where "UP = [CHR 0xE2, CHR 0x86, CHR 0x91]"

definition hlines :: "int \<Rightarrow> string" where
  "hlines n = concat (replicate (nat n) HLINE)"

text \<open>\<^verbatim>\<open>_BLOCKS\<close>: a blank, then U+2581 to U+2588.\<close>

definition block_glyph :: "int \<Rightarrow> string" where
  "block_glyph i = (if i = 0 then '' '' else [CHR 0xE2, CHR 0x96, char_of (128 + nat i)])"

definition eol :: "string \<Rightarrow> string" where
  "eol row = row @ [ESC] @ ''[K''"


section \<open>Graphs\<close>

definition graph_label :: "rat \<Rightarrow> nat \<Rightarrow> nat \<Rightarrow> string" where
  "graph_label ceil height r = rjust (nat LABEL_W) (fmt_axis (to_double (to_double (ceil * of_nat (r + 1)) / of_nat height)))"

definition graph_row :: "bool \<Rightarrow> string \<Rightarrow> string \<Rightarrow> int list \<Rightarrow> string" where
  "graph_row no_color color label cells =
     colour no_color ''90'' label @ colour no_color ''90'' VBAR @ colour no_color color (concat (map block_glyph cells))"

definition graph_lines :: "rat list \<Rightarrow> rat \<Rightarrow> int \<Rightarrow> nat \<Rightarrow> string \<Rightarrow> bool \<Rightarrow> string list" where
  "graph_lines samples ceil0 width height color no_color =
     (let bw = max 10 (width - LABEL_W - 1); ceil = (if 0 < ceil0 then ceil0 else 1) in
      map (\<lambda>(r, cells). graph_row no_color color (graph_label ceil height r) cells)
        (zip (rev [0..<height]) (graph_block samples ceil0 width height))
      @ [colour no_color ''90'' (rjust (nat LABEL_W) ''0'' @ CORNER @ hlines bw)])"


section \<open>The frame of one session\<close>

definition sess_flags :: "bool \<Rightarrow> nl_event \<Rightarrow> string" where
  "sess_flags no_color ev =
     (let f = e_flags ev in
      (if f AND IS_APPROVED_SESSION \<noteq> 0 then colour no_color ''32'' ''A'' else colour no_color ''31'' ''X'')
      @ (if f AND NO_ACCT \<noteq> 0 then ''Z'' else []) @ (if f AND IS_DYING \<noteq> 0 then ''D'' else []))"

definition HELP :: string where
  "HELP = '' [q]uit  [c]lear  [a]pprove/block  [s]haper  [r]eset-graph''"

text \<open>The status line; \<open>str_exn\<close> is the text of an exception.\<close>

definition status_text :: "(exn \<Rightarrow> string) \<Rightarrow> mon_status \<Rightarrow> string" where
  "status_text str_exn st = (case st of
     Msg m \<Rightarrow> m
   | Failed what e \<Rightarrow> what @ '': '' @ str_exn e
   | ShaperSet in_m out_m \<Rightarrow> ''shaper set '' @ fmt_g in_m @ ''/'' @ fmt_g out_m @ '' Mbit/s'')"

definition footer :: "(exn \<Rightarrow> string) \<Rightarrow> monitor \<Rightarrow> string \<times> string" where
  "footer str_exn m =
     (case mo_editing m of
        Some buf \<Rightarrow> ('' set shaper Mbit/s (one value or in out): '' @ buf @ ''_'', ''36'')
      | None \<Rightarrow>
          (case mo_pending m of
             Some msg \<Rightarrow> ('' '' @ msg @ ''   [y/N]'', ''31'')
           | None \<Rightarrow> (let msg = status_text str_exn (mo_status m)
                      in (HELP @ (if msg \<noteq> [] then ''    '' @ DASH @ '' '' @ msg else []), ''90''))))"

definition dur_text :: "int \<Rightarrow> string" where
  "dur_text dur =
     (let d = dur div 86400; h = dur mod 86400; hh = h div 3600; m = h mod 3600; mm = m div 60; ss = m mod 60
      in show_int d @ ''d'' @ zpad 2 hh @ '':'' @ zpad 2 mm @ '':'' @ zpad 2 ss)"

definition identity_text :: "string \<Rightarrow> string \<Rightarrow> string \<Rightarrow> string" where
  "identity_text ip nat_ip mac = '' IP: '' @ ljust 15 ip @ ''  NAT: '' @ ljust 15 nat_ip @ ''  MAC: '' @ mac"

definition usage_text :: "bool \<Rightarrow> nl_event \<Rightarrow> string" where
  "usage_text no_color sess =
     ''Session: '' @ e_session_id sess
     @ ''  Service: '' @ (case e_service_name sess of Some n \<Rightarrow> if n \<noteq> [] then n else ''Main'' | None \<Rightarrow> ''Main'')
     @ ''  Dur: '' @ dur_text (e_duration sess)
     @ ''  In: '' @ fmt_bytes (e_in_bytes sess) @ ''  Out: '' @ fmt_bytes (e_out_bytes sess)
     @ ''  ['' @ sess_flags no_color sess @ '']''"

definition cap_text :: "int \<Rightarrow> string" where
  "cap_text cap = (if cap \<noteq> 0 then ''cap '' @ fmt_bps (of_int cap) else ''uncapped'')"

definition rates_text :: "string \<Rightarrow> rat list \<Rightarrow> string" where
  "rates_text name hist =
     (let (cur, avg, mx) = hist_stats hist
      in name @ ''cur '' @ fmt_bps cur @ ''  avg '' @ fmt_bps avg @ ''  max '' @ fmt_bps mx)"

text \<open>The rates of the two directions, beside each other when the terminal is wide enough.\<close>

definition rates_rows :: "int \<Rightarrow> bool \<Rightarrow> string \<Rightarrow> string \<Rightarrow> string list" where
  "rates_rows cols no_color in_s out_s =
     (if int (text_len in_s) + 3 + int (text_len out_s) - 1 \<le> cols - 1
      then [eol (colour no_color ''32'' in_s @ ''   '' @ colour no_color ''36'' (lstrip out_s))]
      else [eol (colour no_color ''32'' in_s), eol (colour no_color ''36'' out_s)])"

definition service_row :: "bool \<Rightarrow> nl_event \<Rightarrow> string" where
  "service_row no_color s =
     (let nm = text_take 20 (case e_service_name s of Some n \<Rightarrow> if n \<noteq> [] then n else ''?'' | None \<Rightarrow> ''?'')
      in eol (colour no_color ''33'' (''   '' @ ljust 20 nm @ '' in '' @ fmt_bps (of_int (e_in_rate s))
           @ ''  out '' @ fmt_bps (of_int (e_out_rate s)) @ ''  ['' @ svc_flags s @ '']'')))"

definition session_rows :: "int \<Rightarrow> bool \<Rightarrow> string list res \<Rightarrow> rat list \<Rightarrow> rat list \<Rightarrow> nl_event list \<Rightarrow> nl_event \<Rightarrow> string list res" where
  "session_rows cols no_color proc_arp in_hist out_hist services sess =
     bindE (long2ip (e_ipaddr sess)) (\<lambda>ip.
     bindE (if e_nat_ipaddr sess \<noteq> 0 then long2ip (e_nat_ipaddr sess) else Inr ''-'') (\<lambda>nat_ip.
     bindE (mac_of proc_arp sess) (\<lambda>mac.
       let p1 = identity_text ip nat_ip mac;
           p2 = usage_text no_color sess;
           in_s = rates_text '' IN   '' in_hist @ ''  ['' @ cap_text (e_in_rate sess) @ '']'';
           out_s = rates_text '' OUT  '' out_hist @ ''  ['' @ cap_text (e_out_rate sess) @ '']''
       in Inr ((if int (text_len p1) + 2 + int (text_len p2) \<le> cols - 1 then [eol (p1 @ ''  '' @ p2)] else [eol p1, eol ('' '' @ p2)])
            @ rates_rows cols no_color in_s out_s
            @ (if services = [] then []
               else eol (colour no_color ''1'' '' Services (shaper in / out):'') # map (service_row no_color) services)))))"

text \<open>The graphs and the footer under the \<open>head\<close> of a frame, on the rows that it leaves.\<close>

definition graph_height :: "int \<Rightarrow> nat \<Rightarrow> nat" where
  "graph_height lines head = (let used = int head + 2 * 2 + 1 in nat (max 3 ((lines - used) div 2)))"

definition graph_part :: "int \<Rightarrow> int \<Rightarrow> bool \<Rightarrow> string list \<Rightarrow> rat list \<Rightarrow> rat \<Rightarrow> rat list \<Rightarrow> rat \<Rightarrow> string \<Rightarrow> string \<Rightarrow> string list" where
  "graph_part gw lines no_color head in_hist in_ceil out_hist out_ceil foot foot_color =
     (let gh = graph_height lines (length head)
      in head @ [eol (colour no_color ''32'' '' Incoming'')] @ map eol (graph_lines in_hist in_ceil gw gh ''32'' no_color)
         @ [eol (colour no_color ''36'' '' Outgoing'')] @ map eol (graph_lines out_hist out_ceil gw gh ''36'' no_color)
         @ [eol (colour no_color foot_color foot), [ESC] @ ''[J''])"

definition frame_head :: "int \<Rightarrow> bool \<Rightarrow> string list res \<Rightarrow> string \<Rightarrow> rat list \<Rightarrow> rat list \<Rightarrow> nl_event list \<Rightarrow> nl_event option \<Rightarrow> string list res" where
  "frame_head cols no_color proc_arp arg in_hist out_hist services sess =
     (let sep = eol (colour no_color ''90'' (hlines (max 20 (cols - 2)))) in
      bindE (case sess of
               None \<Rightarrow> Inr [eol (colour no_color ''31'' ('' session not found '' @ DASH @ '' waiting'' @ ELLIPSIS))]
             | Some e \<Rightarrow> session_rows cols no_color proc_arp in_hist out_hist services e) (\<lambda>rows.
        Inr ([[ESC] @ ''[H'', eol (colour no_color ''1'' (''ISG Monitor '' @ DASH @ '' '' @ arg)), sep] @ rows @ [sep])))"

definition sess_cap :: "(nl_event \<Rightarrow> int) \<Rightarrow> nl_event option \<Rightarrow> int" where
  "sess_cap rate sess = (case sess of None \<Rightarrow> 0 | Some e \<Rightarrow> rate e)"

definition render :: "int \<Rightarrow> int \<Rightarrow> bool \<Rightarrow> string list res \<Rightarrow> string \<Rightarrow> rat list \<Rightarrow> rat list \<Rightarrow> nl_event list \<Rightarrow> string \<Rightarrow> string
    \<Rightarrow> nl_event option \<Rightarrow> string list res" where
  "render cols lines no_color proc_arp arg in_hist out_hist services foot foot_color sess =
     bindE (frame_head cols no_color proc_arp arg in_hist out_hist services sess) (\<lambda>head.
       Inr (graph_part (max 20 (cols - 2)) lines no_color head in_hist (graph_ceiling (sess_cap e_in_rate sess) in_hist)
              out_hist (graph_ceiling (sess_cap e_out_rate sess) out_hist) foot foot_color))"

text \<open>The call in \<^verbatim>\<open>run\<close>: the session last seen is drawn, also when it is gone.\<close>

definition mon_frame :: "(exn \<Rightarrow> string) \<Rightarrow> int \<Rightarrow> int \<Rightarrow> bool \<Rightarrow> string list res \<Rightarrow> string \<Rightarrow> monitor \<Rightarrow> string list res" where
  "mon_frame str_exn cols lines no_color proc_arp arg m =
     (let (foot, foot_color) = footer str_exn m
      in render cols lines no_color proc_arp arg (mo_in_hist m) (mo_out_hist m) (mo_services m) foot foot_color (mo_last_seen m))"


section \<open>The system-wide frame\<close>

definition counts_row :: "bool \<Rightarrow> session_counts option \<Rightarrow> string" where
  "counts_row no_color counts =
     (case counts of
        None \<Rightarrow> eol (colour no_color ''31'' '' kernel not responding'')
      | Some c \<Rightarrow>
          eol ('' Sessions  total '' @ show_int (sc_total c) @ ''  approved '' @ colour no_color ''32'' (show_int (sc_approved c))
             @ ''  unapproved '' @ colour no_color ''31'' (show_int (sc_unapproved c)) @ ''  dying '' @ show_int (sc_dying c)))"

definition fmt_ago :: "bool \<Rightarrow> rat option \<Rightarrow> rat \<Rightarrow> string" where
  "fmt_ago no_color ago extra =
     (case ago of
        None \<Rightarrow> colour no_color ''90'' ''     --''
      | Some a \<Rightarrow>
          (let total = to_double (a + extra)
           in if total < 60 then rjust 5 (fixed 1 total) @ ''s'' else rjust 5 (fixed 1 (to_double (total / 60))) @ ''m''))"

text \<open>In a file that the daemon wrote an open circuit has a remaining time.\<close>

definition backend_line :: "bool \<Rightarrow> rat \<Rightarrow> string \<Rightarrow> backend_stats \<Rightarrow> string" where
  "backend_line no_color file_age role b =
     eol (''  '' @ ljust 4 role @ '' '' @ ljust 28 (bs_label b)
       @ ''  '' @ colour no_color ''90'' (rjust 5 (fixed 2 (bs_total_rate b)) @ ''/s'')
       @ ''  ok '' @ rjust 6 (show_int (bs_ok b))
       @ ''  '' @ colour no_color (if 0 < bs_err b then ''31'' else ''90'') (''err '' @ rjust 4 (show_int (bs_err b)))
       @ ''  last ok '' @ fmt_ago no_color (bs_last_ok_ago b) file_age
       @ ''  last err '' @ fmt_ago no_color (bs_last_err_ago b) file_age
       @ (if bs_circuit_open b
          then colour no_color ''31;1'' ('' OPEN '' @ fixed 0 (case bs_circuit_open_for b of Some t \<Rightarrow> t | None \<Rightarrow> 0) @ ''s'') else []))"

definition backend_rows :: "rat \<Rightarrow> bool \<Rightarrow> status_data option \<Rightarrow> string list" where
  "backend_rows now no_color backends =
     (case backends of
        None \<Rightarrow> []
      | Some d \<Rightarrow>
          (let file_age = max 0 (to_double (now - sd_written_at d))
           in map (backend_line no_color file_age ''auth'') (sd_auth d) @ map (backend_line no_color file_age ''acct'') (sd_acct d)))"

definition top_row :: "int \<times> rat \<times> rat \<Rightarrow> string res" where
  "top_row entry =
     (case entry of (ip, ibps, obps) \<Rightarrow>
        bindE (long2ip ip) (\<lambda>text.
          Inr (eol (''   '' @ ljust 16 text @ '' '' @ fmt_bps ibps @ '' '' @ DOWN @ ''  '' @ fmt_bps obps @ '' '' @ UP))))"

fun top_rows :: "(int \<times> rat \<times> rat) list \<Rightarrow> string list res" where
  "top_rows [] = Inr []"
| "top_rows (e # es) = bindE (top_row e) (\<lambda>r. bindE (top_rows es) (\<lambda>rs. Inr (r # rs)))"

definition top_count :: "int \<Rightarrow> nat \<Rightarrow> nat \<Rightarrow> nat" where
  "top_count lines head n = (let avail = lines - int head - 11 in nat (min (int n) (max 0 (avail - 2))))"

definition global_head :: "int \<Rightarrow> rat \<Rightarrow> string \<Rightarrow> bool \<Rightarrow> session_counts option \<Rightarrow> rat list \<Rightarrow> rat list \<Rightarrow> status_data option \<Rightarrow> string list" where
  "global_head cols now hms no_color counts in_hist out_hist backends =
     (let sep = eol (colour no_color ''90'' (hlines (max 20 (cols - 2)))) in
      [[ESC] @ ''[H'', eol (colour no_color ''1'' (''ISG Global Monitor   '' @ hms)), sep, counts_row no_color counts]
      @ backend_rows now no_color backends
      @ rates_rows cols no_color (rates_text '' IN   '' in_hist) (rates_text '' OUT  '' out_hist) @ [sep])"

definition top_part :: "int \<Rightarrow> int \<Rightarrow> bool \<Rightarrow> nat \<Rightarrow> (int \<times> rat \<times> rat) list \<Rightarrow> string list res" where
  "top_part cols lines no_color head top_rates =
     (let n = top_count lines head (length top_rates) in
      if 0 < n
      then bindE (top_rows (take n top_rates)) (\<lambda>rows.
             Inr ([eol (colour no_color ''1'' '' Top sessions by throughput:'')] @ rows
                  @ [eol (colour no_color ''90'' (hlines (max 20 (cols - 2))))]))
      else Inr [])"

text \<open>\<open>now\<close> is the time of day in seconds, \<open>hms\<close> its text.\<close>

definition render_global :: "int \<Rightarrow> int \<Rightarrow> rat \<Rightarrow> string \<Rightarrow> bool \<Rightarrow> session_counts option \<Rightarrow> rat list \<Rightarrow> rat list
    \<Rightarrow> (int \<times> rat \<times> rat) list \<Rightarrow> status_data option \<Rightarrow> string \<Rightarrow> string list res" where
  "render_global cols lines now hms no_color counts in_hist out_hist top_rates backends foot =
     (let head = global_head cols now hms no_color counts in_hist out_hist backends in
      bindE (top_part cols lines no_color (length head) top_rates) (\<lambda>rows.
        Inr (graph_part (max 20 (cols - 2)) lines no_color (head @ rows) in_hist (graph_ceiling 0 in_hist)
               out_hist (graph_ceiling 0 out_hist) foot ''90'')))"

definition GLOBAL_HELP :: string where
  "GLOBAL_HELP = '' [q]uit  [r]eset-graph''"

text \<open>What \<^verbatim>\<open>run_global\<close> knows of the backends after it has tried to read the status file.\<close>

definition read_status :: "content option \<Rightarrow> status_data option \<Rightarrow> status_data option" where
  "read_status found backends = (case found of Some (Whole d) \<Rightarrow> Some d | _ \<Rightarrow> backends)"

definition global_frame :: "int \<Rightarrow> int \<Rightarrow> rat \<Rightarrow> string \<Rightarrow> bool \<Rightarrow> status_data option \<Rightarrow> gmonitor \<Rightarrow> string list res" where
  "global_frame cols lines now hms no_color backends g =
     render_global cols lines now hms no_color (gm_counts g) (gm_in_hist g) (gm_out_hist g) (gm_top_rates g) backends GLOBAL_HELP"


section \<open>Frames and the terminal\<close>

lemma length_graph_lines: "length (graph_lines samples ceil width height color no_color) = Suc height"
  by (simp add: graph_lines_def graph_block_def Let_def)

lemma length_graph_part:
  "int (length (graph_part gw lines no_color head in_hist in_ceil out_hist out_ceil foot foot_color))
     = int (length head) + 2 * int (graph_height lines (length head)) + 6"
  by (simp add: graph_part_def Let_def length_graph_lines)

lemma frame_height:
  assumes "int (length head) + 11 \<le> lines"
  shows "int (length (graph_part gw lines no_color head in_hist in_ceil out_hist out_ceil foot foot_color))
     = (if even (lines - int (length head)) then lines else lines + 1)"
proof -
  let ?d = "lines - int (length head)"
  have h: "int (graph_height lines (length head)) = (?d - 5) div 2" using assms by (simp add: graph_height_def Let_def)
  show ?thesis
  proof (cases "even ?d")
    case True
    then obtain k where "?d = 2 * k" by (rule evenE)
    then have "(?d - 5) div 2 = k - 3" "?d = 2 * k" by simp_all
    then show ?thesis using True by (simp add: length_graph_part h)
  next
    case False
    then obtain k where "?d = 2 * k + 1" by (rule oddE)
    then have "(?d - 5) div 2 = k - 2" "?d = 2 * k + 1" by simp_all
    then show ?thesis using False by (simp add: length_graph_part h)
  qed
qed

text \<open>
  C31: a frame of the session monitor fills the terminal when there is room for graphs of three rows: it
  has as many rows as the terminal, or, when the rows that its head leaves are odd in number, one more,
  so that every redraw scrolls the screen by a row.
\<close>
theorem session_frame_fills_screen:
  assumes "frame_head cols no_color proc_arp arg in_hist out_hist services sess = Inr head" "int (length head) + 11 \<le> lines"
  shows "\<exists>rows. render cols lines no_color proc_arp arg in_hist out_hist services foot foot_color sess = Inr rows
     \<and> take (length head) rows = head \<and> int (length rows) = (if even (lines - int (length head)) then lines else lines + 1)"
proof -
  have "take (length head) (graph_part gw lines no_color head in_hist in_ceil out_hist out_ceil foot foot_color) = head" for gw in_ceil out_ceil
    by (simp add: graph_part_def Let_def)
  then show ?thesis using frame_height [OF assms(2)] by (simp add: render_def assms(1))
qed

lemma top_rows_Inr: "top_rows es = Inr rows \<longleftrightarrow> list_all2 (\<lambda>e r. top_row e = Inr r) es rows"
  by (induction es arbitrary: rows) (auto simp: bindE_eq_Inr list_all2_Cons1)

lemma top_part_rows:
  assumes "top_part cols lines no_color h ranked = Inr rows" "int h + 11 \<le> lines"
  defines "n \<equiv> min (length ranked) (nat (lines - int h - 13))"
  shows "int (h + length rows) + 11 \<le> lines" "i < n \<Longrightarrow> top_row (ranked ! i) = Inr (rows ! (1 + i)) \<and> 1 + i < length rows"
proof -
  have n: "top_count lines h (length ranked) = n" using assms(2) by (simp add: top_count_def Let_def n_def)
  have "0 < n \<Longrightarrow> int n + int h + 13 \<le> lines" unfolding n_def by linarith
  then show "int (h + length rows) + 11 \<le> lines"
    using assms(1,2) by (auto simp: top_part_def Let_def n bindE_eq_Inr top_rows_Inr dest!: list_all2_lengthD split: if_splits)
  assume i: "i < n"
  then obtain rs where rs: "top_rows (take n ranked) = Inr rs" "rows = [eol (colour no_color ''1'' '' Top sessions by throughput:'')] @ rs
      @ [eol (colour no_color ''90'' (hlines (max 20 (cols - 2))))]"
    using assms(1) by (auto simp: top_part_def Let_def n bindE_eq_Inr)
  have "length (take n ranked) = n" by (simp add: n_def)
  with rs(1) i have "length rs = n" "top_row (ranked ! i) = Inr (rs ! i)"
    by (auto simp: top_rows_Inr list_all2_conv_all_nth)
  with i show "top_row (ranked ! i) = Inr (rows ! (1 + i)) \<and> 1 + i < length rows" by (simp add: rs(2) nth_append)
qed

text \<open>
  Whatever the number of backends and of sessions, the system-wide frame fits the terminal up to one
  row when its head leaves eleven rows, and under the head it lists the sessions with the highest
  throughput in order, as many as fit.
\<close>
theorem global_frame_fits:
  assumes "global_frame cols lines now hms no_color backends g = Inr rows"
    and "head = global_head cols now hms no_color (gm_counts g) (gm_in_hist g) (gm_out_hist g) backends"
    and "int (length head) + 11 \<le> lines"
  shows "take (length head) rows = head \<and> lines \<le> int (length rows) \<and> int (length rows) \<le> lines + 1
    \<and> (\<forall>i < min (length (gm_top_rates g)) (nat (lines - int (length head) - 13)).
           top_row (gm_top_rates g ! i) = Inr (rows ! (length head + 1 + i)))"
proof -
  obtain ranked where ranked: "top_part cols lines no_color (length head) (gm_top_rates g) = Inr ranked"
    and rows: "rows = graph_part (max 20 (cols - 2)) lines no_color (head @ ranked) (gm_in_hist g) (graph_ceiling 0 (gm_in_hist g))
       (gm_out_hist g) (graph_ceiling 0 (gm_out_hist g)) GLOBAL_HELP ''90''"
    using assms(1,2) by (auto simp: global_frame_def render_global_def Let_def bindE_eq_Inr)
  note part = top_part_rows [OF ranked assms(3)]
  have "int (length (head @ ranked)) + 11 \<le> lines" using part(1) by simp
  from frame_height [OF this] have "lines \<le> int (length rows)" "int (length rows) \<le> lines + 1" by (simp_all add: rows)
  moreover have shown: "take (length head) rows = head" "take (length ranked) (drop (length head) rows) = ranked"
    by (simp_all add: rows graph_part_def Let_def)
  moreover have "rows ! (length head + 1 + i) = ranked ! (1 + i)" if "1 + i < length ranked" for i
    using that by (simp add: rows graph_part_def Let_def nth_append)
  ultimately show ?thesis using part(2) by simp
qed


section \<open>Rows of a graph\<close>

lemma text_len_append [simp]: "text_len (s @ t) = text_len s + text_len t"
  by (simp add: text_len_def)

lemma text_len_Cons: "text_len (c # s) = text_len [c] + text_len s"
  by (simp add: text_len_def)

lemma text_len_Nil [simp]: "text_len [] = 0"
  by (simp add: text_len_def)

lemma text_len_le: "text_len s \<le> length s"
  by (simp add: text_len_def)

lemma glyph_lens: "text_len HLINE = 1" "text_len VBAR = 1" "text_len CORNER = 1" "text_len (replicate n CHR '' '') = n" "text_len ''0'' = 1"
  by (simp_all add: HLINE_def VBAR_def CORNER_def text_len_def)

lemma glyph_plain: "ESC \<notin> set HLINE" "ESC \<notin> set VBAR" "ESC \<notin> set CORNER" "ESC \<notin> set (replicate n CHR '' '')"
  by (simp_all add: HLINE_def VBAR_def CORNER_def ESC_def)

lemma cell_cases: "0 \<le> i \<Longrightarrow> i \<le> 8 \<Longrightarrow> i \<in> {0, 1, 2, 3, 4, 5, 6, 7, 8 :: int}"
  by auto

lemma block_glyph_shown: "0 \<le> i \<Longrightarrow> i \<le> 8 \<Longrightarrow> text_len (block_glyph i) = 1 \<and> ESC \<notin> set (block_glyph i)"
  by (drule (1) cell_cases) (auto simp: block_glyph_def text_len_def ESC_def char_of_def bit_0)

lemma blocks_shown:
  assumes "\<forall>i \<in> set cells. 0 \<le> i \<and> i \<le> 8"
  shows "text_len (concat (map block_glyph cells)) = length cells \<and> ESC \<notin> set (concat (map block_glyph cells))"
  using assms by (induction cells) (auto simp: block_glyph_shown)

lemma hlines_shown: "text_len (hlines n) = nat n \<and> ESC \<notin> set (hlines n)"
proof -
  have "text_len (concat (replicate k HLINE)) = k \<and> ESC \<notin> set (concat (replicate k HLINE))" for k
    by (induction k) (auto simp: glyph_lens glyph_plain)
  then show ?thesis unfolding hlines_def by blast
qed

lemma graph_block_rows:
  assumes "cells \<in> set (graph_block samples ceil0 width height)"
  shows "length cells = nat (max 10 (width - LABEL_W - 1))" "\<forall>i \<in> set cells. 0 \<le> i \<and> i \<le> 8"
  using assms by (auto simp: graph_block_def graph_cell_def Let_def)

lemma fixed_plain: "ESC \<notin> set (fixed k x)"
proof -
  have "ESC \<notin> set (show_nat n)" for n using show_nat_digits [of n] by (auto simp: list_all_iff is_digit_def ESC_def)
  then show ?thesis by (auto simp: fixed_def Let_def zpad_def ESC_def)
qed

lemma label_plain: "ESC \<notin> set (graph_label ceil height r)"
  using fixed_plain glyph_plain(4) by (auto simp: graph_label_def rjust_def fmt_axis_def) (auto simp: ESC_def)

lemma fixed_length:
  assumes "0 \<le> x" "x \<le> 1000" "k \<le> 1"
  shows "length (fixed k x) \<le> (if k = 0 then 4 else 6)"
proof -
  let ?n = "nat (round_half_even (x * 10 ^ k))"
  have "x * 10 ^ k \<le> of_int (1000 * 10 ^ k)" using assms(2) by simp
  from round_half_even_le [OF this] have n: "?n \<le> 1000 * 10 ^ k" by (simp add: nat_le_iff)
  then have "?n div 10 ^ k \<le> 1000" by (metis div_le_mono nonzero_mult_div_cancel_right power_not_zero zero_neq_numeral)
  then have l: "length (show_nat (?n div 10 ^ k)) \<le> Suc 3" by (intro show_nat_length) simp
  have "k = 0 \<or> k = 1" using assms(3) by auto
  then show ?thesis
  proof
    assume "k = 0"
    with l show ?thesis by (simp add: fixed_def Let_def)
  next
    assume k: "k = 1"
    have "length (zpad (Suc 0) (int (?n mod 10 ^ k))) = Suc 0" by (rule zpad_facts(1)) (simp_all add: k)
    with l k show ?thesis by (simp add: fixed_def Let_def)
  qed
qed

lemma scaled_le:
  assumes "0 \<le> x" "x \<le> 1000 * u" "0 < u"
  shows "0 \<le> to_double (x / u)" "to_double (x / u) \<le> 1000"
  using to_double_le [of "x / u" 1000] assms by (simp_all add: pos_divide_le_eq)

lemma fmt_axis_length:
  assumes "0 \<le> x" "x \<le> 10 ^ 12"
  shows "length (fmt_axis x) \<le> 7"
proof -
  have "length (fixed k (to_double (x / u))) \<le> (if k = 0 then 4 else 6)" if "x \<le> 1000 * u" "0 < u" "k \<le> 1" for k u
    using scaled_le [OF assms(1) that(1,2)] that(3) by (rule fixed_length)
  from this [of "10 ^ 9" 1] this [of "10 ^ 6" 1] this [of "10 ^ 3" 0] fixed_length [of x 0] assms
  show ?thesis by (auto simp: fmt_axis_def)
qed

lemma label_length:
  assumes "0 < ceil" "ceil \<le> 10 ^ 12" "r < height" "height \<le> 1000"
  shows "length (graph_label ceil height r) \<le> 7"
proof -
  let ?n = "10 ^ 12 * int height"
  have r: "of_nat (r + 1) \<le> (of_nat height :: rat)" using assms(3) by (metis Suc_eq_plus1 Suc_leI of_nat_le_iff)
  have "ceil * of_nat (r + 1) \<le> 10 ^ 12 * of_nat height" using assms(1,2) r by (intro mult_mono) simp_all
  moreover have "of_nat height \<le> (1000 :: rat)" using assms(4) by (metis of_nat_le_iff of_nat_numeral)
  ultimately have top: "to_double (ceil * of_nat (r + 1)) \<le> of_int ?n" "0 \<le> to_double (ceil * of_nat (r + 1))"
    using to_double_le [of "ceil * of_nat (r + 1)" ?n] assms(1) by simp_all
  have "to_double (ceil * of_nat (r + 1)) / of_nat height \<le> of_int (10 ^ 12)" "0 \<le> to_double (ceil * of_nat (r + 1)) / of_nat height"
    using top assms(3) by (simp_all add: pos_divide_le_eq)
  from to_double_le [OF this(2,1)]
  have "length (fmt_axis (to_double (to_double (ceil * of_nat (r + 1)) / of_nat height))) \<le> 7" by (intro fmt_axis_length) simp_all
  then show ?thesis unfolding graph_label_def rjust_def LABEL_W_def length_append length_replicate by linarith
qed

lemma strip_graph_row:
  assumes "\<forall>i \<in> set cells. 0 \<le> i \<and> i \<le> 8" "ESC \<notin> set label" "list_all is_param color"
  shows "strip_ansi (graph_row no_color color label cells) = graph_row True color label cells"
proof -
  have grey: "list_all is_param ''90''" by (simp add: is_param_def is_digit_def)
  let ?bars = "concat (map block_glyph cells)"
  have b: "ESC \<notin> set ?bars" using blocks_shown [OF assms(1)] by blast
  have "strip_ansi (graph_row no_color color label cells) = label @ VBAR @ ?bars"
    using strip_ansi_colour [OF b assms(3), of no_color "[]"]
    by (simp only: graph_row_def strip_ansi_colour [OF assms(2) grey] strip_ansi_colour [OF glyph_plain(2) grey]) simp
  then show ?thesis by (simp add: graph_row_def colour_def)
qed

lemma strip_base_row:
  "strip_ansi (colour no_color ''90'' (rjust n ''0'' @ CORNER @ hlines bw)) = rjust n ''0'' @ CORNER @ hlines bw"
proof -
  have "ESC \<notin> set (rjust n ''0'' @ CORNER @ hlines bw)"
    using hlines_shown [of bw] glyph_plain by (simp add: rjust_def ESC_def)
  moreover have "list_all is_param ''90''" by (simp add: is_param_def is_digit_def)
  ultimately show ?thesis using strip_ansi_colour [of _ "''90''" no_color "[]"] by simp
qed

text \<open>
  A graph never makes the terminal wrap and never depends on its colours: on a terminal of at least 22
  columns every row shows at most one column less than the terminal has, for rates up to a terabit per
  second, and what is shown with colours is what is shown without.
\<close>
theorem graph_rows_fit:
  assumes "22 \<le> cols" "0 < height" "height \<le> 1000" "ceil \<le> 10 ^ 12" "list_all is_param color"
  defines "gw \<equiv> max 20 (cols - 2)"
  shows "map strip_ansi (graph_lines samples ceil gw height color no_color) = graph_lines samples ceil gw height color True
     \<and> (\<forall>row \<in> set (graph_lines samples ceil gw height color True). int (text_len row) \<le> cols - 1)"
proof -
  define c where "c = (if 0 < ceil then ceil else 1)"
  have c: "0 < c" "c \<le> 10 ^ 12" using assms(4) by (simp_all add: c_def)
  let ?rows = "zip (rev [0..<height]) (graph_block samples ceil gw height)"
  have row: "strip_ansi (graph_row no_color color (graph_label c height r) cells) = graph_row True color (graph_label c height r) cells
      \<and> int (text_len (graph_row True color (graph_label c height r) cells)) \<le> cols - 1" if "(r, cells) \<in> set ?rows" for r cells
  proof -
    from that have "r < height" and cells: "cells \<in> set (graph_block samples ceil gw height)" by (auto dest: set_zip_leftD set_zip_rightD)
    note blocks = graph_block_rows [OF cells]
    have "text_len (graph_label c height r) \<le> 7"
      using text_len_le label_length [OF c \<open>r < height\<close> assms(3)] by (rule le_trans)
    moreover have "int (length cells) = cols - 9" using assms(1) by (simp add: blocks(1) gw_def LABEL_W_def)
    ultimately have "int (text_len (graph_row True color (graph_label c height r) cells)) \<le> cols - 1"
      using blocks_shown [OF blocks(2)] by (simp add: graph_row_def colour_def glyph_lens)
    then show ?thesis using strip_graph_row [OF blocks(2) label_plain assms(5)] by blast
  qed
  have "int (text_len (rjust (nat LABEL_W) ''0'' @ CORNER @ hlines (max 10 (gw - LABEL_W - 1)))) \<le> cols - 1"
    using hlines_shown assms(1) by (simp add: rjust_def LABEL_W_def gw_def) (subst text_len_Cons, simp add: glyph_lens)
  with row show ?thesis
    by (auto simp: graph_lines_def Let_def c_def [symmetric] strip_base_row) (auto simp: colour_def)
qed


section \<open>Rates on the screen\<close>

lemma fixed_digits:
  assumes "0 \<le> x"
  shows "int (dec_val (filter is_digit (rjust n (fixed k x)))) = round_half_even (x * 10 ^ k)"
proof -
  let ?n = "nat (round_half_even (x * 10 ^ k))"
  have sp: "filter is_digit (replicate m CHR '' '') = []" for m by (induction m) (simp_all add: is_digit_def)
  have "dec_val (filter is_digit (fixed k x)) = ?n"
  proof (cases k)
    case 0
    then show ?thesis by (simp add: fixed_def filter_digits show_nat_digits)
  next
    case (Suc j)
    have z: "length (zpad k (int (?n mod 10 ^ k))) = k" "list_all is_digit (zpad k (int (?n mod 10 ^ k)))"
      "int (dec_val (zpad k (int (?n mod 10 ^ k)))) = int (?n mod 10 ^ k)"
      using zpad_facts [of "int (?n mod 10 ^ k)" j] by (simp_all add: Suc zmod_int)
    have "filter is_digit (fixed k x) = show_nat (?n div 10 ^ k) @ zpad k (int (?n mod 10 ^ k))"
      using z(2) by (simp add: fixed_def Let_def Suc filter_digits show_nat_digits is_digit_def)
    then have "dec_val (filter is_digit (fixed k x)) = ?n div 10 ^ k * 10 ^ k + ?n mod 10 ^ k"
      using z(1,3) by (simp only: dec_val_append dec_val_show_nat of_nat_eq_iff)
    then show ?thesis by (simp only: div_mult_mod_eq)
  qed
  then show ?thesis using round_half_even_nonneg [of "x * 10 ^ k"] assms by (simp add: rjust_def sp)
qed

text \<open>The unit of the last digit that \<^verbatim>\<open>_fmt_bps\<close> shows.\<close>

definition last_digit :: "rat \<Rightarrow> rat" where
  "last_digit x = (if 10 ^ 9 \<le> x then 10 ^ 7 else if 10 ^ 6 \<le> x then 10 ^ 4 else if 10 ^ 3 \<le> x then 10 else 1)"

lemma scaled_digits:
  assumes "0 \<le> x" "x < 1000 * u" "0 < u"
  shows "\<bar>of_nat (dec_val (filter is_digit (rjust 6 (fixed 2 (to_double (x / u)))))) * (u / 100) - x\<bar> \<le> u / 100"
proof -
  define y d where "y = x / u" and "d = to_double y"
  define r :: rat where "r = of_int (round_half_even (d * 10 ^ 2))"
  have y: "0 \<le> y" "y < 2 ^ Suc 9" and x: "x = y * u" using assms by (simp_all add: y_def pos_divide_less_eq)
  have "0 \<le> d" using scaled_le(1) assms by (simp add: d_def y_def)
  then have n: "of_nat (dec_val (filter is_digit (rjust 6 (fixed 2 d)))) = r"
    unfolding r_def using fixed_digits by (metis of_int_of_nat_eq)
  have "\<bar>d - y\<bar> \<le> 1 / 2 ^ (53 - 9)" using to_double_error [OF y] by (simp add: d_def)
  then have "\<bar>d - y\<bar> \<le> 1 / 200" by simp
  moreover have "\<bar>r - d * 100\<bar> \<le> 1 / 2" using round_half_even_error [of "d * 10 ^ 2"] by (simp add: r_def)
  ultimately have "\<bar>r - y * 100\<bar> \<le> 1" by linarith
  then have "\<bar>r - y * 100\<bar> * (u / 100) \<le> 1 * (u / 100)" using assms(3) by (intro mult_right_mono) simp_all
  also have "\<bar>r - y * 100\<bar> * (u / 100) = \<bar>(r - y * 100) * (u / 100)\<bar>" using assms(3) by (simp add: abs_mult)
  also have "(r - y * 100) * (u / 100) = r * (u / 100) - x" by (simp add: x left_diff_distrib)
  finally show ?thesis by (simp add: n [unfolded d_def y_def])
qed

text \<open>
  A rate on the screen is right to its last digit: the number that \<^verbatim>\<open>_fmt_bps\<close> shows, in the unit of its last
  digit, differs from the rate by at most that unit, for every rate below a terabit per second.
\<close>
theorem shown_rate_accurate:
  assumes "0 \<le> x" "x < 10 ^ 12"
  shows "\<bar>of_nat (dec_val (filter is_digit (fmt_bps x))) * last_digit x - x\<bar> \<le> last_digit x"
proof -
  note scaled = scaled_digits [OF assms(1)]
  have "of_nat (dec_val (filter is_digit (rjust 6 (fixed 0 x)))) = (of_int (round_half_even x) :: rat)"
    using fixed_digits [OF assms(1), of 6 0] by (metis of_int_of_nat_eq power_0 mult_1_right)
  then have "\<bar>of_nat (dec_val (filter is_digit (rjust 6 (fixed 0 x)))) - x\<bar> \<le> 1" using round_half_even_error [of x] by simp
  then have one: "fmt_bps x = rjust 6 (fixed 0 x) @ ''  bit/s'' \<Longrightarrow> last_digit x = 1 \<Longrightarrow> ?thesis" by (simp add: is_digit_def)
  have unit: ?thesis if h: "fmt_bps x = rjust 6 (fixed 2 (to_double (x / u))) @ s" "filter is_digit s = []" "last_digit x = u / 100"
    "x < 1000 * u" "0 < u" for u s
    unfolding h(1) h(3) filter_append h(2) append_Nil2 by (rule scaled [OF h(4,5)])
  consider "10 ^ 9 \<le> x" | "10 ^ 6 \<le> x" "x < 10 ^ 9" | "10 ^ 3 \<le> x" "x < 10 ^ 6" | "x < 10 ^ 3" by linarith
  then show ?thesis
  proof cases
    case 1
    with assms(2) show ?thesis by (intro unit [of "10 ^ 9" "'' Gbit/s''"]) (simp_all add: fmt_bps_def last_digit_def is_digit_def)
  next
    case 2
    then show ?thesis by (intro unit [of "10 ^ 6" "'' Mbit/s''"]) (simp_all add: fmt_bps_def last_digit_def is_digit_def)
  next
    case 3
    then show ?thesis by (intro unit [of "10 ^ 3" "'' Kbit/s''"]) (simp_all add: fmt_bps_def last_digit_def is_digit_def)
  next
    case 4
    then show ?thesis by (intro one) (simp_all add: fmt_bps_def last_digit_def)
  qed
qed


section \<open>A terminal of 24 rows\<close>

lemma empty_head:
  "\<exists>head. frame_head 80 True (Inl OSError) ''10.0.0.1'' [] [] [] None = Inr head \<and> length head = 5"
  by (simp add: frame_head_def Let_def)

theorem session_frame_fills_screen_witness:
  "\<exists>rows. render 80 24 True (Inl OSError) ''10.0.0.1'' [] [] [] HELP ''90'' None = Inr rows \<and> length rows = 25"
proof -
  obtain head where h: "frame_head 80 True (Inl OSError) ''10.0.0.1'' [] [] [] None = Inr head" "length head = 5" using empty_head by blast
  from session_frame_fills_screen [OF h(1), of 24 HELP "''90''"] h(2) show ?thesis by auto
qed

definition ranked_gmonitor :: gmonitor where
  "ranked_gmonitor = new_gmonitor\<lparr>gm_top_rates := [(0x0A000001, 2000000, 1000), (0x0A000002, 5, 0)]\<rparr>"

lemma sample_global:
  "\<exists>rows. global_frame 80 24 0 ''12:00:00'' True None ranked_gmonitor = Inr rows"
proof -
  have "long2ip 0x0A000001 = Inr ''10.0.0.1''" "long2ip 0x0A000002 = Inr ''10.0.0.2''" by code_simp+
  then have "\<exists>rs. top_rows (take n (gm_top_rates ranked_gmonitor)) = Inr rs" for n
    by (cases n; cases "n - 1") (simp_all add: ranked_gmonitor_def top_row_def)
  then show ?thesis by (simp add: global_frame_def render_global_def top_part_def Let_def bindE_eq_Inr)
qed

theorem global_frame_fits_witness:
  "\<exists>rows. global_frame 80 24 0 ''12:00:00'' True None ranked_gmonitor = Inr rows
     \<and> top_row (0x0A000001, 2000000, 1000) = Inr (rows ! 8) \<and> length rows \<le> 25"
proof -
  obtain rows where r: "global_frame 80 24 0 ''12:00:00'' True None ranked_gmonitor = Inr rows" using sample_global by blast
  let ?head = "global_head 80 0 ''12:00:00'' True (gm_counts ranked_gmonitor) (gm_in_hist ranked_gmonitor) (gm_out_hist ranked_gmonitor) None"
  have "length (rates_rows 80 True (rates_text '' IN   '' []) (rates_text '' OUT  '' [])) = 2" by code_simp
  then have l: "length ?head = 7"
    by (simp add: global_head_def ranked_gmonitor_def new_gmonitor_def backend_rows_def Let_def)
  from global_frame_fits [OF r refl] l r show ?thesis by (auto simp: ranked_gmonitor_def)
qed

theorem graph_rows_fit_witness:
  "\<forall>row \<in> set (graph_lines [1000, 2000000] 2400000 (max 20 (80 - 2)) 3 ''32'' True). int (text_len row) \<le> 79"
  using graph_rows_fit [of 80 3 2400000 "''32''" "[1000, 2000000]" False] by (simp add: is_param_def is_digit_def)

theorem shown_rate_accurate_witness:
  "\<bar>of_nat (dec_val (filter is_digit (fmt_bps 1234567))) * 10000 - (1234567 :: rat)\<bar> \<le> 10000"
  using shown_rate_accurate [of 1234567] by (simp add: last_digit_def)

end
