(* ===== verification/Breaker_Threads.thy ===== *)
theory Breaker_Threads
  imports Backend_Base
begin

text \<open>
  \<^verbatim>\<open>Backend._record\<close> and \<^verbatim>\<open>Backend.is_circuit_open\<close> of \<^verbatim>\<open>app/src/backends/base.py\<close> when several worker threads
  call them on one backend. No lock protects its attributes, so a call is a sequence of reads and writes
  that those of other threads may come between; the rate counters, which nothing is decided by, are
  ticked in one step.
\<close>

section \<open>Reads and writes\<close>

datatype micro =
    TickTotal rat | TickOk rat | TickErr rat
  | LoadErr | StoreErr | SetLastErr rat
  | LoadConsec | StoreConsec | TestConsec rat | SetOpen rat
  | LoadOk | StoreOk | SetLastOk rat | ResetConsec
  | TestSet rat | TestExpired rat | ClearOpen

text \<open>The calls as the reads and writes of the source, in its order; \<^verbatim>\<open>x += 1\<close> is a read and a write. The read of
  \<^verbatim>\<open>is_circuit_open\<close> that gives its result changes nothing and is left out.\<close>

definition error_code :: "clock \<Rightarrow> micro list" where
  "error_code ck = [TickTotal (ck_total ck), LoadErr, StoreErr, SetLastErr (ck_now ck), LoadConsec, StoreConsec,
     TickErr (ck_own ck), TestConsec (ck_now ck)]"

definition ok_code :: "clock \<Rightarrow> micro list" where
  "ok_code ck = [TickTotal (ck_total ck), LoadOk, StoreOk, SetLastOk (ck_now ck), ResetConsec, TickOk (ck_own ck)]"

definition check_code :: "rat \<Rightarrow> micro list" where
  "check_code now = [TestSet now]"

text \<open>
  One instruction of a thread whose last read gave \<open>reg\<close>: the instructions it continues with, what it
  holds then, and the backend.
\<close>

fun exec_micro :: "micro \<Rightarrow> int \<Rightarrow> backend \<Rightarrow> micro list \<times> int \<times> backend" where
  "exec_micro (TickTotal t) reg b = ([], reg, b\<lparr>b_total_rate := tick t (b_total_rate b)\<rparr>)"
| "exec_micro (TickOk t) reg b = ([], reg, b\<lparr>b_ok_rate := tick t (b_ok_rate b)\<rparr>)"
| "exec_micro (TickErr t) reg b = ([], reg, b\<lparr>b_err_rate := tick t (b_err_rate b)\<rparr>)"
| "exec_micro LoadErr reg b = ([], b_err_count b, b)"
| "exec_micro StoreErr reg b = ([], reg, b\<lparr>b_err_count := reg + 1\<rparr>)"
| "exec_micro (SetLastErr now) reg b = ([], reg, b\<lparr>b_last_err_t := now\<rparr>)"
| "exec_micro LoadConsec reg b = ([], b_consec_err b, b)"
| "exec_micro StoreConsec reg b = ([], reg, b\<lparr>b_consec_err := reg + 1\<rparr>)"
| "exec_micro (TestConsec now) reg b = (if CB_THRESHOLD \<le> b_consec_err b then [SetOpen now] else [], reg, b)"
| "exec_micro (SetOpen now) reg b = ([], reg, b\<lparr>b_open_until := now + CB_PENALTY\<rparr>)"
| "exec_micro LoadOk reg b = ([], b_ok_count b, b)"
| "exec_micro StoreOk reg b = ([], reg, b\<lparr>b_ok_count := reg + 1\<rparr>)"
| "exec_micro (SetLastOk now) reg b = ([], reg, b\<lparr>b_last_ok_t := now\<rparr>)"
| "exec_micro ResetConsec reg b = ([], reg, b\<lparr>b_consec_err := 0\<rparr>)"
| "exec_micro (TestSet now) reg b = (if b_open_until b \<noteq> 0 then [TestExpired now] else [], reg, b)"
| "exec_micro (TestExpired now) reg b = (if b_open_until b \<le> now then [ClearOpen, ResetConsec] else [], reg, b)"
| "exec_micro ClearOpen reg b = ([], reg, b\<lparr>b_open_until := 0\<rparr>)"

type_synonym worker = "int \<times> micro list"

text \<open>The threads in the order in which they get the processor; a thread that has finished does nothing.\<close>

definition thread_step :: "nat \<Rightarrow> worker list \<times> backend \<Rightarrow> worker list \<times> backend" where
  "thread_step i st =
     (case st of (ths, b) \<Rightarrow>
        if i < length ths
        then case ths ! i of
               (reg, []) \<Rightarrow> (ths, b)
             | (reg, m # rest) \<Rightarrow> (case exec_micro m reg b of (cont, reg', b') \<Rightarrow> (ths[i := (reg', cont @ rest)], b'))
        else (ths, b))"

definition run_threads :: "nat list \<Rightarrow> worker list \<times> backend \<Rightarrow> worker list \<times> backend" where
  "run_threads schedule st = foldl (\<lambda>s i. thread_step i s) st schedule"


section \<open>One thread at a time\<close>

text \<open>
  A call that is not interrupted does what the sequential model says: the reads and writes of an error,
  a success and a check, run to their end, are \<^verbatim>\<open>record_err\<close>, \<^verbatim>\<open>record_ok\<close> and \<^verbatim>\<open>is_circuit_open\<close>.
\<close>
theorem uninterrupted_calls:
  "(\<exists>reg'. run_threads (replicate 9 0) ([(reg, error_code ck)], b) = ([(reg', [])], record_err ck b))
   \<and> (\<exists>reg'. run_threads (replicate 6 0) ([(reg, ok_code ck)], b) = ([(reg', [])], record_ok ck b))
   \<and> run_threads (replicate 4 0) ([(reg, check_code now)], b) = ([(reg, [])], snd (is_circuit_open now b))"
  by (simp add: run_threads_def thread_step_def numeral_eq_Suc error_code_def ok_code_def check_code_def record_err_def record_ok_def
      record_call_def is_circuit_open_def Let_def)


section \<open>Any interleaving\<close>

fun call_code :: "cb_event \<Rightarrow> micro list" where
  "call_code (Success ck) = ok_code ck"
| "call_code (Failure ck) = error_code ck"
| "call_code (Check now) = check_code now"

definition workers :: "cb_event list list \<Rightarrow> worker list" where
  "workers calls = map (\<lambda>cs. (0, concat (map call_code cs))) calls"

text \<open>The errors that a thread has still to count.\<close>

definition pending :: "worker \<Rightarrow> int" where
  "pending w = int (length (filter (\<lambda>m. m = StoreConsec) (snd w)))"

definition uncounted :: "worker list \<Rightarrow> int" where
  "uncounted ths = sum_list (map pending ths)"

definition reported :: "cb_event list list \<Rightarrow> rat \<Rightarrow> bool" where
  "reported calls now \<longleftrightarrow> (\<exists>cs \<in> set calls. \<exists>ck. Failure ck \<in> set cs \<and> ck_now ck = now)"

text \<open>The write of a count directly follows its read.\<close>

fun paired :: "micro list \<Rightarrow> bool" where
  "paired [] = True"
| "paired (m # rest) \<longleftrightarrow> paired rest \<and> (m \<noteq> LoadConsec \<longrightarrow> take 1 rest \<noteq> [StoreConsec])"

definition worker_ok :: "cb_event list list \<Rightarrow> int \<Rightarrow> worker \<Rightarrow> bool" where
  "worker_ok calls n w \<longleftrightarrow> paired (snd w) \<and> (take 1 (snd w) = [StoreConsec] \<longrightarrow> fst w \<le> n)
     \<and> (\<forall>now. SetOpen now \<in> set (snd w) \<longrightarrow> CB_THRESHOLD \<le> n \<and> reported calls now)
     \<and> (\<forall>now. TestConsec now \<in> set (snd w) \<longrightarrow> reported calls now)"

definition breaker_ok :: "cb_event list list \<Rightarrow> int \<Rightarrow> backend \<Rightarrow> bool" where
  "breaker_ok calls n b \<longleftrightarrow> b_consec_err b \<le> n
     \<and> (b_open_until b \<noteq> 0 \<longrightarrow> CB_THRESHOLD \<le> n \<and> (\<exists>now. reported calls now \<and> b_open_until b = now + CB_PENALTY))"

lemma sum_list_update_int: "i < length xs \<Longrightarrow> sum_list (xs[i := x]) = sum_list xs + x - (xs ! i :: int)"
  by (induction xs arbitrary: i) (auto split: nat.splits)

lemma uncounted_finished: "\<forall>w \<in> set ths. snd w = [] \<Longrightarrow> uncounted ths = 0"
  by (induction ths) (simp_all add: uncounted_def pending_def)

lemma worker_ok_mono: "worker_ok calls n w \<Longrightarrow> n \<le> n' \<Longrightarrow> worker_ok calls n' w"
  by (auto simp: worker_ok_def)

lemma exec_micro_ok:
  assumes "worker_ok calls n (reg, m # rest)" "breaker_ok calls n b" "0 \<le> n" "exec_micro m reg b = (cont, reg', b')"
  defines "n' \<equiv> n + (if m = StoreConsec then 1 else 0)"
  shows "worker_ok calls n' (reg', cont @ rest)" "breaker_ok calls n' b'"
    "pending (reg', cont @ rest) = pending (reg, m # rest) - (n' - n)"
  using assms by (cases m; auto simp: worker_ok_def breaker_ok_def pending_def split: if_splits)+

definition threads_ok :: "cb_event list list \<Rightarrow> int \<Rightarrow> worker list \<times> backend \<Rightarrow> bool" where
  "threads_ok calls errs st \<longleftrightarrow> (let n = errs - uncounted (fst st) in 0 \<le> n \<and> breaker_ok calls n (snd st) \<and> (\<forall>w \<in> set (fst st). worker_ok calls n w))"

lemma thread_step_ok:
  assumes "threads_ok calls errs st"
  shows "threads_ok calls errs (thread_step i st)"
proof -
  obtain ths b where st: "st = (ths, b)" by fastforce
  let ?n = "errs - uncounted ths"
  have inv: "0 \<le> ?n" "breaker_ok calls ?n b" "\<forall>w \<in> set ths. worker_ok calls ?n w" using assms by (simp_all add: threads_ok_def st Let_def)
  show ?thesis
  proof (cases "i < length ths \<and> snd (ths ! i) \<noteq> []")
    case False
    then have "thread_step i st = st" by (auto simp: thread_step_def st split: prod.splits list.splits)
    with assms show ?thesis by simp
  next
    case True
    then obtain reg m rest where w: "ths ! i = (reg, m # rest)" by (metis list.exhaust prod.collapse)
    obtain cont reg' b' where ex: "exec_micro m reg b = (cont, reg', b')" using prod_cases3 by blast
    let ?ths = "ths[i := (reg', cont @ rest)]"
    have "worker_ok calls ?n (reg, m # rest)" using inv(3) True w by (metis nth_mem)
    note here = exec_micro_ok [OF this inv(2,1) ex]
    define n' where "n' = ?n + (if m = StoreConsec then 1 else 0)"
    note here = here [folded n'_def]
    have le: "?n \<le> n'" by (simp add: n'_def)
    have "uncounted ?ths = uncounted ths - (n' - ?n)"
      using True here(3) by (simp add: uncounted_def map_update sum_list_update_int w)
    then have n': "errs - uncounted ?ths = n'" by simp
    have "\<forall>w \<in> set ?ths. worker_ok calls n' w"
      using here(1) inv(3) worker_ok_mono [OF _ le] set_update_subset_insert by fastforce
    then have "threads_ok calls errs (?ths, b')" using here(2) inv(1) le by (simp add: threads_ok_def Let_def n')
    then show ?thesis using True by (simp add: thread_step_def st w ex)
  qed
qed

lemma run_threads_ok: "threads_ok calls errs st \<Longrightarrow> threads_ok calls errs (run_threads schedule st)"
  unfolding run_threads_def by (induction schedule arbitrary: st) (simp_all add: thread_step_ok)

lemma call_code_facts:
  "take 1 rest \<noteq> [StoreConsec] \<Longrightarrow> paired (call_code e @ rest) = paired rest" "take 1 (call_code e @ rest) \<noteq> [StoreConsec]"
  "SetOpen now \<notin> set (call_code e)" "TestConsec now \<in> set (call_code e) \<Longrightarrow> \<exists>ck. e = Failure ck \<and> ck_now ck = now"
  by (cases e; simp add: error_code_def ok_code_def check_code_def)+

lemma calls_paired: "paired (concat (map call_code cs)) \<and> take 1 (concat (map call_code cs)) \<noteq> [StoreConsec]"
proof (induction cs)
  case (Cons e cs)
  then show ?case using call_code_facts(1) [of "concat (map call_code cs)" e] call_code_facts(2) [of e "concat (map call_code cs)"]
    by (simp only: list.map concat.simps) blast
qed simp

lemma workers_ok: "w \<in> set (workers calls) \<Longrightarrow> worker_ok calls 0 w"
  using calls_paired call_code_facts(3,4) by (fastforce simp: workers_def worker_ok_def reported_def)


text \<open>
  The count of errors is not safe against threads: of three workers that each report an error at the same
  time, two increments are lost when all read the count before one writes it, and the circuit stays closed.
\<close>
theorem lost_errors:
  "\<exists>schedule ths b. run_threads schedule (workers (replicate 3 [Failure (at_time 5)]), new_backend) = (ths, b)
     \<and> uncounted ths = 0 \<and> (\<forall>w \<in> set ths. snd w = []) \<and> \<not> fst (is_circuit_open 6 b)"
proof -
  define schedule :: "nat list" where "schedule = concat (replicate 5 [0, 1, 2]) @ concat (replicate 3 [0, 1, 2])"
  obtain ths b where r: "run_threads schedule (workers (replicate 3 [Failure (at_time 5)]), new_backend) = (ths, b)" by fastforce
  then have "(\<forall>w \<in> set ths. snd w = []) \<and> b_open_until b = 0"
    by (auto simp: schedule_def run_threads_def workers_def thread_step_def error_code_def numeral_eq_Suc new_backend_def CB_THRESHOLD_def at_time_def)
  moreover then have "uncounted ths = 0" by (intro uncounted_finished) blast
  moreover from calculation have "\<not> fst (is_circuit_open 6 b)" by (simp add: is_circuit_open_def)
  ultimately show ?thesis using r by blast
qed


end
