(* ===== verification/Lifecycle.thy ===== *)
theory Lifecycle
  imports Status
begin

text \<open>
  The life of the daemon as the operating system sees it: \<^verbatim>\<open>Daemon.run\<close>, \<^verbatim>\<open>_daemonize\<close>, \<^verbatim>\<open>_write_pid\<close> and the signal
  handler of \<^verbatim>\<open>app/ISGd.py\<close>. A machine holds the processes of the daemon and the pid file; a step relation
  describes what a process does next, and when signals reach it.
\<close>

section \<open>Processes\<close>

datatype life_pc =
    Checking | Starting | Fork1 | Detaching | Fork2 | Settling | WritingPid | FillingPid | Redirecting
  | Installing | Launching | Serving | Closing | Joining | Leaving

record process =
  pr_pc :: life_pc
  pr_leader :: bool
  pr_detached :: bool
  pr_hup_ignored :: bool
  pr_handlers :: bool
  pr_cwd :: "string option"
  pr_umask :: "int option"
  pr_fds :: "string list"
  pr_stop :: bool
  pr_jobs :: "string list"

text \<open>A process as the shell starts it: directory, mask and the three standard files are inherited.\<close>

definition new_process :: "bool \<Rightarrow> string list \<Rightarrow> process" where
  "new_process leader fds = \<lparr>pr_pc = Checking, pr_leader = leader, pr_detached = False, pr_hup_ignored = False, pr_handlers = False,
     pr_cwd = None, pr_umask = None, pr_fds = fds, pr_stop = False, pr_jobs = []\<rparr>"

record machine =
  m_procs :: "nat \<rightharpoonup> process"
  m_pid_file :: "string option"

definition log_path :: "config \<Rightarrow> string" where
  "log_path cfg = (if c_debug cfg then ''/tmp/ISGd_dbg.log'' else ''/dev/null'')"

definition job_names :: "config \<Rightarrow> string list" where
  "job_names cfg = [''ISG'', ''CoA'', ''TC_Refresh'', ''Status''] @ (if c_api cfg \<noteq> None then [''API''] else [])"

text \<open>\<^verbatim>\<open>/proc/<pid>/stat\<close> exists for the processes of the daemon and for those of other programs.\<close>

definition running :: "nat set \<Rightarrow> machine \<Rightarrow> int \<Rightarrow> bool" where
  "running others m pid \<longleftrightarrow> 0 \<le> pid \<and> (nat pid \<in> dom (m_procs m) \<or> nat pid \<in> others)"

definition set_proc :: "nat \<Rightarrow> process \<Rightarrow> machine \<Rightarrow> machine" where
  "set_proc p r m = m\<lparr>m_procs := (m_procs m)(p \<mapsto> r)\<rparr>"

definition end_proc :: "nat \<Rightarrow> machine \<Rightarrow> machine" where
  "end_proc p m = m\<lparr>m_procs := (m_procs m)(p := None)\<rparr>"

definition free_pid :: "nat set \<Rightarrow> machine \<Rightarrow> nat \<Rightarrow> bool" where
  "free_pid others m p \<longleftrightarrow> p \<notin> dom (m_procs m) \<and> p \<notin> others"

text \<open>\<^verbatim>\<open>_check_pid\<close> on the pid file of the machine.\<close>

definition pid_check :: "nat set \<Rightarrow> machine \<Rightarrow> unit res" where
  "pid_check others m = check_pid (map_option Inr (m_pid_file m)) (running others m)"


section \<open>Steps\<close>

text \<open>
  What a process does by itself. The parent of a fork calls \<^verbatim>\<open>os._exit\<close>; \<^verbatim>\<open>open(..., 'w')\<close> empties the pid file before
  the number is written.
\<close>

inductive own_step :: "nat set \<Rightarrow> config \<Rightarrow> nat \<Rightarrow> machine \<Rightarrow> machine \<Rightarrow> bool" for others cfg p where
  refuse: "m_procs m p = Some r \<Longrightarrow> pr_pc r = Checking \<Longrightarrow> pid_check others m = Inl e \<Longrightarrow> own_step others cfg p m (end_proc p m)"
| pass: "m_procs m p = Some r \<Longrightarrow> pr_pc r = Checking \<Longrightarrow> pid_check others m = Inr () \<Longrightarrow> own_step others cfg p m (set_proc p (r\<lparr>pr_pc := Starting\<rparr>) m)"
| init_ok: "m_procs m p = Some r \<Longrightarrow> pr_pc r = Starting \<Longrightarrow> fst (init_kernel tc sk1 sk2 cfg) = Inr ()
    \<Longrightarrow> own_step others cfg p m (set_proc p (r\<lparr>pr_pc := if c_daemonize cfg then Fork1 else Installing\<rparr>) m)"
| init_fails: "m_procs m p = Some r \<Longrightarrow> pr_pc r = Starting \<Longrightarrow> fst (init_kernel tc sk1 sk2 cfg) = Inl e \<Longrightarrow> own_step others cfg p m (end_proc p m)"
| fork1: "m_procs m p = Some r \<Longrightarrow> pr_pc r = Fork1 \<Longrightarrow> free_pid others m c
    \<Longrightarrow> own_step others cfg p m (set_proc c (r\<lparr>pr_pc := Detaching, pr_leader := False\<rparr>) (set_proc p (r\<lparr>pr_pc := Leaving\<rparr>) m))"
| detach: "m_procs m p = Some r \<Longrightarrow> pr_pc r = Detaching
    \<Longrightarrow> own_step others cfg p m (set_proc p (r\<lparr>pr_pc := Fork2, pr_leader := True, pr_detached := True, pr_hup_ignored := True\<rparr>) m)"
| fork2: "m_procs m p = Some r \<Longrightarrow> pr_pc r = Fork2 \<Longrightarrow> free_pid others m c
    \<Longrightarrow> own_step others cfg p m (set_proc c (r\<lparr>pr_pc := Settling, pr_leader := False\<rparr>) (set_proc p (r\<lparr>pr_pc := Leaving\<rparr>) m))"
| settle: "m_procs m p = Some r \<Longrightarrow> pr_pc r = Settling
    \<Longrightarrow> own_step others cfg p m (set_proc p (r\<lparr>pr_pc := WritingPid, pr_cwd := Some ''/'', pr_umask := Some 0\<rparr>) m)"
| empty_pid: "m_procs m p = Some r \<Longrightarrow> pr_pc r = WritingPid
    \<Longrightarrow> own_step others cfg p m ((set_proc p (r\<lparr>pr_pc := FillingPid\<rparr>) m)\<lparr>m_pid_file := Some []\<rparr>)"
| fill_pid: "m_procs m p = Some r \<Longrightarrow> pr_pc r = FillingPid
    \<Longrightarrow> own_step others cfg p m ((set_proc p (r\<lparr>pr_pc := if c_daemonize cfg then Redirecting else Launching\<rparr>) m)\<lparr>m_pid_file := Some (show_nat p)\<rparr>)"
| redirect: "m_procs m p = Some r \<Longrightarrow> pr_pc r = Redirecting
    \<Longrightarrow> own_step others cfg p m (set_proc p (r\<lparr>pr_pc := Installing, pr_fds := replicate 3 (log_path cfg)\<rparr>) m)"
| install: "m_procs m p = Some r \<Longrightarrow> pr_pc r = Installing
    \<Longrightarrow> own_step others cfg p m (set_proc p (r\<lparr>pr_pc := if c_daemonize cfg then Launching else WritingPid, pr_handlers := True\<rparr>) m)"
| launch: "m_procs m p = Some r \<Longrightarrow> pr_pc r = Launching
    \<Longrightarrow> own_step others cfg p m (set_proc p (r\<lparr>pr_pc := Serving, pr_jobs := job_names cfg\<rparr>) m)"
| stop: "m_procs m p = Some r \<Longrightarrow> pr_pc r = Serving \<Longrightarrow> pr_stop r \<Longrightarrow> own_step others cfg p m (set_proc p (r\<lparr>pr_pc := Closing\<rparr>) m)"
| close: "m_procs m p = Some r \<Longrightarrow> pr_pc r = Closing \<Longrightarrow> own_step others cfg p m (set_proc p (r\<lparr>pr_pc := Joining\<rparr>) m)"
| leave: "m_procs m p = Some r \<Longrightarrow> pr_pc r = Joining \<or> pr_pc r = Leaving \<Longrightarrow> own_step others cfg p m (end_proc p m)"

text \<open>
  \<^verbatim>\<open>SIGTERM\<close> and \<^verbatim>\<open>SIGINT\<close> run the handler once it is installed, which sets the stop event and removes the pid file
  if it can; before that they end the process, as \<^verbatim>\<open>SIGHUP\<close> does unless it is ignored, and \<^verbatim>\<open>SIGKILL\<close> always.
\<close>

datatype life_event = Spawn nat bool "string list" | Own nat | Term nat | Hup nat | Kill nat

inductive life_step :: "nat set \<Rightarrow> config \<Rightarrow> life_event \<Rightarrow> machine \<Rightarrow> machine \<Rightarrow> bool" for others cfg where
  spawn: "free_pid others m p \<Longrightarrow> life_step others cfg (Spawn p leader fds) m (set_proc p (new_process leader fds) m)"
| own: "own_step others cfg p m m' \<Longrightarrow> life_step others cfg (Own p) m m'"
| term_handled: "m_procs m p = Some r \<Longrightarrow> pr_handlers r \<Longrightarrow> f = None \<or> f = m_pid_file m
    \<Longrightarrow> life_step others cfg (Term p) m ((set_proc p (r\<lparr>pr_stop := True\<rparr>) m)\<lparr>m_pid_file := f\<rparr>)"
| term_default: "m_procs m p = Some r \<Longrightarrow> \<not> pr_handlers r \<Longrightarrow> life_step others cfg (Term p) m (end_proc p m)"
| hup: "m_procs m p = Some r \<Longrightarrow> \<not> pr_hup_ignored r \<Longrightarrow> life_step others cfg (Hup p) m (end_proc p m)"
| hup_ignored: "m_procs m p = Some r \<Longrightarrow> pr_hup_ignored r \<Longrightarrow> life_step others cfg (Hup p) m m"
| kill: "m_procs m p = Some r \<Longrightarrow> life_step others cfg (Kill p) m (end_proc p m)"

inductive life_reach :: "nat set \<Rightarrow> config \<Rightarrow> string option \<Rightarrow> (life_event \<times> machine) list \<Rightarrow> machine \<Rightarrow> bool" for others cfg pid_file where
  boot: "life_reach others cfg pid_file [] \<lparr>m_procs = Map.empty, m_pid_file = pid_file\<rparr>"
| step: "life_reach others cfg pid_file trace m \<Longrightarrow> life_step others cfg ev m m' \<Longrightarrow> life_reach others cfg pid_file (trace @ [(ev, m)]) m'"

inductive_cases own_stepE: "own_step others cfg p m m'"

lemmas life_upd = set_proc_def end_proc_def free_pid_def


section \<open>The daemon is detached\<close>

definition past_settling :: "life_pc set" where
  "past_settling = {WritingPid, FillingPid, Redirecting, Installing, Launching, Serving, Closing, Joining}"

definition proc_ok :: "config \<Rightarrow> process \<Rightarrow> bool" where
  "proc_ok cfg r \<longleftrightarrow>
     (c_daemonize cfg \<longrightarrow>
        (pr_pc r \<in> insert Fork2 (insert Settling past_settling) \<longrightarrow> pr_detached r \<and> pr_hup_ignored r)
        \<and> (pr_pc r \<in> insert Settling past_settling \<longrightarrow> \<not> pr_leader r)
        \<and> (pr_pc r \<in> past_settling \<longrightarrow> pr_cwd r = Some ''/'' \<and> pr_umask r = Some 0)
        \<and> (pr_pc r \<in> past_settling - {WritingPid, FillingPid, Redirecting} \<longrightarrow> pr_fds r = replicate 3 (log_path cfg)))
     \<and> (\<not> c_daemonize cfg \<longrightarrow> pr_pc r \<notin> {Fork1, Detaching, Fork2, Settling, Redirecting}
        \<and> (pr_pc r \<in> {WritingPid, FillingPid} \<longrightarrow> pr_handlers r))
     \<and> (pr_pc r \<in> {Checking, Starting, Fork1, Detaching, Fork2, Settling, Redirecting, Installing, Leaving} \<longrightarrow> \<not> pr_handlers r)
     \<and> (c_daemonize cfg \<longrightarrow> pr_pc r \<in> {WritingPid, FillingPid} \<longrightarrow> \<not> pr_handlers r) \<and> (pr_stop r \<longrightarrow> pr_handlers r)
     \<and> (pr_pc r \<in> {Launching, Serving, Closing, Joining} \<longrightarrow> pr_handlers r) \<and> (pr_pc r \<in> {Closing, Joining} \<longrightarrow> pr_stop r)
     \<and> (pr_pc r \<in> {Serving, Closing, Joining} \<longrightarrow> pr_jobs r = job_names cfg)"

definition procs_ok :: "config \<Rightarrow> machine \<Rightarrow> bool" where
  "procs_ok cfg m \<longleftrightarrow> (\<forall>p r. m_procs m p = Some r \<longrightarrow> proc_ok cfg r)"

lemma procs_ok_upd:
  "procs_ok cfg m \<Longrightarrow> proc_ok cfg r \<Longrightarrow> procs_ok cfg (set_proc p r m)"
  "procs_ok cfg m \<Longrightarrow> procs_ok cfg (end_proc p m)"
  "procs_ok cfg (m\<lparr>m_pid_file := f\<rparr>) = procs_ok cfg m"
  by (auto simp: procs_ok_def life_upd)

lemma procs_okD: "procs_ok cfg m \<Longrightarrow> m_procs m p = Some r \<Longrightarrow> proc_ok cfg r"
  by (auto simp: procs_ok_def)

lemma own_step_ok: "own_step others cfg p m m' \<Longrightarrow> procs_ok cfg m \<Longrightarrow> procs_ok cfg m'"
  by (induction rule: own_step.induct)
    (unfold procs_ok_upd(3), (intro procs_ok_upd; (assumption | drule (1) procs_okD, force simp: proc_ok_def past_settling_def))+)

lemma life_step_ok: "life_step others cfg ev m m' \<Longrightarrow> procs_ok cfg m \<Longrightarrow> procs_ok cfg m'"
proof (induction rule: life_step.induct)
  case (own p m m')
  then show ?case by (rule own_step_ok)
next
  case (spawn m p leader fds)
  then show ?case by (intro procs_ok_upd) (simp_all add: proc_ok_def new_process_def past_settling_def)
next
  case (term_handled m p r f)
  then have "proc_ok cfg (r\<lparr>pr_stop := True\<rparr>)" by (auto simp: proc_ok_def dest!: procs_okD)
  then show ?case using term_handled(4) by (simp add: procs_ok_upd)
qed (simp_all add: procs_ok_upd)

lemma life_reach_ok: "life_reach others cfg f trace m \<Longrightarrow> procs_ok cfg m"
  by (induction rule: life_reach.induct) (auto simp: procs_ok_def dest: life_step_ok)



section \<open>One daemon at a time\<close>

datatype life_status = Idle | Fresh | Busy | Named | Live

text \<open>A starting process is \<open>Named\<close> while the pid file holds its own pid.\<close>

definition life_status_of :: "config \<Rightarrow> process \<Rightarrow> life_status" where
  "life_status_of cfg r =
     (case pr_pc r of
        Checking \<Rightarrow> Fresh
      | Serving \<Rightarrow> if pr_stop r then Idle else Live
      | Closing \<Rightarrow> Idle | Joining \<Rightarrow> Idle | Leaving \<Rightarrow> Idle
      | Redirecting \<Rightarrow> if pr_stop r then Busy else Named
      | Launching \<Rightarrow> if pr_stop r then Busy else Named
      | Installing \<Rightarrow> if c_daemonize cfg \<and> \<not> pr_stop r then Named else Busy
      | _ \<Rightarrow> Busy)"

definition status_at :: "config \<Rightarrow> machine \<Rightarrow> nat \<Rightarrow> life_status" where
  "status_at cfg m p = (case m_procs m p of None \<Rightarrow> Idle | Some r \<Rightarrow> life_status_of cfg r)"

lemma status_upd [simp]:
  "status_at cfg (set_proc p r m) q = (if q = p then life_status_of cfg r else status_at cfg m q)"
  "status_at cfg (end_proc p m) q = (if q = p then Idle else status_at cfg m q)"
  "status_at cfg (m\<lparr>m_pid_file := f\<rparr>) q = status_at cfg m q"
  "m_pid_file (set_proc p r m) = m_pid_file m" "m_pid_file (end_proc p m) = m_pid_file m"
  by (simp_all add: status_at_def life_upd)

text \<open>The starting processes exclude each other and, once they have checked, a serving one.\<close>

definition exclusive :: "config \<Rightarrow> machine \<Rightarrow> bool" where
  "exclusive cfg m \<longleftrightarrow>
     (\<forall>p q. status_at cfg m p \<in> {Fresh, Busy, Named} \<longrightarrow> status_at cfg m q \<in> {Fresh, Busy, Named} \<longrightarrow> p = q)
     \<and> (\<forall>p. status_at cfg m p \<in> {Named, Live} \<longrightarrow> m_pid_file m = Some (show_nat p))
     \<and> (\<forall>p q. status_at cfg m p \<in> {Busy, Named} \<longrightarrow> status_at cfg m q \<noteq> Live)"

text \<open>
  Starts do not overlap with another start or stop, and a process that stops already gets no second
  signal.
\<close>

definition calm :: "config \<Rightarrow> life_event \<times> machine \<Rightarrow> bool" where
  "calm cfg em = (case em of
     (Spawn _ _ _, m) \<Rightarrow> \<forall>p r. m_procs m p = Some r \<longrightarrow> pr_pc r = Leaving \<or> life_status_of cfg r = Live
   | (Term p, m) \<Rightarrow> \<forall>r. m_procs m p = Some r \<longrightarrow> \<not> pr_stop r
   | _ \<Rightarrow> True)"

lemma show_nat_inject: "show_nat p = show_nat q \<longleftrightarrow> p = q"
  by (metis dec_val_show_nat)

lemma pid_check_live:
  assumes "pid_check others m = Inr ()" "m_pid_file m = Some (show_nat q)"
  shows "status_at cfg m q = Idle"
proof -
  have "\<not> running others m (int q)" using assms by (auto simp: pid_check_def check_pid_def digits_not_space show_nat_digits py_int_show_nat split: if_splits)
  then have "m_procs m q = None" by (auto simp: running_def)
  then show ?thesis by (simp add: status_at_def)
qed

lemma free_idle: "free_pid others m c \<Longrightarrow> status_at cfg m c = Idle"
  by (auto simp: free_pid_def status_at_def split: option.splits)

lemma exclusiveI:
  assumes "\<And>p q. status_at cfg m p \<in> {Fresh, Busy, Named} \<Longrightarrow> status_at cfg m q \<in> {Fresh, Busy, Named} \<Longrightarrow> p = q"
    and "\<And>p. status_at cfg m p \<in> {Named, Live} \<Longrightarrow> m_pid_file m = Some (show_nat p)"
    and "\<And>p q. status_at cfg m p \<in> {Busy, Named} \<Longrightarrow> status_at cfg m q \<noteq> Live"
  shows "exclusive cfg m"
  using assms unfolding exclusive_def by blast

lemma exclusiveD:
  assumes "exclusive cfg m"
  shows "status_at cfg m p \<in> {Fresh, Busy, Named} \<Longrightarrow> status_at cfg m q \<in> {Fresh, Busy, Named} \<Longrightarrow> p = q"
    and "status_at cfg m p \<in> {Named, Live} \<Longrightarrow> m_pid_file m = Some (show_nat p)"
    and "status_at cfg m p \<in> {Busy, Named} \<Longrightarrow> status_at cfg m q = Live \<Longrightarrow> False"
  using assms unfolding exclusive_def by blast+

text \<open>A process that moves on within its start, begins to serve, or ends.\<close>

lemma exclusive_advance:
  assumes "exclusive cfg m" "\<And>q. status_at cfg m' q = (if q = p then b else status_at cfg m q)" "m_pid_file m' = m_pid_file m"
    and "b \<noteq> Idle \<Longrightarrow> status_at cfg m p \<in> {Busy, Named}" "b \<in> {Named, Live} \<Longrightarrow> status_at cfg m p = Named" "b \<noteq> Fresh"
  shows "exclusive cfg m'"
proof (rule exclusiveI)
  note D = exclusiveD [OF assms(1)]
  show "q = q'" if "status_at cfg m' q \<in> {Fresh, Busy, Named}" "status_at cfg m' q' \<in> {Fresh, Busy, Named}" for q q'
  proof (rule D(1))
    have "status_at cfg m u \<in> {Fresh, Busy, Named}" if "status_at cfg m' u \<in> {Fresh, Busy, Named}" for u
      using that assms(4) unfolding assms(2) by (cases "u = p") auto
    then show "status_at cfg m q \<in> {Fresh, Busy, Named}" "status_at cfg m q' \<in> {Fresh, Busy, Named}" using that by blast+
  qed
  show "m_pid_file m' = Some (show_nat q)" if "status_at cfg m' q \<in> {Named, Live}" for q
    using that D(2) assms(5) unfolding assms(2,3) by (cases "q = p") auto
  show "status_at cfg m' q' \<noteq> Live" if "status_at cfg m' q \<in> {Busy, Named}" for q q'
    using that D(1) [of q p] D(3) [of q q'] D(3) [of p q'] assms(4,5) unfolding assms(2) by (auto split: if_splits)
qed

text \<open>A process that writes the pid file.\<close>

lemma exclusive_write:
  assumes "exclusive cfg m" "\<And>q. status_at cfg m' q = (if q = p then b else status_at cfg m q)" "status_at cfg m p \<in> {Busy, Named}"
    and "b = Busy \<or> b = Named \<and> m_pid_file m' = Some (show_nat p)"
  shows "exclusive cfg m'"
proof (rule exclusiveI)
  note D = exclusiveD [OF assms(1)]
  show "q = q'" if "status_at cfg m' q \<in> {Fresh, Busy, Named}" "status_at cfg m' q' \<in> {Fresh, Busy, Named}" for q q'
  proof (rule D(1))
    have "status_at cfg m u \<in> {Fresh, Busy, Named}" if "status_at cfg m' u \<in> {Fresh, Busy, Named}" for u
      using that assms(3) unfolding assms(2) by (cases "u = p") auto
    then show "status_at cfg m q \<in> {Fresh, Busy, Named}" "status_at cfg m q' \<in> {Fresh, Busy, Named}" using that by blast+
  qed
  show "m_pid_file m' = Some (show_nat q)" if "status_at cfg m' q \<in> {Named, Live}" for q
    using that D(1) [of q p] D(3) [of p q] assms(3,4) unfolding assms(2) by (auto split: if_splits)
  show "status_at cfg m' q' \<noteq> Live" if "status_at cfg m' q \<in> {Busy, Named}" for q q'
    using that D(3) [of p q'] assms(3,4) unfolding assms(2) by (auto split: if_splits)
qed

text \<open>A fork hands the start over to the child.\<close>

lemma exclusive_fork:
  assumes "exclusive cfg m" "\<And>q. status_at cfg m' q = (if q = c then Busy else if q = p then Idle else status_at cfg m q)"
    "status_at cfg m p = Busy" "status_at cfg m c = Idle" "m_pid_file m' = m_pid_file m"
  shows "exclusive cfg m'"
proof (rule exclusiveI)
  note D = exclusiveD [OF assms(1)]
  show "q = q'" if "status_at cfg m' q \<in> {Fresh, Busy, Named}" "status_at cfg m' q' \<in> {Fresh, Busy, Named}" for q q'
  proof -
    have "u = c" if "status_at cfg m' u \<in> {Fresh, Busy, Named}" for u
      using that D(1) [of u p] assms(3) unfolding assms(2) by (cases "u = c"; cases "u = p") auto
    then show ?thesis using that by blast
  qed
  show "m_pid_file m' = Some (show_nat q)" if "status_at cfg m' q \<in> {Named, Live}" for q
    using that D(2) unfolding assms(2,5) by (auto split: if_splits)
  show "status_at cfg m' q' \<noteq> Live" if "status_at cfg m' q \<in> {Busy, Named}" for q q'
    using D(3) [of p q'] assms(3) by (auto simp: assms(2))
qed

lemma status_of: "m_procs m p = Some r \<Longrightarrow> status_at cfg m p = life_status_of cfg r"
  by (simp add: status_at_def)

lemma exclusive_set_proc:
  assumes "exclusive cfg m" "m_procs m p = Some r"
    and "life_status_of cfg r' \<noteq> Idle \<longrightarrow> life_status_of cfg r \<in> {Busy, Named}"
    and "life_status_of cfg r' \<in> {Named, Live} \<longrightarrow> life_status_of cfg r = Named" "life_status_of cfg r' \<noteq> Fresh"
  shows "exclusive cfg (set_proc p r' m)"
  using assms(1) by (rule exclusive_advance) (use assms(3-5) in \<open>auto simp: status_of [OF assms(2)]\<close>)

lemma exclusive_end_proc: "exclusive cfg m \<Longrightarrow> exclusive cfg (end_proc p m)"
  by (rule exclusive_advance [where b = Idle]) simp_all

lemma own_step_exclusive:
  assumes "own_step others cfg p m m'" "exclusive cfg m" "procs_ok cfg m"
  shows "exclusive cfg m'"
  using assms
proof (induction rule: own_step.induct)
  case (pass m r)
  show ?case
  proof (rule exclusiveI)
    note D = exclusiveD [OF pass(4)]
    let ?m = "set_proc p (r\<lparr>pr_pc := Starting\<rparr>) m"
    have p: "status_at cfg m p = Fresh" using pass by (simp add: status_of life_status_of_def)
    have live: "status_at cfg m q \<noteq> Live" for q
    proof
      assume l: "status_at cfg m q = Live"
      then have "m_pid_file m = Some (show_nat q)" using D(2) [of q] by simp
      from pid_check_live [OF pass(3) this, of cfg] l show False by simp
    qed
    show "q = q'" if "status_at cfg ?m q \<in> {Fresh, Busy, Named}" "status_at cfg ?m q' \<in> {Fresh, Busy, Named}" for q q'
    proof (rule D(1))
      have "status_at cfg m u \<in> {Fresh, Busy, Named}" if "status_at cfg ?m u \<in> {Fresh, Busy, Named}" for u
        using that p by (cases "u = p") auto
      then show "status_at cfg m q \<in> {Fresh, Busy, Named}" "status_at cfg m q' \<in> {Fresh, Busy, Named}" using that by blast+
    qed
    show "m_pid_file ?m = Some (show_nat q)" if "status_at cfg ?m q \<in> {Named, Live}" for q
      using that D(2) [of q] by (auto simp: life_status_of_def split: if_splits)
    show "status_at cfg ?m q' \<noteq> Live" if "status_at cfg ?m q \<in> {Busy, Named}" for q q'
      using live by (simp add: life_status_of_def)
  qed
next
  case (fork1 m r c)
  have "status_at cfg m p = Busy" using fork1(1,2) by (simp add: status_of life_status_of_def)
  then show ?case using exclusive_fork [OF fork1(4) _ _ free_idle [OF fork1(3)], where p = p] by (simp add: life_status_of_def)
next
  case (fork2 m r c)
  have "status_at cfg m p = Busy" using fork2(1,2) by (simp add: status_of life_status_of_def)
  then show ?case using exclusive_fork [OF fork2(4) _ _ free_idle [OF fork2(3)], where p = p] by (simp add: life_status_of_def)
next
  case (empty_pid m r)
  then have "status_at cfg m p \<in> {Busy, Named}" by (simp add: status_of life_status_of_def)
  then show ?case by (intro exclusive_write [OF empty_pid(3), where p = p and b = Busy]) (simp_all add: life_status_of_def)
next
  case (fill_pid m r)
  then have "status_at cfg m p \<in> {Busy, Named}" by (simp add: status_of life_status_of_def)
  then show ?case by (intro exclusive_write [OF fill_pid(3), where p = p and b = "if pr_stop r then Busy else Named"]) (simp_all add: life_status_of_def)
qed (simp_all add: exclusive_end_proc exclusive_set_proc life_status_of_def)


lemma leaving_idle: "pr_pc r = Leaving \<Longrightarrow> life_status_of cfg r = Idle"
  by (simp add: life_status_of_def)

lemma life_step_exclusive:
  assumes "life_step others cfg ev m m'" "exclusive cfg m" "procs_ok cfg m" "calm cfg (ev, m)"
  shows "exclusive cfg m'"
  using assms
proof (induction rule: life_step.induct)
  case (own p m m')
  then show ?case using own_step_exclusive by blast
next
  case (spawn m p leader fds)
  have idle: "status_at cfg m q \<in> {Idle, Live}" for q
    using spawn(4) leaving_idle by (cases "m_procs m q") (auto simp: calm_def status_at_def)
  show ?case
  proof (rule exclusiveI)
    let ?m = "set_proc p (new_process leader fds) m"
    have new: "life_status_of cfg (new_process leader fds) = Fresh" by (simp add: life_status_of_def new_process_def)
    have start: "q = p" if "status_at cfg ?m q \<in> {Fresh, Busy, Named}" for q using that idle [of q] by (cases "q = p") auto
    then show "q = q'" if "status_at cfg ?m q \<in> {Fresh, Busy, Named}" "status_at cfg ?m q' \<in> {Fresh, Busy, Named}" for q q' using that by metis
    show "m_pid_file ?m = Some (show_nat q)" if "status_at cfg ?m q \<in> {Named, Live}" for q
      using that exclusiveD(2) [OF spawn(2), of q] by (cases "q = p") (simp_all add: new)
    show "status_at cfg ?m q' \<noteq> Live" if "status_at cfg ?m q \<in> {Busy, Named}" for q q'
      using that idle [of q] by (cases "q = p") (auto simp: new)
  qed
next
  case (term_handled m p r f)
  note D = exclusiveD [OF term_handled(4)]
  have r: "\<not> pr_stop r" using term_handled(1,6) by (simp add: calm_def)
  have ok: "proc_ok cfg r" using term_handled(1,5) by (rule procs_okD [rotated])
  let ?m = "(set_proc p (r\<lparr>pr_stop := True\<rparr>) m)\<lparr>m_pid_file := f\<rparr>"
  define b where "b = life_status_of cfg (r\<lparr>pr_stop := True\<rparr>)"
  have p: "status_at cfg m p \<in> {Busy, Named} \<and> b = Busy \<or> status_at cfg m p = Live \<and> b = Idle"
    using r ok term_handled(1,2) unfolding b_def by (cases "pr_pc r") (auto simp: status_of life_status_of_def proc_ok_def)
  have st: "status_at cfg ?m q = (if q = p then b else status_at cfg m q)" for q by (simp add: b_def)
  show ?case
  proof (rule exclusiveI)
    have before: "status_at cfg m u \<in> {Fresh, Busy, Named}" if "status_at cfg ?m u \<in> {Fresh, Busy, Named}" for u
      using that p unfolding st by (cases "u = p") auto
    show "q = q'" if "status_at cfg ?m q \<in> {Fresh, Busy, Named}" "status_at cfg ?m q' \<in> {Fresh, Busy, Named}" for q q'
      using D(1) before that by blast
    have other: False if "status_at cfg ?m q \<in> {Named, Live}" for q
    proof -
      have q: "q \<noteq> p" "status_at cfg m q \<in> {Named, Live}" using that p unfolding st by (auto split: if_splits)
      with p D(1) [of p q] D(2) [of p] D(2) [of q] D(3) [of p q] D(3) [of q p] show False by (auto simp: show_nat_inject)
    qed
    show "m_pid_file ?m = Some (show_nat q)" if "status_at cfg ?m q \<in> {Named, Live}" for q using other that by blast
    show "status_at cfg ?m q' \<noteq> Live" if "status_at cfg ?m q \<in> {Busy, Named}" for q q' using other [of q'] by auto
  qed
qed (simp_all add: exclusive_end_proc)

lemma life_reach_exclusive: "life_reach others cfg f trace m \<Longrightarrow> list_all (calm cfg) trace \<Longrightarrow> exclusive cfg m"
proof (induction rule: life_reach.induct)
  case boot
  show ?case by (simp add: exclusive_def status_at_def)
next
  case (step trace m ev m')
  then show ?case using life_step_exclusive life_reach_ok by fastforce
qed

text \<open>
  C13: as long as no start overlaps with another start or with a shutdown, and a stopping process gets no second
  signal, at most one daemon serves, and the pid file names it, whatever processes are killed and whatever
  file was found at boot.
\<close>
theorem one_daemon_serves:
  assumes "life_reach others cfg f trace m" "list_all (calm cfg) trace"
    and "m_procs m p = Some r" "pr_pc r = Serving" "\<not> pr_stop r"
  shows "m_pid_file m = Some (show_nat p) \<and> (\<forall>q r'. m_procs m q = Some r' \<and> pr_pc r' = Serving \<and> \<not> pr_stop r' \<longrightarrow> q = p)"
proof -
  have live: "m_pid_file m = Some (show_nat q)" if "m_procs m q = Some r'" "pr_pc r' = Serving" "\<not> pr_stop r'" for q r'
    using exclusiveD(2) [OF life_reach_exclusive [OF assms(1,2)], of q] that by (simp add: status_of life_status_of_def)
  with assms(3-5) show ?thesis by (metis option.inject show_nat_inject)
qed


section \<open>What can go wrong\<close>

text \<open>A foreground daemon that starts alone, up to its check.\<close>

lemma own_reach: "life_reach others cfg f trace m \<Longrightarrow> own_step others cfg p m m' \<Longrightarrow> life_reach others cfg f (trace @ [(Own p, m)]) m'"
  by (rule life_reach.step, assumption, rule life_step.own)

definition fg_config :: config where
  "fg_config = (default_config ''d'' ''t'')\<lparr>c_daemonize := False\<rparr>"

lemma init_succeeds: "fst (init_kernel None (open_socket 77 1 [] []) ack_socket cfg) = Inr ()"
proof -
  have "\<exists>m. frame 77 sdesc_sweep = Inr m"
    by (rule frame_ok) (simp_all add: sdesc_sweep_def ev_type_def ev_get_def event_codes session_fits_def blank_def)
  then obtain m where m: "frame (sk_portid ack_socket) sdesc_sweep = Inr m" by (auto simp: ack_socket_def open_socket_def sk_portid_def)
  have sends: "sk_sends ack_socket = []" by (simp add: ack_socket_def open_socket_def)
  have "\<exists>s'. send_event sdesc_sweep ack_socket = (Inr (kernel_msg_event ack_msg), s')"
    using send_only_ok [OF sends m] ack_parsed(1)
    by (simp add: send_event_def nl_bind_def nl_recv.simps nl_lift_def) (simp add: ack_socket_def open_socket_def)
  then show ?thesis by (auto simp: init_kernel_def reload_def nl_bind_def nl_return_def Let_def)
qed

text \<open>The process \<open>p\<close> can get to \<open>pc\<close>, by a calm run if \<open>quiet\<close>, while the others are as in \<open>procs\<close>.\<close>

definition gets_to :: "bool \<Rightarrow> nat set \<Rightarrow> config \<Rightarrow> string option \<Rightarrow> nat \<Rightarrow> (nat \<rightharpoonup> process) \<Rightarrow> life_pc \<Rightarrow> bool" where
  "gets_to quiet others cfg f p procs pc \<longleftrightarrow> (\<exists>trace m r. life_reach others cfg f trace m \<and> (quiet \<longrightarrow> list_all (calm cfg) trace) \<and> m_procs m p = Some r \<and> pr_pc r = pc \<and> \<not> pr_stop r
     \<and> (\<forall>q. q \<noteq> p \<longrightarrow> m_procs m q = procs q))"

lemma gets_toI:
  "life_reach others cfg f trace m \<Longrightarrow> m_procs m p = Some r \<Longrightarrow> \<not> pr_stop r \<Longrightarrow> quiet \<longrightarrow> list_all (calm cfg) trace \<Longrightarrow> gets_to quiet others cfg f p (m_procs m) (pr_pc r)"
  unfolding gets_to_def by blast

lemma gets_on:
  assumes "gets_to quiet others cfg f p procs a"
    and "\<And>m r. m_procs m p = Some r \<Longrightarrow> pr_pc r = a \<Longrightarrow> own_step others cfg p m ((set_proc p (g r) m)\<lparr>m_pid_file := h m\<rparr>)"
    and "\<And>r. pr_pc (g r) = b \<and> pr_stop (g r) = pr_stop r"
  shows "gets_to quiet others cfg f p procs b"
proof -
  obtain trace m r where m: "life_reach others cfg f trace m" "m_procs m p = Some r" "pr_pc r = a" "\<not> pr_stop r" "\<forall>q. q \<noteq> p \<longrightarrow> m_procs m q = procs q"
    "quiet \<longrightarrow> list_all (calm cfg) trace" using assms(1) by (auto simp: gets_to_def)
  let ?m = "(set_proc p (g r) m)\<lparr>m_pid_file := h m\<rparr>"
  note own_reach [OF m(1) assms(2) [OF m(2,3)]]
  moreover have "m_procs ?m p = Some (g r)" "\<forall>q. q \<noteq> p \<longrightarrow> m_procs ?m q = procs q" using m(5) by (simp_all add: set_proc_def)
  moreover have "pr_pc (g r) = b" "\<not> pr_stop (g r)" using assms(3) [of r] m(4) by simp_all
  moreover have "quiet \<longrightarrow> list_all (calm cfg) (trace @ [(Own p, m)])" using m(6) by (simp add: calm_def)
  ultimately show ?thesis unfolding gets_to_def by blast
qed

lemma keep_file: "(set_proc p r m)\<lparr>m_pid_file := m_pid_file m\<rparr> = set_proc p r m"
  by (simp add: set_proc_def)

text \<open>A foreground daemon that has passed its check comes to serve.\<close>

lemma fg_serves:
  assumes "gets_to quiet others fg_config f p procs Starting"
  shows "gets_to quiet others fg_config f p procs Serving"
proof -
  have fg: "\<not> c_daemonize fg_config" by (simp add: fg_config_def)
  note init = own_step.init_ok [where cfg = fg_config, OF _ _ init_succeeds, unfolded if_not_P [OF fg]]
  note install = own_step.install [where cfg = fg_config, unfolded if_not_P [OF fg]]
  note fill = own_step.fill_pid [where cfg = fg_config, unfolded if_not_P [OF fg]]
  have "gets_to quiet others fg_config f p procs Installing"
    using assms by (rule gets_on [where h = m_pid_file]) (unfold keep_file, rule init, auto)
  then have "gets_to quiet others fg_config f p procs WritingPid"
    by (rule gets_on [where h = m_pid_file]) (unfold keep_file, rule install, auto)
  then have "gets_to quiet others fg_config f p procs FillingPid"
    by (rule gets_on) (rule own_step.empty_pid, auto)
  then have "gets_to quiet others fg_config f p procs Launching"
    by (rule gets_on) (rule fill, auto)
  then show ?thesis
    by (rule gets_on [where h = m_pid_file]) (unfold keep_file, rule own_step.launch, auto)
qed

text \<open>
  The check of the pid file does not exclude a second daemon: of two that are started at the same time both pass
  it before either has written its pid, and both serve.
\<close>
theorem two_daemons_race:
  "\<exists>trace m r r'. life_reach {} fg_config None trace m \<and> m_procs m 1 = Some r \<and> m_procs m 2 = Some r'
     \<and> pr_pc r = Serving \<and> pr_pc r' = Serving \<and> \<not> pr_stop r \<and> \<not> pr_stop r'"
proof -
  let ?new = "new_process False []" and ?m0 = "\<lparr>m_procs = Map.empty, m_pid_file = None\<rparr>"
  let ?started = "?new\<lparr>pr_pc := Starting\<rparr>"
  let ?m1 = "set_proc 1 ?new ?m0"
  let ?m2 = "set_proc 2 ?new ?m1"
  let ?m3 = "set_proc 1 ?started ?m2"
  let ?m4 = "set_proc 2 ?started ?m3"
  have free: "free_pid {} ?m0 1" "free_pid {} ?m1 2" by (simp_all add: free_pid_def set_proc_def)
  have check: "pid_check {} ?m2 = Inr ()" "pid_check {} ?m3 = Inr ()" by (simp_all add: pid_check_def check_pid_def set_proc_def)
  note s1 = life_reach.step [OF life_reach.boot life_step.spawn [OF free(1)]]
  note s2 = life_reach.step [OF s1 life_step.spawn [OF free(2)]]
  have "own_step {} fg_config 1 ?m2 ?m3" by (rule own_step.pass [OF _ _ check(1)]) (simp_all add: set_proc_def new_process_def)
  note s3 = own_reach [OF s2 this]
  have "own_step {} fg_config 2 ?m3 ?m4" by (rule own_step.pass [OF _ _ check(2)]) (simp_all add: set_proc_def new_process_def)
  note s4 = own_reach [OF s3 this]
  have st: "pr_pc ?started = Starting" "\<not> pr_stop ?started" by (simp_all add: new_process_def)
  have "m_procs ?m4 1 = Some ?started" by (simp add: set_proc_def)
  from gets_toI [OF s4 this st(2), of False] have "gets_to False {} fg_config None 1 (m_procs ?m4) Starting" by (simp add: st(1))
  from fg_serves [OF this] obtain t5 m5 r where m5: "life_reach {} fg_config None t5 m5" "m_procs m5 1 = Some r" "pr_pc r = Serving" "\<not> pr_stop r"
    "\<forall>q. q \<noteq> 1 \<longrightarrow> m_procs m5 q = m_procs ?m4 q" by (auto simp: gets_to_def)
  have "m_procs m5 2 = Some ?started" using m5(5) by (simp add: set_proc_def)
  from gets_toI [OF m5(1) this st(2), of False] have "gets_to False {} fg_config None 2 (m_procs m5) Starting" by (simp add: st(1))
  from fg_serves [OF this] obtain t6 m6 r' where m6: "life_reach {} fg_config None t6 m6" "m_procs m6 2 = Some r'" "pr_pc r' = Serving" "\<not> pr_stop r'"
    "\<forall>q. q \<noteq> 2 \<longrightarrow> m_procs m6 q = m_procs m5 q" by (auto simp: gets_to_def)
  have "m_procs m6 1 = Some r" using m6(5) m5(2) by simp
  with m5(3,4) m6 show ?thesis by blast
qed

section \<open>Stopping\<close>

text \<open>The steps that a stopped process has before it.\<close>

definition steps_left :: "process \<Rightarrow> nat" where
  "steps_left r = (case pr_pc r of WritingPid \<Rightarrow> 6 | FillingPid \<Rightarrow> 5 | Launching \<Rightarrow> 4 | Serving \<Rightarrow> 3 | Closing \<Rightarrow> 2 | _ \<Rightarrow> 1)"



section \<open>Two lives\<close>

text \<open>A fork hands over to the next process.\<close>

lemma gets_fork:
  assumes "gets_to quiet {} cfg f p procs a" "p \<noteq> c" "procs c = None"
    and "\<And>m r. m_procs m p = Some r \<Longrightarrow> pr_pc r = a \<Longrightarrow> free_pid {} m c
      \<Longrightarrow> own_step {} cfg p m (set_proc c (r\<lparr>pr_pc := b, pr_leader := False\<rparr>) (set_proc p (r\<lparr>pr_pc := Leaving\<rparr>) m))"
  shows "\<exists>procs'. gets_to quiet {} cfg f c procs' b \<and> (\<forall>q. q \<noteq> p \<and> q \<noteq> c \<longrightarrow> procs' q = procs q)"
proof -
  obtain trace m r where m: "life_reach {} cfg f trace m" "m_procs m p = Some r" "pr_pc r = a" "\<not> pr_stop r" "\<forall>q. q \<noteq> p \<longrightarrow> m_procs m q = procs q"
    "quiet \<longrightarrow> list_all (calm cfg) trace" using assms(1) by (auto simp: gets_to_def)
  let ?r = "r\<lparr>pr_pc := b, pr_leader := False\<rparr>"
  let ?m = "set_proc c ?r (set_proc p (r\<lparr>pr_pc := Leaving\<rparr>) m)"
  have "free_pid {} m c" using m(5) assms(2,3) by (auto simp: free_pid_def)
  from own_reach [OF m(1) assms(4) [OF m(2,3) this]] have reach: "life_reach {} cfg f (trace @ [(Own p, m)]) ?m" .
  have "m_procs ?m c = Some ?r" "\<not> pr_stop ?r" "quiet \<longrightarrow> list_all (calm cfg) (trace @ [(Own p, m)])"
    using m(4,6) by (simp_all add: set_proc_def calm_def)
  from gets_toI [OF reach this] have "gets_to quiet {} cfg f c (m_procs ?m) b" by simp
  moreover have "\<forall>q. q \<noteq> p \<and> q \<noteq> c \<longrightarrow> m_procs ?m q = procs q" using m(5) by (simp add: set_proc_def)
  ultimately show ?thesis by blast
qed

lemma first_start: "\<exists>procs. gets_to True {} cfg None 1 procs Starting \<and> (\<forall>q. q \<noteq> 1 \<longrightarrow> procs q = None)"
proof -
  let ?new = "new_process True []" and ?m0 = "\<lparr>m_procs = Map.empty, m_pid_file = None\<rparr>"
  let ?m1 = "set_proc 1 ?new ?m0"
  let ?m2 = "set_proc 1 (?new\<lparr>pr_pc := Starting\<rparr>) ?m1"
  have "free_pid {} ?m0 1" by (simp add: free_pid_def)
  note s1 = life_reach.step [OF life_reach.boot life_step.spawn [OF this]]
  have "own_step {} cfg 1 ?m1 ?m2"
    by (rule own_step.pass) (simp_all add: set_proc_def new_process_def pid_check_def check_pid_def)
  note s2 = own_reach [OF s1 this]
  have "m_procs ?m2 1 = Some (?new\<lparr>pr_pc := Starting\<rparr>)" "\<not> pr_stop (?new\<lparr>pr_pc := Starting\<rparr>)" by (simp_all add: set_proc_def new_process_def)
  from gets_toI [OF s2 this, of True] have "gets_to True {} cfg None 1 (m_procs ?m2) Starting" by (simp add: calm_def)
  moreover have "\<forall>q. q \<noteq> 1 \<longrightarrow> m_procs ?m2 q = None" by (simp add: set_proc_def)
  ultimately show ?thesis by blast
qed

definition bg_config :: config where
  "bg_config = default_config ''d'' ''t''"

lemma bg_serves: "\<exists>procs. gets_to True {} bg_config None 3 procs Serving"
proof -
  have bg: "c_daemonize bg_config" by (simp add: bg_config_def default_config_def)
  obtain procs where p1: "gets_to True {} bg_config None 1 procs Starting" "\<forall>q. q \<noteq> 1 \<longrightarrow> procs q = None" using first_start by blast
  note init = own_step.init_ok [where cfg = bg_config, OF _ _ init_succeeds, unfolded if_P [OF bg]]
  note install = own_step.install [where cfg = bg_config, unfolded if_P [OF bg]]
  note fill = own_step.fill_pid [where cfg = bg_config, unfolded if_P [OF bg]]
  have "gets_to True {} bg_config None 1 procs Fork1"
    using p1(1) by (rule gets_on [where h = m_pid_file]) (unfold keep_file, rule init, auto)
  from gets_fork [OF this _ _ own_step.fork1, of 2] p1(2) obtain procs2 where
    p2: "gets_to True {} bg_config None 2 procs2 Detaching" "procs2 3 = None" by auto
  from p2(1) have "gets_to True {} bg_config None 2 procs2 Fork2"
    by (rule gets_on [where h = m_pid_file]) (unfold keep_file, rule own_step.detach, auto)
  from gets_fork [OF this _ _ own_step.fork2, of 3] p2(2) obtain procs3 where "gets_to True {} bg_config None 3 procs3 Settling" by auto
  then have "gets_to True {} bg_config None 3 procs3 WritingPid"
    by (rule gets_on [where h = m_pid_file]) (unfold keep_file, rule own_step.settle, auto)
  then have "gets_to True {} bg_config None 3 procs3 FillingPid"
    by (rule gets_on) (rule own_step.empty_pid, auto)
  then have "gets_to True {} bg_config None 3 procs3 Redirecting"
    by (rule gets_on) (rule fill, auto)
  then have "gets_to True {} bg_config None 3 procs3 Installing"
    by (rule gets_on [where h = m_pid_file]) (unfold keep_file, rule own_step.redirect, auto)
  then have "gets_to True {} bg_config None 3 procs3 Launching"
    by (rule gets_on [where h = m_pid_file]) (unfold keep_file, rule install, auto)
  then have "gets_to True {} bg_config None 3 procs3 Serving"
    by (rule gets_on [where h = m_pid_file]) (unfold keep_file, rule own_step.launch, auto)
  then show ?thesis by blast
qed


theorem one_daemon_serves_witness:
  "\<exists>(m :: machine) (r :: process). m_procs m 3 = Some r \<and> pr_pc r = Serving \<and> m_pid_file m = Some (show_nat 3)"
proof -
  obtain trace m r where "life_reach {} bg_config None trace m" "list_all (calm bg_config) trace" "m_procs m 3 = Some r" "pr_pc r = Serving" "\<not> pr_stop r"
    using bg_serves by (auto simp: gets_to_def)
  with one_daemon_serves [OF this] show ?thesis by blast
qed


end
