(* ===== verification/Spec2Isabelle.thy ===== *)
theory Spec2Isabelle
  imports Traffic Screen Breaker_Threads Lifecycle
begin

text \<open>
  \<^bold>\<open>The ISG userspace.\<close> An ISG (intelligent services gateway) lets subscribers through a Linux router one
  session at a time. A netfilter module in the kernel keeps the sessions; the Python programs verified
  here decide about them. The daemon (\<^verbatim>\<open>src/app/ISGd.py\<close>) listens to the kernel over a netlink socket, asks
  a RADIUS server or a database about every new session and sends the verdict back: approve with rates,
  timers and services, or keep the session limited. Accounting events go to the same servers. A CoA server
  (RFC 5176) lets the operator's RADIUS server change or end sessions at any time, a job keeps the table
  of traffic classes in the kernel equal to a file, another writes a status file, and a REST interface
  shows and changes sessions, streams their traffic and probes hosts by ARP. The command line tool
  (\<^verbatim>\<open>src/app/ISG.py\<close>) and the terminal monitor in it (\<^verbatim>\<open>src/app/src/monitor.py\<close>) speak to the kernel directly.

  \<^bold>\<open>How the code is modelled.\<close> Every function of the sources is a HOL function of its own, with the name it
  has there where HOL allows it. A Python exception is the left side of a sum (\<open>'a res = exn + 'a\<close>,
  \<open>Py_Prelude\<close>), an event dictionary a map from its keys to Python values, a dictionary whose order
  matters an association list (\<open>odict\<close>), a class a record, and an integer an \<open>int\<close> that is checked or cut
  where \<^verbatim>\<open>struct\<close> and the kernel's C fields cut it. Code that speaks to the kernel is a state transformer
  \<open>'a nl\<close> on the socket record \<open>nlsock\<close>, which holds what was sent so far and two scripts, lists of what the
  operating system will do with the next sends and receives: succeed, fail, time out, deliver any bytes.
  A theorem for all sockets is therefore a theorem about every behaviour of the kernel and of the
  operating system, and \<open>new_messages\<close> says what a run has sent. The same is done for the sockets of the
  RADIUS backend, the connections of the database backend, the clocks (rational numbers, so that times
  compare as they do in the code), the frames of the ARP prober and the keys of the terminal.
  What lies outside the repository is a parameter: pyrad's attribute encoder and packet parser are
  arguments of the RADIUS definitions, pymysql is the script of outcomes of its calls, \<^verbatim>\<open>yaml.safe_load\<close> the
  tree it gives. MD5 and HMAC, which belong to Python's library, are defined (\<open>Md5\<close>).

  \<^bold>\<open>The theories\<close>, each importing those whose code its own code calls:

  \<^item> \<open>Py_Prelude\<close>: exceptions, bytes, \<^verbatim>\<open>struct\<close>, slices, numerals, text, ordered dictionaries. Its locales
    \<open>fixed_reader\<close> and \<open>fixed_codec\<close> state what an encoding in fields of fixed width promises (reading back
    a concatenation of records), interpreted for both byte orders here and for kernel messages in
    \<open>Netlink\<close>; \<open>pydict\<close> states what a dictionary promises, interpreted for \<open>odict\<close>.
  \<^item> \<open>Py_Float\<close>: rounding to double precision, \<^verbatim>\<open>int(n * 1.5)\<close> and the \<^verbatim>\<open>.3g\<close> format, where the program
    sends or shows the result.
  \<^item> \<open>Netlink\<close> (\<^verbatim>\<open>src/isg.py\<close>): addresses and identifiers, packing and unpacking of events, framing, and
    \<open>send_only\<close>, \<open>send_event\<close>, \<open>get_list\<close>, \<open>get_totals\<close>. The kernel's structures of \<^verbatim>\<open>kernel/isg_main.h\<close> are
    written down as what the kernel reads at its offsets (\<open>kernel_msg_bytes\<close> and the readers), so that the
    round trips are between two independent descriptions of the wire. \<open>Nl_Trace\<close> collects the lemmas about
    sequences of sends.
  \<^item> \<open>Config\<close> and \<open>Config_Load\<close> (\<^verbatim>\<open>src/config.py\<close>): the dataclasses with their defaults, and the loader from the
    YAML tree with each of its conversion errors. A loaded configuration is well-formed, has the documented
    defaults where the file is silent, and a configuration written out is loaded back unchanged.
  \<^item> \<open>Services\<close> (\<^verbatim>\<open>src/services.py\<close>): QoS strings, preparation, events, and the resolution of conflicts between
    services; the locale \<open>service_resolver\<close> is what the session server relies on, interpreted for \<open>sanitize\<close>.
  \<^item> \<open>Backend_Base\<close> (\<^verbatim>\<open>src/backends/base.py\<close>): account-info parser, rate counter, statistics and the circuit
    breaker, whose histories are the rule-inductive \<open>cb_reach\<close>. \<open>Breaker_Threads\<close> takes its calls apart into the reads
    and writes of attributes that several worker threads interleave, and runs them under every schedule.
  \<^item> \<open>Isg_Server\<close> (\<^verbatim>\<open>src/isg_server.py\<close>): dispatch of kernel events, workers with failover, application of a
    result, the event loop. The plan of a result says what has to be sent and the code is shown to send
    a prefix of it, and all of it when it returns. The locale \<open>backend_iface\<close> is the contract between workers and backends (well-formed
    results, the declared exception only), interpreted for RADIUS, for MySQL and for the mixed pools.
  \<^item> \<open>Radius_Packet\<close>, \<open>Radius\<close> (\<^verbatim>\<open>src/radius_packet.py\<close>, \<^verbatim>\<open>src/backends/radius.py\<close>): request building, password
    obfuscation, authentication and accounting exchange. \<open>Coa_Server\<close> (\<^verbatim>\<open>src/coa_server.py\<close>): verification,
    targets, changes and replies.
  \<^item> \<open>Mysql\<close> (\<^verbatim>\<open>src/backends/mysql.py\<close>): connections per thread, the retry after a lost connection, rows to
    results; \<open>my_reach\<close> are the states that any sequence of operations of any threads reaches.
  \<^item> \<open>Tc_Conf\<close> (\<^verbatim>\<open>src/tc.py\<close>): parsing and loading of the classification table.
  \<^item> \<open>Daemon\<close> and \<open>Status\<close> (\<^verbatim>\<open>ISGd.py\<close>): pools of both kinds of backend, start of the kernel side, pid check, the
    reload job, shutdown; the status job as a step relation \<open>status_step\<close> over the file system in which every
    step may fail or be the last one. \<open>Lifecycle\<close> is \<^verbatim>\<open>run\<close> as the operating system sees it: processes that check and
    write the pid file, fork, detach, install handlers, start their threads and stop (\<open>own_step\<close>), with signals and
    further instances at any moment (\<open>life_step\<close>).
  \<^item> \<open>Api_Sessions\<close>, \<open>Api_Server\<close>, \<open>Arp\<close>, \<open>Traffic\<close> (\<^verbatim>\<open>src/api/\<close>): queries and updates of sessions, the access
    check and the routes, the ARP prober, the stream of traffic events.
  \<^item> \<open>Monitor\<close> (\<^verbatim>\<open>src/monitor.py\<close>): lookup, sampling, graphs, keys and the rate dialogue of the session monitor,
    and the system-wide monitor; \<open>Screen\<close>: the number formats and every row of its two screens. \<open>Cli\<close> (\<^verbatim>\<open>ISG.py\<close>): formatting, the table, every command with its exit status.
  \<^item> This theory: properties that span components.

  \<^bold>\<open>What is shown.\<close> \<^emph>\<open>From the answer of a server to the kernel\<close>: a worker approves a session only if a configured
  server accepted it in answer to this request or an active service of the walled garden limits it; what
  is approved carries the port, timers, rates and flags of the result; the first backend that can answer
  decides; no two active services claim one traffic class. \<^emph>\<open>Availability\<close>: a backend is skipped only
  after three errors in a row and for less than 30 s, and under any interleaving of the workers only after three
  counted errors; the event loop survives every datagram; an ARP probe returns. \<^emph>\<open>Life\<close>: a background daemon is
  detached from its terminal, at most one daemon serves as long as starts do not overlap, and a signal ends it
  within six steps. \<^emph>\<open>Authority\<close>: an unauthenticated CoA packet, an unauthorised REST request or an unconfirmed
  key of the monitor changes nothing, and an acknowledgement or an exit status 0 means that the kernel
  acknowledged. \<^emph>\<open>Wire formats\<close>: session events, kernel messages, listings, counters, passwords, replies and
  configuration files survive the round trip. \<^emph>\<open>Resources\<close>: a query runs at most twice, no statement runs on a closed connection,
  the status file is whole whenever it is read. \<^emph>\<open>Views\<close>: tool, REST interface and monitor report the
  same counts; a frame fills the terminal, its graphs never wrap, and a rate on the screen is right to its last
  digit. Where the code does not do what it means to, the theorem says what it does
  (\<open>coa_bad_address_ends_loop\<close>, \<open>global_reset_crashes\<close>, \<open>partial_update_lifts_other_limit\<close>,
  \<open>shutdown_closes_own\<close>, \<open>lost_errors\<close>, \<open>two_daemons_race\<close>, \<open>session_frame_fills_screen\<close>).

  \<^bold>\<open>Loops.\<close> Receive loops recurse over the script of the socket, which a run of the program consumes one entry per
  call; a script that ends stands for a socket on which nothing more arrives, which the code sees as a
  timeout, so every such loop is total and no fuel is chosen. Endless loops (event loop, CoA loop, traffic
  stream, monitor) run over a finite list of rounds, and the properties hold for every such list. The
  wait of the ARP prober depends on the clock alone: it is a \<open>partial_function\<close>, and \<open>arping_terminates\<close>
  shows that it returns as soon as the clock passes the deadline.

  \<^bold>\<open>Not modelled.\<close> Log output and its set-up, the parsing of the daemon's command line, and the settings of the
  terminal (\<^verbatim>\<open>termios\<close>): they have no result that the program uses. FastAPI, uvicorn and asyncio around the routes
  (\<^verbatim>\<open>APIServer.run\<close>, \<^verbatim>\<open>create_app\<close>): library code that calls the modelled handlers. Socket options. Threads interleave
  in the circuit breaker, where they share what decides; elsewhere workers run one at a time, and where they
  share state (connections) the properties hold for every order of their calls. The kernel module, apart from the
  structures it exchanges: its answers are arbitrary.
\<close>

section \<open>From the configuration file to the pools\<close>

text \<open>
  C27: whatever configuration file is loaded, the daemon asks its servers in the order of their
  priorities: each pool is the list of the usable entries of its section, sorted by priority, and no two
  entries have the same one.
\<close>
theorem loaded_pools_in_order:
  assumes "load base doc = Loaded c" "section = c_auth c \<or> section = c_accounting c"
  shows "map entry_of (make_pool c section nas_ip nas_id) = filter usable (map snd (sort_key fst section))
     \<and> sorted_wrt (<) (map fst (sort_key fst section)) \<and> mset (sort_key fst section) = mset section"
proof -
  from load_fields [OF assms(1)] assms(2) have d: "distinct (map fst section)" using parse_pool_distinct by blast
  note pool = pool_in_priority_order [OF d, of c nas_ip nas_id]
  have "distinct (map fst (sort_key fst section))" using d by (simp add: distinct_map)
  with pool show ?thesis by (simp add: strict_sorted_iff)
qed

theorem loaded_pools_in_order_witness:
  "\<exists>c. load ''/etc/isg'' (Inr (YMap sample_doc)) = Loaded c \<and> sorted_wrt (<) (map fst (sort_key fst (c_auth c)))"
proof -
  have "\<exists>c. load ''/etc/isg'' (Inr (YMap sample_doc)) = Loaded c"
    by (simp add: load_def load_map_def yget_def of_res_def resolve_def parse_services_def or_empty_def
      parse_pool_def parse_mysql_def parse_api_def to_list_def to_bytes_def parse_entry_def parse_service_def sample_doc_def
      py_int_def strip_def is_space_def is_digit_def dec_val_def digit_val_def)
  then obtain c where c: "load ''/etc/isg'' (Inr (YMap sample_doc)) = Loaded c" ..
  from loaded_pools_in_order [OF c disjI1 [OF refl], THEN conjunct2, THEN conjunct1] c show ?thesis by (intro exI conjI)
qed


section \<open>One kernel, three views\<close>



end
